(* ===== verification/Prelude.thy ===== *)
theory Prelude
  imports Main "HOL-Library.Word" "HOL-Library.Multiset" "HOL-Library.List_Lexorder"
begin

section \<open>Shared types, results, guards and library lemmas\<close>

text \<open>
  Machine integers of the Go source are words of their width, so that \<open>+\<close> wraps as it does
  there. A \<open>[]byte\<close>, a \<open>[20]byte\<close> and a \<open>[32]byte\<close> are byte lists; a fixed-size array is a
  list of that length, which the predicates \<open>is_bytes20\<close> and \<open>is_bytes32\<close> state. A nil slice and
  an empty slice are both \<open>[]\<close> (the source only measures and appends them). A pointer or a
  \<open>*big.Int\<close> that may be nil is an \<open>option\<close>.

  A hook that may panic returns a value of a sum type, \<open>Inl\<close> the panic. \<open>guard\<close> runs a check
  that may panic before the rest of a hook, \<open>bindR\<close> sequences two steps.
\<close>

type_synonym byte = "8 word"
type_synonym u8 = "8 word"
type_synonym u32 = "32 word"
type_synonym u64 = "64 word"
type_synonym bytes = "byte list"

definition is_bytes20 :: "bytes \<Rightarrow> bool" where
  "is_bytes20 b \<longleftrightarrow> length b = 20"

definition is_bytes32 :: "bytes \<Rightarrow> bool" where
  "is_bytes32 b \<longleftrightarrow> length b = 32"

named_theorems hook_simps \<open>inversion of guards and of sequenced steps\<close>
named_theorems reset_simps \<open>what a reset operation leaves in each field\<close>

subsection \<open>Results\<close>

fun guard :: "'e option \<Rightarrow> 'e + 'a \<Rightarrow> 'e + 'a" where
  "guard (Some e) k = Inl e"
| "guard None k = k"

fun bindR :: "'e + 'a \<Rightarrow> ('a \<Rightarrow> 'e + 'b) \<Rightarrow> 'e + 'b" where
  "bindR (Inl e) f = Inl e"
| "bindR (Inr x) f = f x"

fun or_else :: "'e option \<Rightarrow> 'e option \<Rightarrow> 'e option" where
  "or_else (Some e) g = Some e"
| "or_else None g = g"

lemma guard_Inr_iff [hook_simps]: "guard g k = Inr x \<longleftrightarrow> g = None \<and> k = Inr x"
  by (cases g) auto

lemma guard_Inl_iff [hook_simps]: "guard g k = Inl e \<longleftrightarrow> g = Some e \<or> g = None \<and> k = Inl e"
  by (cases g) auto

lemma bindR_Inr_iff [hook_simps]: "bindR m f = Inr y \<longleftrightarrow> (\<exists>x. m = Inr x \<and> f x = Inr y)"
  by (cases m) auto

lemma bindR_Inl_iff [hook_simps]:
  "bindR m f = Inl e \<longleftrightarrow> m = Inl e \<or> (\<exists>x. m = Inr x \<and> f x = Inl e)"
  by (cases m) auto

lemma or_else_None_iff [hook_simps]: "or_else a b = None \<longleftrightarrow> a = None \<and> b = None"
  by (cases a) auto

lemma or_else_Some_iff [hook_simps]:
  "or_else a b = Some e \<longleftrightarrow> a = Some e \<or> a = None \<and> b = Some e"
  by (cases a) auto

text \<open>A loop whose body may fail: left to right, stopping at the first failure.\<close>

fun foldR :: "('x \<Rightarrow> 's \<Rightarrow> 'e + 's) \<Rightarrow> 'x list \<Rightarrow> 's \<Rightarrow> 'e + 's" where
  "foldR f [] s = Inr s"
| "foldR f (x # xs) s = bindR (f x s) (foldR f xs)"

lemma foldR_append: "foldR f (xs @ ys) s = bindR (foldR f xs s) (foldR f ys)"
proof (induction xs arbitrary: s)
  case Nil
  then show ?case by simp
next
  case (Cons x xs)
  then show ?case by (cases "f x s") auto
qed

lemma foldR_invariant:
  assumes "foldR f xs s = Inr s'" and "P s"
    and "\<And>x s t. x \<in> set xs \<Longrightarrow> P s \<Longrightarrow> f x s = Inr t \<Longrightarrow> P t"
  shows "P s'"
  using assms
proof (induction xs arbitrary: s)
  case Nil
  then show ?case by simp
next
  case (Cons x xs)
  from Cons.prems(1) obtain t where t: "f x s = Inr t" "foldR f xs t = Inr s'"
    by (auto simp: bindR_Inr_iff)
  have "P t" using Cons.prems(2,3) t(1) by auto
  with Cons.IH [OF t(2)] Cons.prems(3) show ?case by auto
qed

subsection \<open>Writing the last element of a list, reading an index that may be out of range\<close>

definition update_last :: "('a \<Rightarrow> 'a) \<Rightarrow> 'a list \<Rightarrow> 'a list" where
  "update_last f xs = (if xs = [] then [] else butlast xs @ [f (last xs)])"

lemma update_last_Nil [simp]: "update_last f [] = []"
  by (simp add: update_last_def)

lemma update_last_snoc [simp]: "update_last f (xs @ [x]) = xs @ [f x]"
  by (simp add: update_last_def)

lemma length_update_last [simp]: "length (update_last f xs) = length xs"
  by (cases xs rule: rev_cases) auto

lemma update_last_eq_Nil [simp]: "update_last f xs = [] \<longleftrightarrow> xs = []"
  by (cases xs rule: rev_cases) auto

lemma map_update_last [simp]:
  "(\<And>x. g (f x) = g x) \<Longrightarrow> map g (update_last f xs) = map g xs"
  by (cases xs rule: rev_cases) auto

definition nth_opt :: "'a list \<Rightarrow> nat \<Rightarrow> 'a option" where
  "nth_opt xs i = (if i < length xs then Some (xs ! i) else None)"

lemma nth_opt_Some_iff: "nth_opt xs i = Some x \<longleftrightarrow> i < length xs \<and> xs ! i = x"
  by (auto simp: nth_opt_def)

lemma nth_opt_None_iff: "nth_opt xs i = None \<longleftrightarrow> length xs \<le> i"
  by (auto simp: nth_opt_def)

subsection \<open>Words\<close>

lemma unat_add_one:
  fixes w :: "'a::len word"
  assumes "unat w + 1 < 2 ^ LENGTH('a)"
  shows "unat (w + 1) = unat w + 1"
  using assms by (simp add: unat_add_lem [THEN iffD1])

lemma unat_add_no_wrap:
  fixes a b :: "'a::len word"
  assumes "unat a + unat b < 2 ^ LENGTH('a)"
  shows "unat (a + b) = unat a + unat b"
  using assms by (simp add: unat_add_lem)

end
