(* ===== verification/Bytes.thy ===== *)
theory Bytes
  imports Prelude
begin

section \<open>Byte strings: comparison, big-endian numbers, hexadecimal and decimal text\<close>

text \<open>
  What the source uses of Go's \<open>bytes\<close>, \<open>encoding/hex\<close>, \<open>strconv\<close>, \<open>slices\<close>, \<open>sort\<close> and
  \<open>math/big\<close>, and the helpers of types.go and types_builder.go that work on bytes and text. A Go
  string is a \<open>string\<close>, a list of 8-bit characters, as Go's strings are byte sequences.
\<close>

subsection \<open>bytes.Compare and big-endian values\<close>

fun bytes_Compare :: "bytes \<Rightarrow> bytes \<Rightarrow> int" where
  "bytes_Compare [] [] = 0"
| "bytes_Compare [] (y # ys) = -1"
| "bytes_Compare (x # xs) [] = 1"
| "bytes_Compare (x # xs) (y # ys) =
     (if x < y then -1 else if y < x then 1 else bytes_Compare xs ys)"

text \<open>\<open>new(big.Int).SetBytes\<close> and \<open>uint256.Int.SetBytes32\<close>: the unsigned big-endian value.\<close>

fun be_val :: "bytes \<Rightarrow> nat" where
  "be_val [] = 0"
| "be_val (b # bs) = unat b * 256 ^ length bs + be_val bs"

text \<open>\<open>big.Int.Bytes\<close> of a non-negative value: the minimal big-endian bytes, none for 0.\<close>

fun be_bytes :: "nat \<Rightarrow> bytes" where
  "be_bytes n = (if n = 0 then [] else be_bytes (n div 256) @ [word_of_nat (n mod 256)])"

declare be_bytes.simps [simp del]

text \<open>\<open>big.Int.FillBytes\<close> into a buffer of \<open>w\<close> bytes; it panics when the value does not fit.\<close>

definition fill_bytes :: "nat \<Rightarrow> nat \<Rightarrow> bytes option" where
  "fill_bytes w n = (let b = be_bytes n in
     if length b \<le> w then Some (replicate (w - length b) 0 @ b) else None)"

lemma be_val_less: "be_val bs < 256 ^ length bs"
proof (induction bs)
  case Nil
  then show ?case by simp
next
  case (Cons b bs)
  have "unat b \<le> 255" using unsigned_less [of b, where ?'a = nat] by simp
  then have "unat b * 256 ^ length bs \<le> 255 * 256 ^ length bs" by (rule mult_le_mono1)
  moreover have "256 ^ length (b # bs) = 255 * 256 ^ length bs + (256 ^ length bs :: nat)" by simp
  ultimately show ?case using Cons.IH by (metis add_le_less_mono be_val.simps(2))
qed

lemma be_val_append: "be_val (xs @ ys) = be_val xs * 256 ^ length ys + be_val ys"
  by (induction xs) (auto simp: algebra_simps power_add)

lemma be_val_replicate0 [simp]: "be_val (replicate n 0 @ bs) = be_val bs"
  by (induction n) auto

lemma be_val_be_bytes: "be_val (be_bytes n) = n"
proof (induction n rule: be_bytes.induct)
  case (1 n)
  show ?case
  proof (cases "n = 0")
    case True
    then show ?thesis by (simp add: be_bytes.simps)
  next
    case False
    with 1 have "be_val (be_bytes (n div 256)) = n div 256" by simp
    moreover have "be_bytes n = be_bytes (n div 256) @ [word_of_nat (n mod 256)]"
      using False by (simp add: be_bytes.simps [of n])
    ultimately show ?thesis
      by (simp add: be_val_append unat_of_nat)
  qed
qed

lemma be_bytes_no_leading_zero: "be_bytes n \<noteq> [] \<Longrightarrow> hd (be_bytes n) \<noteq> 0"
proof (induction n rule: be_bytes.induct)
  case (1 n)
  have n0: "n \<noteq> 0" using "1.prems" be_bytes.simps [of 0] by metis
  have eq: "be_bytes n = be_bytes (n div 256) @ [word_of_nat (n mod 256)]"
    using n0 by (simp add: be_bytes.simps [of n])
  show ?case
  proof (cases "be_bytes (n div 256) = []")
    case True
    then have "n div 256 = 0" by (auto simp: be_bytes.simps [of "n div 256"] split: if_splits)
    then have "n mod 256 = n" "n < 256" by auto
    with n0 have "(word_of_nat (n mod 256) :: byte) \<noteq> 0"
      by (simp add: word_unat_eq_iff unat_of_nat)
    with eq True show ?thesis by simp
  next
    case False
    with 1(1) n0 have "hd (be_bytes (n div 256)) \<noteq> 0" by simp
    with eq False show ?thesis by simp
  qed
qed

lemma be_val_eq_0_iff: "be_val bs = 0 \<longleftrightarrow> (\<forall>b\<in>set bs. b = 0)"
  by (induction bs) (auto simp: unat_eq_0)

text \<open>On byte strings of one length, \<open>bytes.Compare\<close> is the comparison of the numbers.\<close>

lemma bytes_Compare_be_val:
  "length a = length b \<Longrightarrow> bytes_Compare a b = sgn (int (be_val a) - int (be_val b))"
proof (induction a b rule: bytes_Compare.induct)
  case (4 x xs y ys)
  let ?B = "256 ^ length ys :: nat"
  have len: "length xs = length ys" using "4.prems" by simp
  have bx: "be_val xs < ?B" using be_val_less [of xs] len by simp
  have bv: "be_val ys < ?B" by (rule be_val_less)
  consider (lt) "x < y" | (gt) "y < x" | (eq) "x = y" by force
  then show ?case
  proof cases
    case lt
    then have "unat x + 1 \<le> unat y" by (simp add: word_less_nat_alt)
    then have "(unat x + 1) * ?B \<le> unat y * ?B" by (rule mult_le_mono1)
    then have "unat x * ?B + be_val xs < unat y * ?B + be_val ys" using bx by simp
    then have "be_val (x # xs) < be_val (y # ys)" using len by simp
    with lt show ?thesis by (simp add: sgn_if del: be_val.simps)
  next
    case gt
    then have "unat y + 1 \<le> unat x" by (simp add: word_less_nat_alt)
    then have "(unat y + 1) * ?B \<le> unat x * ?B" by (rule mult_le_mono1)
    then have "unat y * ?B + be_val ys < unat x * ?B + be_val xs" using bv by simp
    then have "be_val (y # ys) < be_val (x # xs)" using len by simp
    with gt show ?thesis by (auto simp: sgn_if simp del: be_val.simps)
  next
    case eq
    with 4 show ?thesis by simp
  qed
qed simp_all

lemma bytes_Compare_le_iff:
  "length a = length b \<Longrightarrow> bytes_Compare a b \<le> 0 \<longleftrightarrow> be_val a \<le> be_val b"
  by (simp add: bytes_Compare_be_val sgn_if)

lemma bytes_Compare_gt_iff:
  "length a = length b \<Longrightarrow> bytes_Compare a b > 0 \<longleftrightarrow> be_val b < be_val a"
  by (simp add: bytes_Compare_be_val sgn_if)

lemma bytes_Compare_eq_0_iff: "bytes_Compare a b = 0 \<longleftrightarrow> a = b"
  by (induction a b rule: bytes_Compare.induct) auto

lemma be_val_inj: "length a = length b \<Longrightarrow> be_val a = be_val b \<Longrightarrow> a = b"
  using bytes_Compare_be_val [of a b] bytes_Compare_eq_0_iff [of a b] by simp

text \<open>\<open>bytes.Compare\<close> is also the lexicographic order of the library on byte lists.\<close>

lemma bytes_Compare_le_lex: "bytes_Compare a b \<le> 0 \<longleftrightarrow> a \<le> b"
  by (induction a b rule: bytes_Compare.induct) auto

subsection \<open>slices.SortFunc\<close>

text \<open>
  \<open>slices.SortFunc\<close> sorts with a comparison function and is not stable; this is the insertion
  sort it runs on short slices. The \<open>slices_sort\<close> contract below shows that every sorting
  algorithm gives the same result where the keys are distinct, as they are at each use.
\<close>

fun insert_cmp :: "('a \<Rightarrow> 'a \<Rightarrow> int) \<Rightarrow> 'a \<Rightarrow> 'a list \<Rightarrow> 'a list" where
  "insert_cmp cmp x [] = [x]"
| "insert_cmp cmp x (y # ys) = (if cmp x y \<le> 0 then x # y # ys else y # insert_cmp cmp x ys)"

fun SortFunc :: "('a \<Rightarrow> 'a \<Rightarrow> int) \<Rightarrow> 'a list \<Rightarrow> 'a list" where
  "SortFunc cmp [] = []"
| "SortFunc cmp (x # xs) = insert_cmp cmp x (SortFunc cmp xs)"

text \<open>\<open>cmp.Compare\<close> on unsigned integers.\<close>

definition cmp_Compare :: "'a::len word \<Rightarrow> 'a word \<Rightarrow> int" where
  "cmp_Compare a b = (if a < b then -1 else if b < a then 1 else 0)"

lemma cmp_Compare_le_iff: "cmp_Compare a b \<le> 0 \<longleftrightarrow> a \<le> b"
  by (auto simp: cmp_Compare_def)

lemma SortFunc_sort_key:
  assumes "\<And>a b. cmp a b \<le> 0 \<longleftrightarrow> key a \<le> key b"
  shows "SortFunc cmp xs = sort_key key xs"
proof -
  have "insert_cmp cmp x ys = insort_key key x ys" for x ys
    by (induction ys) (auto simp: assms)
  then show ?thesis by (induction xs) auto
qed

locale slices_sort =
  fixes srt :: "'a list \<Rightarrow> 'a list" and key :: "'a \<Rightarrow> 'k::linorder"
  assumes mset_srt: "mset (srt xs) = mset xs"
    and sorted_srt: "sorted (map key (srt xs))"
begin

lemma set_srt: "set (srt xs) = set xs"
  using mset_srt by (metis set_mset_mset)

lemma length_srt: "length (srt xs) = length xs"
  using mset_srt by (metis size_mset)

lemma distinct_key_srt: "distinct (map key (srt xs)) = distinct (map key xs)"
  by (metis mset_map mset_srt mset_eq_imp_distinct_iff)

text \<open>With distinct keys there is only one sorted arrangement.\<close>

lemma srt_unique:
  assumes "distinct (map key xs)" and "mset ys = mset xs" and "sorted (map key ys)"
  shows "srt xs = ys"
proof -
  have inj: "inj_on key (set xs)" using assms(1) by (simp add: distinct_map)
  have "map key (srt xs) = map key ys"
    using properties_for_sort [of "map key ys" "map key (srt xs)"] assms sorted_srt [of xs]
      mset_srt [of xs] by (metis mset_map properties_for_sort)
  moreover have "set (srt xs) = set xs" "set ys = set xs"
    using set_srt assms(2) by (auto dest: mset_eq_setD)
  ultimately show ?thesis using inj by (metis map_inj_on sup.idem)
qed

lemma srt_perm:
  assumes "distinct (map key xs)" and "mset ys = mset xs"
  shows "srt ys = srt xs"
proof -
  have "distinct (map key ys)" using assms by (metis mset_eq_imp_distinct_iff mset_map)
  then show ?thesis by (rule srt_unique) (auto simp: assms mset_srt sorted_srt)
qed

end

lemma slices_sort_by_key:
  assumes "\<And>a b. cmp a b \<le> 0 \<longleftrightarrow> key a \<le> key b"
  shows "slices_sort (SortFunc cmp) key"
  by unfold_locales (auto simp: SortFunc_sort_key [of cmp key, OF assms])

interpretation bytes_sort: slices_sort "SortFunc bytes_Compare" "\<lambda>b. b"
  by (rule slices_sort_by_key) (rule bytes_Compare_le_lex)

subsection \<open>sort.Search\<close>

text \<open>
  \<open>sort.Search(n, f)\<close>: the binary search of the Go library, on \<open>[i, j)\<close>. The invariant is
  \<open>f(i-1) = false\<close> and \<open>f(j) = true\<close>.
\<close>

function search_loop :: "(nat \<Rightarrow> bool) \<Rightarrow> nat \<Rightarrow> nat \<Rightarrow> nat" where
  "search_loop f i j =
     (if i < j then
        (let h = (i + j) div 2
         in if \<not> f h then search_loop f (h + 1) j else search_loop f i h)
      else i)"
  by pat_completeness auto
termination
  by (relation "measure (\<lambda>(f, i, j). j - i)") auto

declare search_loop.simps [simp del]

definition sort_Search :: "nat \<Rightarrow> (nat \<Rightarrow> bool) \<Rightarrow> nat" where
  "sort_Search n f = search_loop f 0 n"

lemma search_loop_done: "\<not> i < j \<Longrightarrow> search_loop f i j = i"
  by (simp add: search_loop.simps [of f i j])

lemma search_loop_left:
  "i < j \<Longrightarrow> f ((i + j) div 2) \<Longrightarrow> search_loop f i j = search_loop f i ((i + j) div 2)"
  by (simp add: search_loop.simps [of f i j])

lemma search_loop_right:
  "i < j \<Longrightarrow> \<not> f ((i + j) div 2) \<Longrightarrow> search_loop f i j = search_loop f ((i + j) div 2 + 1) j"
  by (simp add: search_loop.simps [of f i j])

lemma search_loop_correct:
  assumes mono: "\<And>a b. a \<le> b \<Longrightarrow> b < n \<Longrightarrow> f a \<Longrightarrow> f b"
  shows "i \<le> j \<Longrightarrow> j \<le> n \<Longrightarrow> (\<And>k. k < i \<Longrightarrow> \<not> f k) \<Longrightarrow> (\<And>k. j \<le> k \<Longrightarrow> k < n \<Longrightarrow> f k)
    \<Longrightarrow> search_loop f i j \<le> n \<and> (\<forall>k < n. f k \<longleftrightarrow> search_loop f i j \<le> k)"
proof (induction "j - i" arbitrary: i j rule: less_induct)
  case less
  show ?case
  proof (cases "i < j")
    case True
    define h where "h = (i + j) div 2"
    have h: "i \<le> h" "h < j" using True by (auto simp: h_def)
    show ?thesis
    proof (cases "f h")
      case fh: True
      have "search_loop f i h \<le> n \<and> (\<forall>k < n. f k \<longleftrightarrow> search_loop f i h \<le> k)"
      proof (rule less.hyps)
        show "f k" if "h \<le> k" "k < n" for k using mono [OF that fh] .
      qed (use h less.prems in auto)
      then show ?thesis using search_loop_left [OF True, of f] fh by (simp add: h_def)
    next
      case fh: False
      have "search_loop f (h + 1) j \<le> n \<and> (\<forall>k < n. f k \<longleftrightarrow> search_loop f (h + 1) j \<le> k)"
      proof (rule less.hyps)
        show "\<not> f k" if "k < h + 1" for k
          using mono [of k h] that fh h less.prems(2) by auto
      qed (use h less.prems in auto)
      then show ?thesis using search_loop_right [OF True, of f] fh by (simp add: h_def)
    qed
  next
    case False
    then show ?thesis
      using less.prems by (auto simp: search_loop_done) (meson leI)
  qed
qed

text \<open>For a monotone predicate the result separates the indices where it fails and holds.\<close>

lemma sort_Search_correct:
  assumes "\<And>a b. a \<le> b \<Longrightarrow> b < n \<Longrightarrow> f a \<Longrightarrow> f b"
  shows "sort_Search n f \<le> n" and "k < n \<Longrightarrow> f k \<longleftrightarrow> sort_Search n f \<le> k"
  using search_loop_correct [of n f 0 n] assms by (auto simp: sort_Search_def)

end
