(* ===== verification/HexDec.thy ===== *)
theory HexDec
  imports Bytes
begin

section \<open>Hexadecimal and decimal text\<close>

text \<open>
  \<open>hex.EncodeToString\<close> and \<open>strconv.AppendUint(_, _, 10)\<close> as the source uses them, and the hex
  parsers of types_builder.go. A character of a Go string is read as its byte value.
\<close>

subsection \<open>hex.EncodeToString\<close>

definition hex_char :: "nat \<Rightarrow> char" where
  "hex_char n = (if n < 10 then char_of (48 + n) else char_of (87 + n))"

definition hex_pair :: "byte \<Rightarrow> string" where
  "hex_pair b = [hex_char (unat b div 16), hex_char (unat b mod 16)]"

definition hex_EncodeToString :: "bytes \<Rightarrow> string" where
  "hex_EncodeToString bs = concat (map hex_pair bs)"

definition char_val :: "char \<Rightarrow> nat" where
  "char_val c = of_char c"

lemma char_val_hex_char:
  "n < 16 \<Longrightarrow> char_val (hex_char n) = (if n < 10 then 48 + n else 87 + n)"
  by (simp add: hex_char_def char_val_def)

lemma length_hex [simp]: "length (hex_EncodeToString bs) = 2 * length bs"
  by (induction bs) (auto simp: hex_EncodeToString_def hex_pair_def)

lemma hex_Cons: "hex_EncodeToString (b # bs) = hex_pair b @ hex_EncodeToString bs"
  by (simp add: hex_EncodeToString_def)

lemma hex_nth:
  "i < length bs \<Longrightarrow> hex_EncodeToString bs ! (i * 2) = hex_char (unat (bs ! i) div 16) \<and>
    hex_EncodeToString bs ! (i * 2 + 1) = hex_char (unat (bs ! i) mod 16)"
proof (induction bs arbitrary: i)
  case Nil
  then show ?case by simp
next
  case (Cons b bs)
  then show ?case by (cases i) (auto simp: hex_Cons hex_pair_def)
qed

subsection \<open>The hex parsers of types_builder.go\<close>

definition hexCharToByte :: "char \<Rightarrow> byte" where
  "hexCharToByte c =
     (let v = char_val c in
      if v \<ge> 48 \<and> v \<le> 57 then word_of_nat (v - 48)
      else if v \<ge> 97 \<and> v \<le> 102 then word_of_nat (v - 97 + 10)
      else if v \<ge> 65 \<and> v \<le> 70 then word_of_nat (v - 65 + 10)
      else 0)"

definition hexToByte :: "char \<Rightarrow> char \<Rightarrow> byte" where
  "hexToByte c1 c2 = or (push_bit 4 (hexCharToByte c1)) (hexCharToByte c2)"

definition strip_0x :: "string \<Rightarrow> string" where
  "strip_0x s = (if length s \<ge> 2 \<and> s ! 0 = CHR ''0'' \<and> s ! 1 = CHR ''x'' then drop 2 s else s)"

definition pad_zeros :: "nat \<Rightarrow> string \<Rightarrow> string" where
  "pad_zeros n s = replicate (n - length s) CHR ''0'' @ s"

definition hashFromHex :: "string \<Rightarrow> bytes" where
  "hashFromHex s = (let s = pad_zeros 64 (strip_0x s)
     in map (\<lambda>i. hexToByte (s ! (i * 2)) (s ! (i * 2 + 1))) [0..<32])"

definition addressFromHex :: "string \<Rightarrow> bytes" where
  "addressFromHex s = (let s = pad_zeros 40 (strip_0x s)
     in map (\<lambda>i. hexToByte (s ! (i * 2)) (s ! (i * 2 + 1))) [0..<20])"

lemma hexCharToByte_hex_char: "n < 16 \<Longrightarrow> hexCharToByte (hex_char n) = word_of_nat n"
  by (auto simp: hexCharToByte_def char_val_hex_char Let_def)

lemma nibbles_join:
  fixes b :: byte
  shows "or (push_bit 4 (word_of_nat (unat b div 16))) (word_of_nat (unat b mod 16)) = b"
proof -
  have hi: "word_of_nat (unat b div 16) = drop_bit 4 b"
    by (simp add: drop_bit_eq_div word_arith_nat_div unat_of_nat)
  have lo: "word_of_nat (unat b mod 16) = take_bit 4 b"
    by (simp add: take_bit_eq_mod word_arith_nat_mod unat_of_nat)
  show ?thesis unfolding hi lo
    by (rule bit_eqI) (auto simp: bit_simps)
qed

lemma hexToByte_pair: "hexToByte (hex_char (unat b div 16)) (hex_char (unat b mod 16)) = b"
proof -
  have "unat b div 16 < 16" using unsigned_less [of b, where ?'a = nat] by simp
  then show ?thesis by (simp add: hexToByte_def hexCharToByte_hex_char nibbles_join)
qed

lemma hex_char_not_x: "n < 16 \<Longrightarrow> hex_char n \<noteq> CHR ''x''"
proof
  assume "n < 16" and "hex_char n = CHR ''x''"
  then have "char_val (hex_char n) = char_val (CHR ''x'')" by simp
  moreover have "char_val (CHR ''x'') = 120" by (simp add: char_val_def)
  ultimately show False using \<open>n < 16\<close> by (simp add: char_val_hex_char split: if_splits)
qed

lemma strip_0x_hex: "strip_0x (hex_EncodeToString bs) = hex_EncodeToString bs"
proof (cases bs)
  case Nil
  then show ?thesis by (simp add: strip_0x_def hex_EncodeToString_def)
next
  case (Cons b bs')
  have "hex_EncodeToString bs ! 1 = hex_char (unat b mod 16)"
    using hex_nth [of 0 bs] Cons by simp
  then have "hex_EncodeToString bs ! 1 \<noteq> CHR ''x''" by (simp add: hex_char_not_x)
  then show ?thesis by (simp add: strip_0x_def)
qed

lemma strip_0x_prefixed: "strip_0x (''0x'' @ s) = s"
  by (simp add: strip_0x_def)

lemma parse_hex_pairs:
  assumes "length bs = n"
  shows "map (\<lambda>i. hexToByte (hex_EncodeToString bs ! (i * 2)) (hex_EncodeToString bs ! (i * 2 + 1)))
    [0..<n] = bs"
proof (rule nth_equalityI)
  show "length (map (\<lambda>i. hexToByte (hex_EncodeToString bs ! (i * 2))
      (hex_EncodeToString bs ! (i * 2 + 1))) [0..<n]) = length bs"
    using assms by simp
next
  fix i
  assume "i < length (map (\<lambda>i. hexToByte (hex_EncodeToString bs ! (i * 2))
      (hex_EncodeToString bs ! (i * 2 + 1))) [0..<n])"
  then have "i < length bs" using assms by simp
  then show "map (\<lambda>i. hexToByte (hex_EncodeToString bs ! (i * 2))
      (hex_EncodeToString bs ! (i * 2 + 1))) [0..<n] ! i = bs ! i"
    using assms hex_nth [of i bs] by (simp add: hexToByte_pair)
qed

lemma pad_zeros_full: "length s \<ge> n \<Longrightarrow> pad_zeros n s = s"
  by (simp add: pad_zeros_def)

lemma hashFromHex_encode: "length h = 32 \<Longrightarrow> hashFromHex (hex_EncodeToString h) = h"
  using parse_hex_pairs [of h 32]
  by (simp only: hashFromHex_def Let_def strip_0x_hex pad_zeros_full length_hex)

lemma addressFromHex_encode: "length a = 20 \<Longrightarrow> addressFromHex (hex_EncodeToString a) = a"
  using parse_hex_pairs [of a 20]
  by (simp only: addressFromHex_def Let_def strip_0x_hex pad_zeros_full length_hex)

lemma hex_inj: "length a = length b \<Longrightarrow> hex_EncodeToString a = hex_EncodeToString b \<Longrightarrow> a = b"
  using parse_hex_pairs [of a "length a"] parse_hex_pairs [of b "length b"] by metis

lemma hex_chars: "c \<in> set (hex_EncodeToString bs) \<Longrightarrow> \<exists>n<16. c = hex_char n"
proof (induction bs)
  case Nil
  then show ?case by (simp add: hex_EncodeToString_def)
next
  case (Cons b bs)
  have "unat b div 16 < 16" using unsigned_less [of b, where ?'a = nat] by simp
  moreover have "unat b mod 16 < 16" by (rule mod_less_divisor) simp
  moreover from Cons.prems consider "c = hex_char (unat b div 16)" | "c = hex_char (unat b mod 16)"
    | "c \<in> set (hex_EncodeToString bs)" by (auto simp: hex_Cons hex_pair_def)
  ultimately show ?case using Cons.IH by cases blast+
qed

subsection \<open>Decimal numbers\<close>

definition dec_char :: "nat \<Rightarrow> char" where
  "dec_char d = char_of (48 + d)"

fun dec_digits :: "nat \<Rightarrow> string" where
  "dec_digits n = (if n < 10 then [dec_char n] else dec_digits (n div 10) @ [dec_char (n mod 10)])"

declare dec_digits.simps [simp del]

text \<open>\<open>strconv.AppendUint(line, v, 10)\<close>\<close>

definition AppendUint :: "string \<Rightarrow> u64 \<Rightarrow> string" where
  "AppendUint line v = line @ dec_digits (unat v)"

text \<open>\<open>strconv.AppendInt(line, v, 10)\<close>\<close>

definition AppendInt :: "string \<Rightarrow> int \<Rightarrow> string" where
  "AppendInt line v = line @ (if v < 0 then CHR ''-'' # dec_digits (nat (- v)) else dec_digits (nat v))"

fun dec_parse_acc :: "nat \<Rightarrow> string \<Rightarrow> nat" where
  "dec_parse_acc acc [] = acc"
| "dec_parse_acc acc (c # cs) = dec_parse_acc (acc * 10 + (char_val c - 48)) cs"

definition dec_parse :: "string \<Rightarrow> nat" where
  "dec_parse s = dec_parse_acc 0 s"

lemma dec_parse_acc_snoc:
  "dec_parse_acc acc (s @ [c]) = dec_parse_acc acc s * 10 + (char_val c - 48)"
  by (induction s arbitrary: acc) auto

lemma char_val_dec_char: "d < 10 \<Longrightarrow> char_val (dec_char d) = 48 + d"
  by (simp add: dec_char_def char_val_def)

lemma dec_parse_digits: "dec_parse (dec_digits n) = n"
proof (induction n rule: dec_digits.induct)
  case (1 n)
  show ?case
  proof (cases "n < 10")
    case True
    then show ?thesis
      by (simp add: dec_digits.simps [of n] dec_parse_def char_val_dec_char)
  next
    case False
    with 1 have "dec_parse (dec_digits (n div 10)) = n div 10" by simp
    with False show ?thesis
      by (simp add: dec_digits.simps [of n] dec_parse_def dec_parse_acc_snoc char_val_dec_char)
  qed
qed

lemma dec_digits_chars: "c \<in> set (dec_digits n) \<Longrightarrow> \<exists>d<10. c = dec_char d"
proof (induction n rule: dec_digits.induct)
  case (1 n)
  show ?case
  proof (cases "n < 10")
    case True
    with "1.prems" show ?thesis by (auto simp: dec_digits.simps [of n])
  next
    case False
    with 1 show ?thesis
      using mod_less_divisor [of 10 n] by (fastforce simp: dec_digits.simps [of n])
  qed
qed

lemma dec_digits_inj: "dec_digits m = dec_digits n \<Longrightarrow> m = n"
  by (metis dec_parse_digits)

end
