(* ===== verification/Types.thy ===== *)
theory Types
  imports HexDec
begin

section \<open>The types at the tracer's boundary (types.go)\<close>

text \<open>
  The structs the chain implementation passes to the hooks, field by field and in the source's
  order. Field names carry the struct's initials because Isabelle's record fields share one name
  space. \<open>*big.Int\<close> and the pointers that may be nil are options; a Go map is an association list
  in the order an iteration would visit it, with distinct keys.
\<close>

subsection \<open>Blocks\<close>

record FlashBlockData =
  fb_Idx :: u64
  fb_IsFinal :: bool

record UncleData =
  ud_Hash :: bytes
  ud_ParentHash :: bytes
  ud_UncleHash :: bytes
  ud_Coinbase :: bytes
  ud_Root :: bytes
  ud_TxHash :: bytes
  ud_ReceiptHash :: bytes
  ud_Bloom :: bytes
  ud_Difficulty :: "int option"
  ud_Number :: u64
  ud_GasLimit :: u64
  ud_GasUsed :: u64
  ud_Time :: u64
  ud_Extra :: bytes
  ud_MixDigest :: bytes
  ud_Nonce :: u64
  ud_BaseFee :: "int option"

record WithdrawalData =
  wd_Index :: u64
  wd_ValidatorIndex :: u64
  wd_Address :: bytes
  wd_Amount :: u64

record BlockData =
  bd_Number :: u64
  bd_Hash :: bytes
  bd_ParentHash :: bytes
  bd_UncleHash :: bytes
  bd_Coinbase :: bytes
  bd_Root :: bytes
  bd_TxHash :: bytes
  bd_ReceiptHash :: bytes
  bd_Bloom :: bytes
  bd_Difficulty :: "int option"
  bd_GasLimit :: u64
  bd_GasUsed :: u64
  bd_Time :: u64
  bd_Extra :: bytes
  bd_MixDigest :: bytes
  bd_Nonce :: u64
  bd_BaseFee :: "int option"
  bd_Uncles :: "UncleData list"
  bd_Size :: u64
  bd_Withdrawals :: "WithdrawalData list"
  bd_IsMerge :: bool
  bd_WithdrawalsRoot :: "bytes option"
  bd_BlobGasUsed :: "u64 option"
  bd_ExcessBlobGas :: "u64 option"
  bd_ParentBeaconRoot :: "bytes option"
  bd_RequestsHash :: "bytes option"
  bd_TxDependency :: "u64 list list option"
  bd_SlotNumber :: "u64 option"
  bd_BlockAccessListHash :: "bytes option"

record FinalizedBlockRef =
  fr_Number :: u64
  fr_Hash :: bytes

subsection \<open>Transactions\<close>

definition TxTypeLegacy :: u8 where "TxTypeLegacy = 0"
definition TxTypeAccessList :: u8 where "TxTypeAccessList = 1"
definition TxTypeDynamicFee :: u8 where "TxTypeDynamicFee = 2"
definition TxTypeBlob :: u8 where "TxTypeBlob = 3"
definition TxTypeSetCode :: u8 where "TxTypeSetCode = 4"

record AccessTuple =
  at_Address :: bytes
  at_StorageKeys :: "bytes list"

type_synonym AccessList = "AccessTuple list"

record SetCodeAuthorization =
  sa_ChainID :: bytes
  sa_Address :: bytes
  sa_Nonce :: u64
  sa_V :: u32
  sa_R :: bytes
  sa_S :: bytes

record TxEvent =
  te_Type :: u8
  te_Hash :: bytes
  te_From :: bytes
  te_To :: "bytes option"
  te_Input :: bytes
  te_Value :: "int option"
  te_Gas :: u64
  te_GasPrice :: "int option"
  te_Nonce :: u64
  te_Index :: u32
  te_V :: bytes
  te_R :: bytes
  te_S :: bytes
  te_MaxFeePerGas :: "int option"
  te_MaxPriorityFeePerGas :: "int option"
  te_AccessList :: AccessList
  te_BlobGasFeeCap :: "int option"
  te_BlobHashes :: "bytes list"
  te_SetCodeAuthorizations :: "SetCodeAuthorization list"

record LogData =
  ld_Address :: bytes
  ld_Topics :: "bytes list"
  ld_Data :: bytes
  ld_BlockIndex :: u32

record ReceiptData =
  rd_TransactionIndex :: u32
  rd_GasUsed :: u64
  rd_Status :: u64
  rd_Logs :: "LogData list"
  rd_LogsBloom :: bytes
  rd_CumulativeGasUsed :: u64
  rd_BlobGasUsed :: u64
  rd_BlobGasPrice :: "int option"
  rd_StateRoot :: bytes

subsection \<open>Call types: the opcode bytes\<close>

definition CallTypeCreate :: byte where "CallTypeCreate = 0xf0"
definition CallTypeCall :: byte where "CallTypeCall = 0xf1"
definition CallTypeCallCode :: byte where "CallTypeCallCode = 0xf2"
definition CallTypeDelegateCall :: byte where "CallTypeDelegateCall = 0xf4"
definition CallTypeCreate2 :: byte where "CallTypeCreate2 = 0xf5"
definition CallTypeStaticCall :: byte where "CallTypeStaticCall = 0xfa"
definition CallTypeSelfDestruct :: byte where "CallTypeSelfDestruct = 0xff"

lemmas CallType_defs = CallTypeCreate_def CallTypeCall_def CallTypeCallCode_def
  CallTypeDelegateCall_def CallTypeCreate2_def CallTypeStaticCall_def CallTypeSelfDestruct_def

text \<open>A call as one value, which no hook takes.\<close>

record CallFrame =
  cf_Type :: byte
  cf_From :: bytes
  cf_To :: bytes
  cf_Input :: bytes
  cf_Gas :: u64
  cf_Value :: "int option"
  cf_CodeAddress :: "bytes option"

subsection \<open>Helper methods of Address and Hash\<close>

definition Address_Bytes :: "bytes \<Rightarrow> bytes" where
  "Address_Bytes a = a"

definition Hash_Bytes :: "bytes \<Rightarrow> bytes" where
  "Hash_Bytes h = h"

definition Address_Hex :: "bytes \<Rightarrow> string" where
  "Address_Hex a = ''0x'' @ hex_EncodeToString a"

definition Address_IsZero :: "bytes \<Rightarrow> bool" where
  "Address_IsZero a \<longleftrightarrow> a = replicate 20 0"

definition Hash_Hex :: "bytes \<Rightarrow> string" where
  "Hash_Hex h = ''0x'' @ hex_EncodeToString h"

definition Hash_IsZero :: "bytes \<Rightarrow> bool" where
  "Hash_IsZero h \<longleftrightarrow> h = replicate 32 0"

definition EmptyAddress :: bytes where "EmptyAddress = replicate 20 0"
definition EmptyHash :: bytes where "EmptyHash = replicate 32 0"

lemma hashFromHex_Hash_Hex: "length h = 32 \<Longrightarrow> hashFromHex (Hash_Hex h) = h"
  using hashFromHex_encode [of h]
  by (simp only: hashFromHex_def Hash_Hex_def strip_0x_prefixed strip_0x_hex)

lemma addressFromHex_Address_Hex: "length a = 20 \<Longrightarrow> addressFromHex (Address_Hex a) = a"
  using addressFromHex_encode [of a]
  by (simp only: addressFromHex_def Address_Hex_def strip_0x_prefixed strip_0x_hex)

subsection \<open>big.Int helpers\<close>

definition BigIntZero :: int where "BigIntZero = 0"
definition BigIntOne :: int where "BigIntOne = 1"

definition bigInt :: "64 word \<Rightarrow> int" where
  "bigInt i = sint i"

fun bigIntEqual :: "int option \<Rightarrow> int option \<Rightarrow> bool" where
  "bigIntEqual None None = True"
| "bigIntEqual None (Some b) = (sgn b = 0)"
| "bigIntEqual (Some a) None = (sgn a = 0)"
| "bigIntEqual (Some a) (Some b) = (a = b)"

text \<open>
  A protobuf BigInt is its \<open>Bytes\<close>; \<open>big.Int.Bytes\<close> gives the absolute value. nil and zero are
  both encoded as nil.
\<close>

definition bigIntToProtobuf :: "int option \<Rightarrow> bytes option" where
  "bigIntToProtobuf i =
     (case i of None \<Rightarrow> None
      | Some v \<Rightarrow> if sgn v = 0 then None else Some (be_bytes (nat \<bar>v\<bar>)))"

text \<open>The value a consumer reads back: nil is zero.\<close>

definition bigIntFromProtobuf :: "bytes option \<Rightarrow> int" where
  "bigIntFromProtobuf b = (case b of None \<Rightarrow> 0 | Some bs \<Rightarrow> int (be_val bs))"

definition bigIntValue :: "int option \<Rightarrow> int" where
  "bigIntValue i = (case i of None \<Rightarrow> 0 | Some v \<Rightarrow> v)"

lemma bigIntEqual_value: "bigIntEqual a b \<longleftrightarrow> bigIntValue a = bigIntValue b"
  by (cases a; cases b) (auto simp: bigIntValue_def sgn_if split: if_splits)

lemma bigInt_decode: "bigIntFromProtobuf (bigIntToProtobuf i) = \<bar>bigIntValue i\<bar>"
  by (cases i)
     (auto simp: bigIntToProtobuf_def bigIntFromProtobuf_def bigIntValue_def be_val_be_bytes
       sgn_if split: if_splits)

subsection \<open>Errors\<close>

text \<open>A Go error: its text and what \<open>errors.Unwrap\<close> returns.\<close>

datatype go_error = GoError (err_text: string) (err_unwrap: "go_error option")

fun errorIsString :: "go_error option \<Rightarrow> string \<Rightarrow> bool" where
  "errorIsString None target = False"
| "errorIsString (Some (GoError msg inner)) target =
     (if msg = target then True else errorIsString inner target)"

text \<open>The texts along the chain of an error.\<close>

fun error_chain :: "go_error option \<Rightarrow> string list" where
  "error_chain None = []"
| "error_chain (Some (GoError msg inner)) = msg # error_chain inner"

lemma errorIsString_chain: "errorIsString e target \<longleftrightarrow> target \<in> set (error_chain e)"
  by (induction e target rule: errorIsString.induct) auto

subsection \<open>Genesis allocation\<close>

record GenesisAccount =
  ga_Code :: bytes
  ga_Storage :: "(bytes \<times> bytes) list"
  ga_Balance :: "int option"
  ga_Nonce :: u64

type_synonym GenesisAlloc = "(bytes \<times> GenesisAccount) list"

text \<open>
  A Go map read by a key that is present; the zero value otherwise is never read here, because
  the keys come from the map itself.
\<close>

definition map_get :: "('k \<times> 'v) list \<Rightarrow> 'v \<Rightarrow> 'k \<Rightarrow> 'v" where
  "map_get m d k = (case map_of m k of None \<Rightarrow> d | Some v \<Rightarrow> v)"

lemma map_get_perm:
  assumes "distinct (map fst m)" and "mset m' = mset m"
  shows "map_get m' d k = map_get m d k"
proof -
  have "distinct (map fst m')" using assms by (metis mset_eq_imp_distinct_iff mset_map)
  moreover have "set m' = set m" using assms(2) by (rule mset_eq_setD)
  ultimately have "map_of m' = map_of m" using assms(1) by (metis map_of_inject_set)
  then show ?thesis by (simp add: map_get_def)
qed

end
