(* ===== verification/Proto.thy ===== *)
theory Proto
  imports Types
begin

section \<open>The protobuf messages the tracer builds\<close>

text \<open>
  The messages of the package \<open>pbeth\<close> as records of the fields the source reads or writes. The
  package itself is not part of the repository: only the construction and the mutation of
  these values, which the tracer does, is modelled. A nil message is \<open>None\<close>, a BigInt is its
  bytes, and the enum constants are those the source names.
\<close>

datatype BalanceChange_Reason = REASON_UNKNOWN | REASON_GENESIS_BALANCE | REASON_OTHER nat

datatype CallType = UNSPECIFIED | CALL | CALLCODE | DELEGATE | STATIC | CREATE

datatype TransactionTraceStatus = UNKNOWN | SUCCEEDED | FAILED | REVERTED

text \<open>The source only moves account creations, it never looks into one.\<close>

type_synonym AccountCreation = bytes

record BalanceChange =
  bc_Ordinal :: u64
  bc_Address :: bytes
  bc_OldValue :: "bytes option"
  bc_NewValue :: "bytes option"
  bc_Reason :: BalanceChange_Reason

record NonceChange =
  nc_Address :: bytes
  nc_OldValue :: u64
  nc_NewValue :: u64
  nc_Ordinal :: u64

record CodeChange =
  cc_Address :: bytes
  cc_OldHash :: bytes
  cc_OldCode :: bytes
  cc_NewHash :: bytes
  cc_NewCode :: bytes
  cc_Ordinal :: u64

record StorageChange =
  sc_Address :: bytes
  sc_Key :: bytes
  sc_OldValue :: bytes
  sc_NewValue :: bytes
  sc_Ordinal :: u64

record Log =
  log_Address :: bytes
  log_Topics :: "bytes list"
  log_Data :: bytes
  log_Index :: u32
  log_BlockIndex :: u32
  log_Ordinal :: u64

record Call =
  call_Index :: u32
  call_ParentIndex :: u32
  call_Depth :: u32
  call_CallType :: CallType
  call_Caller :: bytes
  call_Address :: bytes
  call_AddressDelegatesTo :: "bytes option"
  call_Value :: "bytes option"
  call_GasLimit :: u64
  call_GasConsumed :: u64
  call_ReturnData :: bytes
  call_Input :: bytes
  call_ExecutedCode :: bool
  call_Suicide :: bool
  call_KeccakPreimages :: "string \<rightharpoonup> string"
  call_StorageChanges :: "StorageChange list"
  call_BalanceChanges :: "BalanceChange list"
  call_NonceChanges :: "NonceChange list"
  call_Logs :: "Log list"
  call_CodeChanges :: "CodeChange list"
  call_AccountCreations :: "AccountCreation list"
  call_StatusFailed :: bool
  call_StatusReverted :: bool
  call_FailureReason :: string
  call_StateReverted :: bool
  call_BeginOrdinal :: u64
  call_EndOrdinal :: u64

text \<open>\<open>&pbeth.Call{}\<close>\<close>

definition empty_Call :: Call where
  "empty_Call = \<lparr>call_Index = 0, call_ParentIndex = 0, call_Depth = 0, call_CallType = UNSPECIFIED,
     call_Caller = [], call_Address = [], call_AddressDelegatesTo = None, call_Value = None,
     call_GasLimit = 0, call_GasConsumed = 0, call_ReturnData = [], call_Input = [],
     call_ExecutedCode = False, call_Suicide = False, call_KeccakPreimages = Map.empty,
     call_StorageChanges = [], call_BalanceChanges = [], call_NonceChanges = [], call_Logs = [],
     call_CodeChanges = [], call_AccountCreations = [], call_StatusFailed = False,
     call_StatusReverted = False, call_FailureReason = [], call_StateReverted = False,
     call_BeginOrdinal = 0, call_EndOrdinal = 0\<rparr>"

record TransactionReceipt =
  rcp_CumulativeGasUsed :: u64
  rcp_LogsBloom :: bytes
  rcp_StateRoot :: bytes
  rcp_Logs :: "Log list"
  rcp_BlobGasUsed :: "u64 option"
  rcp_BlobGasPrice :: "bytes option"

record PbAccessTuple =
  pa_Address :: bytes
  pa_StorageKeys :: "bytes list"

record PbSetCodeAuthorization =
  ps_ChainId :: bytes
  ps_Address :: bytes
  ps_Nonce :: u64
  ps_V :: u32
  ps_R :: bytes
  ps_S :: bytes
  ps_Authority :: bytes
  ps_Discarded :: bool

record TransactionTrace =
  trx_BeginOrdinal :: u64
  trx_EndOrdinal :: u64
  trx_Index :: u32
  trx_Hash :: bytes
  trx_From :: bytes
  trx_To :: bytes
  trx_Nonce :: u64
  trx_GasLimit :: u64
  trx_GasUsed :: u64
  trx_GasPrice :: "bytes option"
  trx_Value :: "bytes option"
  trx_Input :: bytes
  trx_V :: bytes
  trx_R :: bytes
  trx_S :: bytes
  trx_Type :: u8
  trx_MaxFeePerGas :: "bytes option"
  trx_MaxPriorityFeePerGas :: "bytes option"
  trx_AccessList :: "PbAccessTuple list"
  trx_BlobGasFeeCap :: "bytes option"
  trx_BlobHashes :: "bytes list"
  trx_BlobGas :: "u64 option"
  trx_SetCodeAuthorizations :: "PbSetCodeAuthorization list"
  trx_Status :: TransactionTraceStatus
  trx_ReturnData :: bytes
  trx_Receipt :: "TransactionReceipt option"
  trx_Calls :: "Call list"

text \<open>\<open>&pbeth.TransactionTrace{}\<close>\<close>

definition empty_Trace :: TransactionTrace where
  "empty_Trace = \<lparr>trx_BeginOrdinal = 0, trx_EndOrdinal = 0, trx_Index = 0, trx_Hash = [],
     trx_From = [], trx_To = [], trx_Nonce = 0, trx_GasLimit = 0, trx_GasUsed = 0,
     trx_GasPrice = None, trx_Value = None, trx_Input = [], trx_V = [], trx_R = [], trx_S = [],
     trx_Type = 0, trx_MaxFeePerGas = None, trx_MaxPriorityFeePerGas = None, trx_AccessList = [],
     trx_BlobGasFeeCap = None, trx_BlobHashes = [], trx_BlobGas = None,
     trx_SetCodeAuthorizations = [], trx_Status = UNKNOWN, trx_ReturnData = [],
     trx_Receipt = None, trx_Calls = []\<rparr>"

record BlockHeader =
  hd_ParentHash :: bytes
  hd_UncleHash :: bytes
  hd_Coinbase :: bytes
  hd_StateRoot :: bytes
  hd_TransactionsRoot :: bytes
  hd_ReceiptRoot :: bytes
  hd_LogsBloom :: bytes
  hd_Difficulty :: "bytes option"
  hd_TotalDifficulty :: "bytes option"
  hd_Number :: u64
  hd_GasLimit :: u64
  hd_GasUsed :: u64
  hd_Timestamp :: int
  hd_ExtraData :: bytes
  hd_MixHash :: bytes
  hd_Nonce :: u64
  hd_Hash :: bytes
  hd_BaseFeePerGas :: "bytes option"
  hd_WithdrawalsRoot :: bytes
  hd_BlobGasUsed :: "u64 option"
  hd_ExcessBlobGas :: "u64 option"
  hd_ParentBeaconRoot :: bytes
  hd_RequestsHash :: bytes
  hd_TxDependency :: "u64 list list option"
  hd_SlotNumber :: "u64 option"
  hd_BlockAccessListHash :: bytes

record Withdrawal =
  w_Index :: u64
  w_ValidatorIndex :: u64
  w_Address :: bytes
  w_Amount :: u64

record Block =
  blk_Hash :: bytes
  blk_Number :: u64
  blk_Size :: u64
  blk_Header :: BlockHeader
  blk_Uncles :: "BlockHeader list"
  blk_TransactionTraces :: "TransactionTrace list"
  blk_BalanceChanges :: "BalanceChange list"
  blk_DetailLevel :: nat
  blk_CodeChanges :: "CodeChange list"
  blk_SystemCalls :: "Call list"
  blk_Withdrawals :: "Withdrawal list"
  blk_Ver :: nat

subsection \<open>The state changes of a call\<close>

text \<open>Appending one change to a call: \<open>call.XChanges = append(call.XChanges, change)\<close>.\<close>

definition call_add_balance :: "BalanceChange \<Rightarrow> Call \<Rightarrow> Call" where
  "call_add_balance c call = call\<lparr>call_BalanceChanges := call_BalanceChanges call @ [c]\<rparr>"

definition call_add_nonce :: "NonceChange \<Rightarrow> Call \<Rightarrow> Call" where
  "call_add_nonce c call = call\<lparr>call_NonceChanges := call_NonceChanges call @ [c]\<rparr>"

definition call_add_code :: "CodeChange \<Rightarrow> Call \<Rightarrow> Call" where
  "call_add_code c call = call\<lparr>call_CodeChanges := call_CodeChanges call @ [c]\<rparr>"

definition call_add_storage :: "StorageChange \<Rightarrow> Call \<Rightarrow> Call" where
  "call_add_storage c call = call\<lparr>call_StorageChanges := call_StorageChanges call @ [c]\<rparr>"

definition call_add_log :: "Log \<Rightarrow> Call \<Rightarrow> Call" where
  "call_add_log l call = call\<lparr>call_Logs := call_Logs call @ [l]\<rparr>"

lemmas call_add_defs = call_add_balance_def call_add_nonce_def call_add_code_def
  call_add_storage_def call_add_log_def

end
