(* ===== verification/Ordinals.thy ===== *)
theory Ordinals
  imports Prelude
begin

section \<open>Ordinals (ordinal.go)\<close>

text \<open>
  The counter that orders the events of a block. It is a \<open>uint64\<close>, so the increment wraps at
  \<open>2 ^ 64\<close>; the laws of the interface say what a ticket counter gives as long as it does not.
\<close>

record Ordinal =
  ord_value :: u64

definition ordinal_Next :: "Ordinal \<Rightarrow> u64 \<times> Ordinal" where
  "ordinal_Next o1 = (let v = ord_value o1 + 1 in (v, o1\<lparr>ord_value := v\<rparr>))"

definition ordinal_Peek :: "Ordinal \<Rightarrow> u64" where
  "ordinal_Peek o1 = ord_value o1"

definition ordinal_Set :: "u64 \<Rightarrow> Ordinal \<Rightarrow> Ordinal" where
  "ordinal_Set v o1 = o1\<lparr>ord_value := v\<rparr>"

definition ordinal_Reset :: "Ordinal \<Rightarrow> Ordinal" where
  "ordinal_Reset o1 = o1\<lparr>ord_value := 0\<rparr>"

definition ordinal_Restore :: "u64 \<Rightarrow> Ordinal \<Rightarrow> Ordinal" where
  "ordinal_Restore v o1 = o1\<lparr>ord_value := v\<rparr>"

text \<open>\<open>&Ordinal{}\<close>\<close>

definition new_Ordinal :: Ordinal where
  "new_Ordinal = \<lparr>ord_value = 0\<rparr>"

lemmas ordinal_defs = ordinal_Next_def ordinal_Peek_def ordinal_Set_def ordinal_Reset_def
  ordinal_Restore_def new_Ordinal_def Let_def

lemma fst_ordinal_Next [simp]: "fst (ordinal_Next c) = ord_value c + 1"
  by (simp add: ordinal_defs)

lemma ord_value_Next [simp]: "ord_value (snd (ordinal_Next c)) = ord_value c + 1"
  by (simp add: ordinal_defs)

lemma ord_value_ops [simp]:
  "ord_value (ordinal_Set v c) = v"
  "ord_value (ordinal_Restore v c) = v"
  "ord_value (ordinal_Reset c) = 0"
  "ordinal_Peek c = ord_value c"
  "ord_value new_Ordinal = 0"
  by (simp_all add: ordinal_defs)

subsection \<open>The interface: a ticket counter\<close>

text \<open>
  What the tracer relies on: a ticket is one more than the counter, which then stands at the
  ticket, as long as the counter stays below its capacity.
\<close>

locale ticket_counter =
  fixes take_ticket :: "'s \<Rightarrow> 'v \<times> 's" and reading :: "'s \<Rightarrow> nat" and ticket_val :: "'v \<Rightarrow> nat"
    and capacity :: nat
  assumes ticket_law: "reading s + 1 < capacity \<Longrightarrow> ticket_val (fst (take_ticket s)) = reading s + 1"
    and reading_law: "reading s + 1 < capacity \<Longrightarrow> reading (snd (take_ticket s)) = reading s + 1"
begin

primrec take_many :: "nat \<Rightarrow> 's \<Rightarrow> nat list \<times> 's" where
  "take_many 0 s = ([], s)"
| "take_many (Suc n) s =
     (let (v, s1) = take_ticket s; (vs, s2) = take_many n s1 in (ticket_val v # vs, s2))"

lemma take_many_tickets:
  "reading s + n < capacity \<Longrightarrow>
     fst (take_many n s) = [reading s + 1..<reading s + n + 1] \<and>
     reading (snd (take_many n s)) = reading s + n"
proof (induction n arbitrary: s)
  case 0
  then show ?case by simp
next
  case (Suc n)
  have r: "reading (snd (take_ticket s)) = reading s + 1"
    and v: "ticket_val (fst (take_ticket s)) = reading s + 1"
    using Suc.prems ticket_law [of s] reading_law [of s] by auto
  from Suc.IH [of "snd (take_ticket s)"] r Suc.prems
  have "fst (take_many n (snd (take_ticket s))) = [reading s + 2..<reading s + n + 2]"
    and "reading (snd (take_many n (snd (take_ticket s)))) = reading s + Suc n"
    by simp_all
  moreover have "[reading s + 1..<reading s + Suc n + 1]
      = (reading s + 1) # [reading s + 2..<reading s + n + 2]"
    by (subst upt_conv_Cons) auto
  ultimately show ?case using v by (simp add: case_prod_beta Let_def)
qed

text \<open>Tickets are strictly increasing, hence distinct, and above the reading they start from.\<close>

lemma take_many_increasing:
  assumes "reading s + n < capacity"
  shows "sorted_wrt (<) (fst (take_many n s))"
    and "\<forall>v \<in> set (fst (take_many n s)). reading s < v \<and> v \<le> reading s + n"
  using take_many_tickets [OF assms] sorted_wrt_upt [of "reading s + 1" "reading s + n + 1"]
  by (simp_all del: upt_Suc)

end

interpretation ordinal_tickets:
  ticket_counter ordinal_Next "\<lambda>c. unat (ord_value c)" unat "2 ^ 64"
  by unfold_locales (simp_all add: unat_add_one)

end
