(* ===== verification/CallStacks.thy ===== *)
theory CallStacks
  imports Proto Ordinals
begin

section \<open>The call stack (callstack.go)\<close>

text \<open>
  \<open>CallStack\<close> keeps the active calls, bottom first as the Go slice does, with a call counter and a
  depth counter. The slice holds pointers: the tracer mutates the call at the top through the
  pointer \<open>Peek\<close> returns. A call is never on the stack and elsewhere at once, so the model stores
  the calls themselves and \<open>cs_update_top\<close> is the write through that pointer.
\<close>

record CallStack =
  cs_stack :: "Call list"
  cs_index :: u32
  cs_depth :: int

definition NewCallStack :: CallStack where
  "NewCallStack = \<lparr>cs_stack = [], cs_index = 0, cs_depth = 0\<rparr>"

definition cs_Peek :: "CallStack \<Rightarrow> Call option" where
  "cs_Peek cs = (if length (cs_stack cs) = 0 then None else Some (last (cs_stack cs)))"

definition cs_Push :: "Call \<Rightarrow> CallStack \<Rightarrow> CallStack" where
  "cs_Push call cs =
     (let index = cs_index cs + 1;
          call = call\<lparr>call_Index := index\<rparr>;
          call = call\<lparr>call_Depth := of_int (cs_depth cs)\<rparr>;
          depth = cs_depth cs + 1;
          call = (case cs_Peek cs of
                    Some parent \<Rightarrow> call\<lparr>call_ParentIndex := call_Index parent\<rparr>
                  | None \<Rightarrow> call)
      in cs\<lparr>cs_stack := cs_stack cs @ [call], cs_index := index, cs_depth := depth\<rparr>)"

definition cs_Pop :: "CallStack \<Rightarrow> Call option \<times> CallStack" where
  "cs_Pop cs =
     (if length (cs_stack cs) = 0 then (None, cs)
      else (Some (last (cs_stack cs)),
            cs\<lparr>cs_stack := butlast (cs_stack cs), cs_depth := cs_depth cs - 1\<rparr>))"

definition cs_HasActiveCall :: "CallStack \<Rightarrow> bool" where
  "cs_HasActiveCall cs \<longleftrightarrow> length (cs_stack cs) > 0"

definition cs_Depth :: "CallStack \<Rightarrow> nat" where
  "cs_Depth cs = length (cs_stack cs)"

definition cs_Reset :: "CallStack \<Rightarrow> CallStack" where
  "cs_Reset cs = cs\<lparr>cs_stack := [], cs_index := 0, cs_depth := 0\<rparr>"

definition cs_Root :: "CallStack \<Rightarrow> Call option" where
  "cs_Root cs = (if length (cs_stack cs) = 0 then None else Some (hd (cs_stack cs)))"

definition cs_Parent :: "CallStack \<Rightarrow> Call option" where
  "cs_Parent cs = (if length (cs_stack cs) < 2 then None
                   else Some (cs_stack cs ! (length (cs_stack cs) - 2)))"

definition cs_ParentIndex :: "CallStack \<Rightarrow> u32" where
  "cs_ParentIndex cs = (case cs_Parent cs of None \<Rightarrow> 0 | Some parent \<Rightarrow> call_Index parent)"

text \<open>A write to the call \<open>Peek\<close> returns.\<close>

definition cs_update_top :: "(Call \<Rightarrow> Call) \<Rightarrow> CallStack \<Rightarrow> CallStack" where
  "cs_update_top f cs = cs\<lparr>cs_stack := update_last f (cs_stack cs)\<rparr>"

lemma cs_Reset_eq_New [simp]: "cs_Reset cs = NewCallStack"
  by (simp add: cs_Reset_def NewCallStack_def)

lemma NewCallStack_fields [simp]:
  "cs_stack NewCallStack = []" "cs_index NewCallStack = 0" "cs_depth NewCallStack = 0"
  by (simp_all add: NewCallStack_def)

lemma cs_Peek_None_iff [simp]: "cs_Peek cs = None \<longleftrightarrow> cs_stack cs = []"
  by (simp add: cs_Peek_def)

lemma cs_Peek_Some_iff: "cs_Peek cs = Some c \<longleftrightarrow> cs_stack cs \<noteq> [] \<and> last (cs_stack cs) = c"
  by (auto simp: cs_Peek_def)

lemma cs_HasActiveCall_iff [simp]: "cs_HasActiveCall cs \<longleftrightarrow> cs_stack cs \<noteq> []"
  by (simp add: cs_HasActiveCall_def)

lemma cs_update_top_fields [simp]:
  "cs_stack (cs_update_top f cs) = update_last f (cs_stack cs)"
  "cs_index (cs_update_top f cs) = cs_index cs"
  "cs_depth (cs_update_top f cs) = cs_depth cs"
  by (simp_all add: cs_update_top_def)

text \<open>The call as \<open>Push\<close> stores it.\<close>

definition cs_stamp :: "CallStack \<Rightarrow> Call \<Rightarrow> Call" where
  "cs_stamp cs call = call\<lparr>call_Index := cs_index cs + 1, call_Depth := of_int (cs_depth cs),
     call_ParentIndex := (case cs_Peek cs of Some p \<Rightarrow> call_Index p | None \<Rightarrow> call_ParentIndex call)\<rparr>"

lemma cs_Push_fields [simp]:
  "cs_stack (cs_Push call cs) = cs_stack cs @ [cs_stamp cs call]"
  "cs_index (cs_Push call cs) = cs_index cs + 1"
  "cs_depth (cs_Push call cs) = cs_depth cs + 1"
  by (auto simp: cs_Push_def cs_stamp_def cs_Peek_def Let_def)

lemma cs_Pop_snd_fields [simp]:
  "cs_stack (snd (cs_Pop cs)) = butlast (cs_stack cs)"
  "cs_index (snd (cs_Pop cs)) = cs_index cs"
  by (simp_all add: cs_Pop_def)

lemma cs_Pop_fst: "fst (cs_Pop cs) = cs_Peek cs"
  by (simp add: cs_Pop_def cs_Peek_def)

lemma cs_stamp_fields [simp]:
  "call_Index (cs_stamp cs c) = cs_index cs + 1"
  "call_Depth (cs_stamp cs c) = of_int (cs_depth cs)"
  "call_BeginOrdinal (cs_stamp cs c) = call_BeginOrdinal c"
  "call_EndOrdinal (cs_stamp cs c) = call_EndOrdinal c"
  "call_StatusFailed (cs_stamp cs c) = call_StatusFailed c"
  "call_BalanceChanges (cs_stamp cs c) = call_BalanceChanges c"
  "call_NonceChanges (cs_stamp cs c) = call_NonceChanges c"
  "call_CodeChanges (cs_stamp cs c) = call_CodeChanges c"
  "call_StorageChanges (cs_stamp cs c) = call_StorageChanges c"
  "call_Logs (cs_stamp cs c) = call_Logs c"
  "call_AccountCreations (cs_stamp cs c) = call_AccountCreations c"
  by (simp_all add: cs_stamp_def)

subsection \<open>The interface: a stack that stamps what it stores\<close>

locale stamping_stack =
  fixes empty :: 's and push :: "'c \<Rightarrow> 's \<Rightarrow> 's" and pop :: "'s \<Rightarrow> 'c option \<times> 's"
    and peek :: "'s \<Rightarrow> 'c option" and stamp :: "'s \<Rightarrow> 'c \<Rightarrow> 'c" and tops :: "'s \<Rightarrow> 'c list"
  assumes tops_empty: "tops empty = []"
    and tops_push: "tops (push c s) = stamp s c # tops s"
    and pop_value: "fst (pop s) = peek s"
    and tops_pop: "tops (snd (pop s)) = tl (tops s)"
    and peek_value: "peek s = (case tops s of [] \<Rightarrow> None | c # _ \<Rightarrow> Some c)"
begin

lemma peek_push: "peek (push c s) = Some (stamp s c)"
  by (simp add: peek_value tops_push)

lemma pop_push: "fst (pop (push c s)) = Some (stamp s c) \<and> tops (snd (pop (push c s))) = tops s"
  by (simp add: pop_value peek_push tops_pop tops_push)

lemma pop_empty: "tops s = [] \<Longrightarrow> fst (pop s) = None \<and> tops (snd (pop s)) = []"
  by (simp add: pop_value peek_value tops_pop)

text \<open>Operations as data: a bracketed sequence leaves the stack as it found it.\<close>

fun apply_op :: "'c option \<Rightarrow> 's \<Rightarrow> 's" where
  "apply_op (Some c) s = push c s"
| "apply_op None s = snd (pop s)"

inductive bracketed :: "'c option list \<Rightarrow> bool" where
  none: "bracketed []"
| call: "bracketed xs \<Longrightarrow> bracketed ys \<Longrightarrow> bracketed (Some c # xs @ None # ys)"

lemma bracketed_tops: "bracketed ops \<Longrightarrow> tops (fold apply_op ops s) = tops s"
proof (induction arbitrary: s rule: bracketed.induct)
  case none
  then show ?case by simp
next
  case (call xs ys c)
  have "tops (snd (pop (fold apply_op xs (push c s)))) = tops s"
    using call.IH(1) [of "push c s"] by (simp add: tops_pop tops_push)
  with call.IH(2) show ?case by simp
qed

end

interpretation callstack: stamping_stack NewCallStack cs_Push cs_Pop cs_Peek cs_stamp
  "\<lambda>cs. rev (cs_stack cs)"
proof unfold_locales
  fix cs :: CallStack
  show "rev (cs_stack (snd (cs_Pop cs))) = tl (rev (cs_stack cs))"
    by (cases "cs_stack cs" rule: rev_cases) simp_all
  show "cs_Peek cs = (case rev (cs_stack cs) of [] \<Rightarrow> None | c # _ \<Rightarrow> Some c)"
    by (cases "cs_stack cs" rule: rev_cases) (simp_all add: cs_Peek_def)
qed (simp_all add: cs_Pop_fst)

subsection \<open>Well-formed stacks\<close>

text \<open>
  Indexes grow up the stack and never pass the counter, each call names the one below as its
  parent (0 at the bottom), and the recorded depth is the position.
\<close>

fun parent_chain :: "u32 \<Rightarrow> Call list \<Rightarrow> bool" where
  "parent_chain p [] = True"
| "parent_chain p (c # cs) = (call_ParentIndex c = p \<and> parent_chain (call_Index c) cs)"

definition cs_wf :: "CallStack \<Rightarrow> bool" where
  "cs_wf cs \<longleftrightarrow>
     cs_depth cs = int (length (cs_stack cs))
     \<and> sorted_wrt (<) (map (\<lambda>c. unat (call_Index c)) (cs_stack cs))
     \<and> (\<forall>c \<in> set (cs_stack cs). 0 < unat (call_Index c) \<and> unat (call_Index c) \<le> unat (cs_index cs))
     \<and> parent_chain 0 (cs_stack cs)
     \<and> map (\<lambda>c. unat (call_Depth c)) (cs_stack cs) = [0..<length (cs_stack cs)]"

lemma parent_chain_snoc:
  "parent_chain p (xs @ [c]) \<longleftrightarrow>
     parent_chain p xs \<and> call_ParentIndex c = (if xs = [] then p else call_Index (last xs))"
  by (induction xs arbitrary: p) auto

lemma cs_wf_New [simp]: "cs_wf NewCallStack"
  by (simp add: cs_wf_def)

lemma cs_wf_length: "cs_wf cs \<Longrightarrow> length (cs_stack cs) \<le> unat (cs_index cs)"
proof -
  assume wf: "cs_wf cs"
  let ?is = "map (\<lambda>c. unat (call_Index c)) (cs_stack cs)"
  have "distinct ?is" using wf by (simp add: cs_wf_def strict_sorted_iff)
  then have "length (cs_stack cs) = card (set ?is)"
    by (simp only: distinct_card length_map)
  also have "\<dots> \<le> card {1..unat (cs_index cs)}"
    using wf by (intro card_mono) (auto simp: cs_wf_def Suc_le_eq)
  finally show ?thesis by simp
qed

lemma cs_wf_Push:
  assumes "cs_wf cs" and "unat (cs_index cs) + 1 < 2 ^ 32" and "call_ParentIndex call = 0"
  shows "cs_wf (cs_Push call cs)"
proof -
  have idx: "unat (cs_index cs + 1) = unat (cs_index cs) + 1"
    using assms(2) by (simp add: unat_add_one)
  have len: "length (cs_stack cs) < 2 ^ 32"
    using cs_wf_length [OF assms(1)] assms(2) by simp
  have d: "unat (call_Depth (cs_stamp cs call)) = length (cs_stack cs)"
    using assms(1) len by (simp add: cs_wf_def unat_of_nat)
  have p: "call_ParentIndex (cs_stamp cs call)
      = (if cs_stack cs = [] then 0 else call_Index (last (cs_stack cs)))"
    using assms(3) by (simp add: cs_stamp_def cs_Peek_def)
  show ?thesis
    using assms(1) idx d p
    by (auto simp: cs_wf_def parent_chain_snoc sorted_wrt_append less_Suc_eq_le)
qed

lemma cs_wf_Pop: "cs_wf cs \<Longrightarrow> cs_wf (snd (cs_Pop cs))"
proof (cases "cs_stack cs" rule: rev_cases)
  case Nil
  then show "cs_wf cs \<Longrightarrow> ?thesis" by (simp add: cs_Pop_def)
next
  case (snoc xs c)
  then show "cs_wf cs \<Longrightarrow> ?thesis"
    by (simp add: cs_wf_def cs_Pop_def sorted_wrt_append parent_chain_snoc)
qed

lemma cs_wf_update_top:
  assumes "cs_wf cs" and "\<And>c. call_Index (f c) = call_Index c"
    and "\<And>c. call_ParentIndex (f c) = call_ParentIndex c" and "\<And>c. call_Depth (f c) = call_Depth c"
  shows "cs_wf (cs_update_top f cs)"
  using assms
  by (cases "cs_stack cs" rule: rev_cases) (auto simp: cs_wf_def parent_chain_snoc)

text \<open>On a well-formed stack \<open>ParentIndex\<close> is the parent recorded in the current call.\<close>

lemma cs_ParentIndex_top:
  assumes "cs_wf cs" and "cs_Peek cs = Some c"
  shows "cs_ParentIndex cs = call_ParentIndex c"
proof (cases "cs_stack cs" rule: rev_cases)
  case Nil
  with assms show ?thesis by (simp add: cs_Peek_def)
next
  case (snoc xs y)
  then show ?thesis
  proof (cases xs rule: rev_cases)
    case Nil
    with snoc assms show ?thesis
      by (simp add: cs_wf_def cs_ParentIndex_def cs_Parent_def cs_Peek_def)
  next
    case (snoc zs z)
    with \<open>cs_stack cs = xs @ [y]\<close> assms parent_chain_snoc [of 0 "zs @ [z]" y] show ?thesis
      by (simp add: cs_wf_def cs_ParentIndex_def cs_Parent_def cs_Peek_def nth_append)
  qed
qed

end
