(* ===== verification/Deferred.thy ===== *)
theory Deferred
  imports Proto
begin

section \<open>Deferred call state (deferred_call_state.go)\<close>

text \<open>
  State changes that happen while no call is active. They wait here until the root call is entered
  (\<open>''enter''\<close>: they came before it and are prepended) or until the transaction ends (\<open>''root''\<close>: they
  came after it and are appended).
\<close>

record DeferredCallState =
  df_accountCreations :: "AccountCreation list"
  df_balanceChanges :: "BalanceChange list"
  df_nonceChanges :: "NonceChange list"
  df_codeChanges :: "CodeChange list"
  df_storageChanges :: "StorageChange list"
  df_logs :: "Log list"

definition NewDeferredCallState :: DeferredCallState where
  "NewDeferredCallState = \<lparr>df_accountCreations = [], df_balanceChanges = [], df_nonceChanges = [],
     df_codeChanges = [], df_storageChanges = [], df_logs = []\<rparr>"

definition df_IsEmpty :: "DeferredCallState \<Rightarrow> bool" where
  "df_IsEmpty d \<longleftrightarrow> length (df_accountCreations d) = 0 \<and> length (df_balanceChanges d) = 0
     \<and> length (df_nonceChanges d) = 0 \<and> length (df_codeChanges d) = 0
     \<and> length (df_storageChanges d) = 0 \<and> length (df_logs d) = 0"

definition df_HasCallOnlyChanges :: "DeferredCallState \<Rightarrow> bool" where
  "df_HasCallOnlyChanges d \<longleftrightarrow> length (df_logs d) > 0 \<or> length (df_storageChanges d) > 0"

definition df_Reset :: "DeferredCallState \<Rightarrow> DeferredCallState" where
  "df_Reset d = d\<lparr>df_accountCreations := [], df_balanceChanges := [], df_nonceChanges := [],
     df_codeChanges := [], df_storageChanges := [], df_logs := []\<rparr>"

definition df_AddAccountCreation :: "AccountCreation \<Rightarrow> DeferredCallState \<Rightarrow> DeferredCallState" where
  "df_AddAccountCreation c d = d\<lparr>df_accountCreations := df_accountCreations d @ [c]\<rparr>"

definition df_AddBalanceChange :: "BalanceChange \<Rightarrow> DeferredCallState \<Rightarrow> DeferredCallState" where
  "df_AddBalanceChange c d = d\<lparr>df_balanceChanges := df_balanceChanges d @ [c]\<rparr>"

definition df_AddNonceChange :: "NonceChange \<Rightarrow> DeferredCallState \<Rightarrow> DeferredCallState" where
  "df_AddNonceChange c d = d\<lparr>df_nonceChanges := df_nonceChanges d @ [c]\<rparr>"

definition df_AddCodeChange :: "CodeChange \<Rightarrow> DeferredCallState \<Rightarrow> DeferredCallState" where
  "df_AddCodeChange c d = d\<lparr>df_codeChanges := df_codeChanges d @ [c]\<rparr>"

definition df_AddStorageChange :: "StorageChange \<Rightarrow> DeferredCallState \<Rightarrow> DeferredCallState" where
  "df_AddStorageChange c d = d\<lparr>df_storageChanges := df_storageChanges d @ [c]\<rparr>"

definition df_AddLog :: "Log \<Rightarrow> DeferredCallState \<Rightarrow> DeferredCallState" where
  "df_AddLog l d = d\<lparr>df_logs := df_logs d @ [l]\<rparr>"

lemmas df_add_defs = df_AddAccountCreation_def df_AddBalanceChange_def df_AddNonceChange_def
  df_AddCodeChange_def df_AddStorageChange_def df_AddLog_def

datatype deferred_error = UnexpectedSource string

definition prepend_deferred :: "DeferredCallState \<Rightarrow> Call \<Rightarrow> Call" where
  "prepend_deferred d call = call\<lparr>
     call_AccountCreations := df_accountCreations d @ call_AccountCreations call,
     call_BalanceChanges := df_balanceChanges d @ call_BalanceChanges call,
     call_NonceChanges := df_nonceChanges d @ call_NonceChanges call,
     call_CodeChanges := df_codeChanges d @ call_CodeChanges call,
     call_StorageChanges := df_storageChanges d @ call_StorageChanges call,
     call_Logs := df_logs d @ call_Logs call\<rparr>"

definition append_deferred :: "DeferredCallState \<Rightarrow> Call \<Rightarrow> Call" where
  "append_deferred d call = call\<lparr>
     call_AccountCreations := call_AccountCreations call @ df_accountCreations d,
     call_BalanceChanges := call_BalanceChanges call @ df_balanceChanges d,
     call_NonceChanges := call_NonceChanges call @ df_nonceChanges d,
     call_CodeChanges := call_CodeChanges call @ df_codeChanges d,
     call_StorageChanges := call_StorageChanges call @ df_storageChanges d,
     call_Logs := call_Logs call @ df_logs d\<rparr>"

definition MaybePopulateCallAndReset ::
    "string \<Rightarrow> Call \<Rightarrow> DeferredCallState \<Rightarrow> deferred_error + (Call \<times> DeferredCallState)" where
  "MaybePopulateCallAndReset source call d =
     (if df_IsEmpty d then Inr (call, d)
      else if source \<noteq> ''root'' \<and> source \<noteq> ''enter'' then Inl (UnexpectedSource source)
      else if source = ''enter'' then Inr (prepend_deferred d call, df_Reset d)
      else Inr (append_deferred d call, df_Reset d))"

lemma df_Reset_eq_New [simp]: "df_Reset d = NewDeferredCallState"
  by (simp add: df_Reset_def NewDeferredCallState_def)

lemma df_New_fields [simp]:
  "df_accountCreations NewDeferredCallState = []" "df_balanceChanges NewDeferredCallState = []"
  "df_nonceChanges NewDeferredCallState = []" "df_codeChanges NewDeferredCallState = []"
  "df_storageChanges NewDeferredCallState = []" "df_logs NewDeferredCallState = []"
  by (simp_all add: NewDeferredCallState_def)

lemma df_IsEmpty_iff [simp]: "df_IsEmpty d \<longleftrightarrow> d = NewDeferredCallState"
  by (cases d) (auto simp: df_IsEmpty_def NewDeferredCallState_def)

lemma prepend_New [simp]: "prepend_deferred NewDeferredCallState call = call"
  by (simp add: prepend_deferred_def)

lemma append_New [simp]: "append_deferred NewDeferredCallState call = call"
  by (simp add: append_deferred_def)

lemma populate_enter: "MaybePopulateCallAndReset ''enter'' call d
    = Inr (prepend_deferred d call, NewDeferredCallState)"
  by (auto simp: MaybePopulateCallAndReset_def)

lemma populate_root: "MaybePopulateCallAndReset ''root'' call d
    = Inr (append_deferred d call, NewDeferredCallState)"
  by (auto simp: MaybePopulateCallAndReset_def)

lemma populate_other: "s \<noteq> ''root'' \<Longrightarrow> s \<noteq> ''enter'' \<Longrightarrow> d \<noteq> NewDeferredCallState
    \<Longrightarrow> MaybePopulateCallAndReset s call d = Inl (UnexpectedSource s)"
  by (simp add: MaybePopulateCallAndReset_def)

lemma populated_call_fields [simp]:
  "call_Index (prepend_deferred d c) = call_Index c"
  "call_ParentIndex (prepend_deferred d c) = call_ParentIndex c"
  "call_Depth (prepend_deferred d c) = call_Depth c"
  "call_BeginOrdinal (prepend_deferred d c) = call_BeginOrdinal c"
  "call_EndOrdinal (prepend_deferred d c) = call_EndOrdinal c"
  "call_StatusFailed (prepend_deferred d c) = call_StatusFailed c"
  "call_Index (append_deferred d c) = call_Index c"
  "call_ParentIndex (append_deferred d c) = call_ParentIndex c"
  "call_Depth (append_deferred d c) = call_Depth c"
  "call_BeginOrdinal (append_deferred d c) = call_BeginOrdinal c"
  "call_EndOrdinal (append_deferred d c) = call_EndOrdinal c"
  "call_StatusFailed (append_deferred d c) = call_StatusFailed c"
  "call_StatusReverted (append_deferred d c) = call_StatusReverted c"
  "call_ReturnData (append_deferred d c) = call_ReturnData c"
  "call_StateReverted (append_deferred d c) = call_StateReverted c"
  by (simp_all add: prepend_deferred_def append_deferred_def)

subsection \<open>Chronological order\<close>

text \<open>The ordinals of one kind of change, as a list; a call is in order when each list increases.\<close>

definition change_ordinals :: "Call \<Rightarrow> u64 list list" where
  "change_ordinals c = [map bc_Ordinal (call_BalanceChanges c), map nc_Ordinal (call_NonceChanges c),
     map cc_Ordinal (call_CodeChanges c), map sc_Ordinal (call_StorageChanges c),
     map log_Ordinal (call_Logs c)]"

definition deferred_ordinals :: "DeferredCallState \<Rightarrow> u64 list list" where
  "deferred_ordinals d = [map bc_Ordinal (df_balanceChanges d), map nc_Ordinal (df_nonceChanges d),
     map cc_Ordinal (df_codeChanges d), map sc_Ordinal (df_storageChanges d),
     map log_Ordinal (df_logs d)]"

definition in_order :: "u64 list list \<Rightarrow> bool" where
  "in_order oss \<longleftrightarrow> list_all (sorted_wrt (<)) oss"

definition all_before :: "u64 list list \<Rightarrow> u64 list list \<Rightarrow> bool" where
  "all_before xss yss \<longleftrightarrow> (\<forall>x \<in> set (concat xss). \<forall>y \<in> set (concat yss). x < y)"

lemma prepend_in_order:
  "in_order (deferred_ordinals d) \<Longrightarrow> in_order (change_ordinals c)
    \<Longrightarrow> all_before (deferred_ordinals d) (change_ordinals c)
    \<Longrightarrow> in_order (change_ordinals (prepend_deferred d c))"
  by (auto simp: in_order_def change_ordinals_def deferred_ordinals_def prepend_deferred_def
      all_before_def sorted_wrt_append)

lemma append_in_order:
  "in_order (deferred_ordinals d) \<Longrightarrow> in_order (change_ordinals c)
    \<Longrightarrow> all_before (change_ordinals c) (deferred_ordinals d)
    \<Longrightarrow> in_order (change_ordinals (append_deferred d c))"
  by (auto simp: in_order_def change_ordinals_def deferred_ordinals_def append_deferred_def
      all_before_def sorted_wrt_append)

end
