(* ===== verification/Finality.thy ===== *)
theory Finality
  imports Proto
begin

section \<open>Finality status (finality.go)\<close>

text \<open>
  The last finalized block number, 0 when none has been recorded, and the library-irreversible
  number \<open>computeLibNum\<close> (tracer_printer.go) that the output line advertises for a block.
\<close>

record FinalityStatus =
  fs_lastFinalizedBlockNumber :: u64

definition finality_Reset :: "FinalityStatus \<Rightarrow> FinalityStatus" where
  "finality_Reset fs = fs\<lparr>fs_lastFinalizedBlockNumber := 0\<rparr>"

definition PopulateBlockStatus :: "FinalityStatus \<Rightarrow> Block \<Rightarrow> Block" where
  "PopulateBlockStatus fs block =
     (if blk_Number block \<le> fs_lastFinalizedBlockNumber fs
      then block\<lparr>blk_DetailLevel := 1\<rparr>
      else block\<lparr>blk_DetailLevel := 2\<rparr>)"

definition SetLastFinalizedBlock :: "u64 \<Rightarrow> FinalityStatus \<Rightarrow> FinalityStatus" where
  "SetLastFinalizedBlock n fs = fs\<lparr>fs_lastFinalizedBlockNumber := n\<rparr>"

definition LastFinalizedBlock :: "FinalityStatus \<Rightarrow> u64" where
  "LastFinalizedBlock fs = fs_lastFinalizedBlockNumber fs"

definition finality_IsEmpty :: "FinalityStatus \<Rightarrow> bool" where
  "finality_IsEmpty fs \<longleftrightarrow> fs_lastFinalizedBlockNumber fs = 0"

text \<open>\<open>&FinalityStatus{}\<close>\<close>

definition new_Finality :: FinalityStatus where
  "new_Finality = \<lparr>fs_lastFinalizedBlockNumber = 0\<rparr>"

lemmas finality_defs = finality_Reset_def SetLastFinalizedBlock_def LastFinalizedBlock_def
  finality_IsEmpty_def new_Finality_def

subsection \<open>The LIB number\<close>

definition computeLibNum :: "u64 \<Rightarrow> FinalityStatus \<Rightarrow> u64" where
  "computeLibNum blockNumber finality =
     (let libNum = LastFinalizedBlock finality;
          libNum = (if finality_IsEmpty finality
                    then (if blockNumber \<ge> 200 then blockNumber - 200 else 0)
                    else libNum);
          libNum = (if blockNumber \<ge> 200 \<and> libNum < blockNumber - 200
                    then blockNumber - 200 else libNum)
      in if libNum > blockNumber then blockNumber else libNum)"

text \<open>
  The contract, on natural numbers: the finalized number, clamped to the last 200 blocks, where an
  unknown finality counts as the lower end.
\<close>

definition lib_spec :: "nat \<Rightarrow> nat \<Rightarrow> nat" where
  "lib_spec n final = max (n - 200) (min n final)"

lemma unat_sub_200: "(200 :: u64) \<le> b \<Longrightarrow> unat (b - 200) = unat b - 200"
  by (simp add: unat_sub)

lemma le_200_iff: "(200 :: u64) \<le> b \<longleftrightarrow> 200 \<le> unat b"
  by (simp add: word_le_nat_alt)

text \<open>
  C35. The LIB number of a FIRE BLOCK line is the finalized block number clamped to the interval
  \<open>[n - 200, n]\<close> of the block number \<open>n\<close> (0 when \<open>n < 200\<close>), and the lower end of that interval
  when no finalized block is known; in particular it is never ahead of the block and never more
  than 200 blocks behind it, with no wrap-around of the unsigned subtraction.
\<close>

theorem computeLibNum_spec:
  "unat (computeLibNum blockNumber finality)
     = lib_spec (unat blockNumber) (unat (LastFinalizedBlock finality))
   \<and> computeLibNum blockNumber finality \<le> blockNumber
   \<and> unat blockNumber \<le> unat (computeLibNum blockNumber finality) + 200"
proof -
  define f where "f = LastFinalizedBlock finality"
  have empty: "finality_IsEmpty finality \<longleftrightarrow> unat f = 0"
    by (simp add: finality_defs f_def unat_eq_0)
  have eq: "unat (computeLibNum blockNumber finality) = lib_spec (unat blockNumber) (unat f)"
  proof (cases "(200 :: u64) \<le> blockNumber")
    case True
    then have "200 \<le> unat blockNumber" and "unat (blockNumber - 200) = unat blockNumber - 200"
      by (simp_all add: le_200_iff unat_sub_200)
    with True empty show ?thesis
      by (auto simp: computeLibNum_def lib_spec_def Let_def f_def word_less_nat_alt)
  next
    case False
    then have "unat blockNumber < 200" by (simp add: le_200_iff)
    with False empty show ?thesis
      by (auto simp: computeLibNum_def lib_spec_def Let_def f_def word_less_nat_alt)
  qed
  then show ?thesis by (auto simp: f_def lib_spec_def word_le_nat_alt)
qed

end
