(* ===== verification/Config.thy ===== *)
theory Config
  imports Proto
begin

section \<open>Chain and tracer configuration (config.go)\<close>

text \<open>
  Fork activation by timestamp or by block number, and the tracer's configuration. The chain's
  hooks (signature recovery, the state reader, \<open>IsNeverRevertedLog\<close>, \<open>BeforeBlockFlush\<close>) are
  functions the chain implementation supplies: fields of the records here, parameters of the
  model. \<open>BeforeBlockFlush\<close> rewrites the block in place, so it is a function on blocks.
\<close>

text \<open>
  A recovery function takes the chain id, the address, the nonce, \<open>v\<close>, \<open>r\<close> and \<open>s\<close>, and returns an
  error or the authority; \<open>None\<close> is a panic inside it.
\<close>

type_synonym SetCodeAuthRecovery =
  "bytes \<Rightarrow> bytes \<Rightarrow> u64 \<Rightarrow> u32 \<Rightarrow> bytes \<Rightarrow> bytes \<Rightarrow> (go_error + bytes) option"

record StateReader =
  sr_GetCode :: "bytes \<Rightarrow> bytes"
  sr_GetNonce :: "bytes \<Rightarrow> u64"
  sr_Exist :: "bytes \<Rightarrow> bool"

record ChainConfig =
  ch_ChainID :: "int option"
  ch_ShanghaiTime :: "u64 option"
  ch_CancunTime :: "u64 option"
  ch_PragueTime :: "u64 option"
  ch_VerkleTime :: "u64 option"
  ch_ShanghaiBlock :: "int option"
  ch_CancunBlock :: "int option"
  ch_PragueBlock :: "int option"
  ch_SetCodeAuthRecovery :: "SetCodeAuthRecovery option"

definition isTimestampForked :: "u64 option \<Rightarrow> u64 \<Rightarrow> bool" where
  "isTimestampForked fork timestamp = (case fork of None \<Rightarrow> False | Some f \<Rightarrow> f \<le> timestamp)"

definition isBlockForked :: "int option \<Rightarrow> int option \<Rightarrow> bool" where
  "isBlockForked fork num =
     (case fork of None \<Rightarrow> False | Some f \<Rightarrow> (case num of None \<Rightarrow> False | Some n \<Rightarrow> f \<le> n))"

definition IsShanghai :: "ChainConfig \<Rightarrow> int option \<Rightarrow> u64 \<Rightarrow> bool" where
  "IsShanghai c num ts \<longleftrightarrow>
     isTimestampForked (ch_ShanghaiTime c) ts \<or> isBlockForked (ch_ShanghaiBlock c) num"

definition IsCancun :: "ChainConfig \<Rightarrow> int option \<Rightarrow> u64 \<Rightarrow> bool" where
  "IsCancun c num ts \<longleftrightarrow>
     isTimestampForked (ch_CancunTime c) ts \<or> isBlockForked (ch_CancunBlock c) num"

definition IsPrague :: "ChainConfig \<Rightarrow> int option \<Rightarrow> u64 \<Rightarrow> bool" where
  "IsPrague c num ts \<longleftrightarrow>
     isTimestampForked (ch_PragueTime c) ts \<or> isBlockForked (ch_PragueBlock c) num"

definition IsVerkle :: "ChainConfig \<Rightarrow> int option \<Rightarrow> u64 \<Rightarrow> bool" where
  "IsVerkle c num ts \<longleftrightarrow> isTimestampForked (ch_VerkleTime c) ts"

record Rules =
  ru_ChainID :: "int option"
  ru_IsMerge :: bool
  ru_IsShanghai :: bool
  ru_IsCancun :: bool
  ru_IsPrague :: bool
  ru_IsVerkle :: bool

text \<open>\<open>Rules{}\<close>\<close>

definition no_Rules :: Rules where
  "no_Rules = \<lparr>ru_ChainID = None, ru_IsMerge = False, ru_IsShanghai = False, ru_IsCancun = False,
     ru_IsPrague = False, ru_IsVerkle = False\<rparr>"

definition chain_Rules :: "ChainConfig \<Rightarrow> int option \<Rightarrow> bool \<Rightarrow> u64 \<Rightarrow> Rules" where
  "chain_Rules c num isMerge timestamp =
     \<lparr>ru_ChainID = ch_ChainID c, ru_IsMerge = isMerge,
      ru_IsShanghai = IsShanghai c num timestamp, ru_IsCancun = IsCancun c num timestamp,
      ru_IsPrague = IsPrague c num timestamp, ru_IsVerkle = IsVerkle c num timestamp\<rparr>"

record BlockEvent =
  ev_Block :: BlockData
  ev_Finalized :: "FinalizedBlockRef option"
  ev_FlashBlock :: "FlashBlockData option"
  ev_Rules :: "Rules option"

record Config =
  cfg_ChainConfig :: "ChainConfig option"
  cfg_IgnoreGenesisBlock :: bool
  cfg_EnableConcurrentFlushing :: bool
  cfg_ConcurrentBufferSize :: int
  cfg_DropTransactionsWithoutReceipt :: bool
  cfg_IsNeverRevertedLog :: "(Log \<Rightarrow> bool) option"
  cfg_BeforeBlockFlush :: "(Block \<Rightarrow> Block) option"

definition show_bool :: "bool \<Rightarrow> string" where
  "show_bool b = (if b then ''true'' else ''false'')"

definition LogKeyValues :: "Config \<Rightarrow> string list" where
  "LogKeyValues c =
     [''config_ignore_genesis_block'', show_bool (cfg_IgnoreGenesisBlock c),
      ''config_enable_concurrent_flushing'', show_bool (cfg_EnableConcurrentFlushing c),
      ''config_concurrent_buffer_size'', AppendInt [] (cfg_ConcurrentBufferSize c),
      ''config_drop_transactions_without_receipt'', show_bool (cfg_DropTransactionsWithoutReceipt c)]"

subsection \<open>Forks never deactivate\<close>

lemma isTimestampForked_mono: "isTimestampForked f t \<Longrightarrow> t \<le> t' \<Longrightarrow> isTimestampForked f t'"
  by (auto simp: isTimestampForked_def split: option.splits)

lemma isBlockForked_mono: "isBlockForked f (Some n) \<Longrightarrow> n \<le> n' \<Longrightarrow> isBlockForked f (Some n')"
  by (auto simp: isBlockForked_def split: option.splits)

lemmas fork_mono = isTimestampForked_mono isBlockForked_mono

definition forks_of :: "Rules \<Rightarrow> bool list" where
  "forks_of r = [ru_IsShanghai r, ru_IsCancun r, ru_IsPrague r, ru_IsVerkle r]"

lemma chain_Rules_mono:
  assumes "n \<le> n'" and "t \<le> t'"
  shows "list_all2 (\<longrightarrow>) (forks_of (chain_Rules c (Some n) m t))
    (forks_of (chain_Rules c (Some n') m' t'))"
  using fork_mono assms
  by (auto simp: forks_of_def chain_Rules_def IsShanghai_def IsCancun_def IsPrague_def IsVerkle_def)

end
