(* ===== verification/SetCode.thy ===== *)
theory SetCode
  imports Config
begin

section \<open>EIP-7702 authorization signatures (setcode.go) and CREATE addresses\<close>

text \<open>
  Keccak-256, RLP encoding, and the secp256k1 signing and recovery of the packages \<open>eth-go\<close>,
  \<open>btcec\<close> and \<open>crypto/ecdsa\<close> are not part of the repository: they are the fields of the
  record \<open>Crypto\<close>, a parameter of every definition that uses them. What is modelled is what the
  source does around them: hashing the authorization, validating \<open>v\<close>, \<open>r\<close> and \<open>s\<close>, the compact
  signature format, the search for the recovery id and the malleability rule.

  A result of type \<open>(go_error + 'a) option\<close> is \<open>None\<close> for a panic, \<open>Some (Inl e)\<close> for a returned
  error and \<open>Some (Inr x)\<close> for a value.
\<close>

datatype rlp_item = RlpBigInt nat | RlpBytes bytes | RlpUint u64

record PrivateKey =
  key_X :: nat
  key_Y :: nat
  key_D :: nat

record Crypto =
  cr_Keccak256 :: "bytes \<Rightarrow> bytes"
  cr_rlp_Encode :: "rlp_item list \<Rightarrow> go_error + bytes"
  cr_RecoverCompact :: "bytes \<Rightarrow> bytes \<Rightarrow> go_error + (nat \<times> nat)"
  cr_ecdsa_Sign :: "PrivateKey \<Rightarrow> bytes \<Rightarrow> go_error + (int \<times> int)"

text \<open>\<open>copy(dst[:], src)\<close> into a zeroed array of \<open>n\<close> bytes.\<close>

definition copy_into :: "nat \<Rightarrow> bytes \<Rightarrow> bytes" where
  "copy_into n src = take n src @ replicate (n - length src) 0"

lemma length_copy_into [simp]: "length (copy_into n src) = n"
  by (simp add: copy_into_def)

definition secp256k1N :: int where
  "secp256k1N = 0xfffffffffffffffffffffffffffffffebaaedce6af48a03bbfd25e8cd0364141"

definition secp256k1halfN :: int where
  "secp256k1halfN = secp256k1N div 2"

definition validateSignatureValues :: "byte \<Rightarrow> int \<Rightarrow> int \<Rightarrow> bool" where
  "validateSignatureValues v r s =
     (if v \<noteq> 0 \<and> v \<noteq> 1 \<and> v \<noteq> 27 \<and> v \<noteq> 28 then False
      else if sgn r \<le> 0 \<or> sgn s \<le> 0 then False
      else if r \<ge> secp256k1N \<or> s \<ge> secp256k1N then False
      else if s > secp256k1halfN then False
      else True)"

definition computeSetCodeSigHash :: "Crypto \<Rightarrow> bytes \<Rightarrow> bytes \<Rightarrow> u64 \<Rightarrow> bytes option" where
  "computeSetCodeSigHash cr chainID address nonce =
     (case cr_rlp_Encode cr [RlpBigInt (be_val chainID), RlpBytes address, RlpUint nonce] of
        Inl e \<Rightarrow> None
      | Inr rlpEncoded \<Rightarrow> Some (copy_into 32 (cr_Keccak256 cr (0x05 # rlpEncoded))))"

definition recoverPublicKey :: "Crypto \<Rightarrow> bytes \<Rightarrow> int \<Rightarrow> int \<Rightarrow> byte \<Rightarrow> (go_error + bytes) option" where
  "recoverPublicKey cr hash r s v =
     (let recID = (if v \<ge> 27 then v - 27 else v)
      in if recID \<noteq> 0 \<and> recID \<noteq> 1 then Some (Inl (GoError ''invalid recovery id'' None))
         else case fill_bytes 32 (nat \<bar>r\<bar>) of None \<Rightarrow> None | Some rBytes \<Rightarrow>
              case fill_bytes 32 (nat \<bar>s\<bar>) of None \<Rightarrow> None | Some sBytes \<Rightarrow>
              case cr_RecoverCompact cr ((recID + 27) # rBytes @ sBytes) hash of
                Inl e \<Rightarrow> Some (Inl (GoError (''btcec recovery failed: '' @ err_text e) (Some e)))
              | Inr (x, y) \<Rightarrow>
                  (case fill_bytes 32 x of None \<Rightarrow> None | Some xBytes \<Rightarrow>
                   case fill_bytes 32 y of None \<Rightarrow> None | Some yBytes \<Rightarrow>
                   Some (Inr (xBytes @ yBytes))))"

definition pubkey_address :: "Crypto \<Rightarrow> bytes \<Rightarrow> bytes" where
  "pubkey_address cr pub = copy_into 20 (drop 12 (cr_Keccak256 cr pub))"

definition DefaultSetCodeAuthRecovery :: "Crypto \<Rightarrow> SetCodeAuthRecovery" where
  "DefaultSetCodeAuthRecovery cr chainID address nonce v r s =
     (case computeSetCodeSigHash cr chainID address nonce of
        None \<Rightarrow> None
      | Some sighash \<Rightarrow>
          let rBig = int (be_val r); sBig = int (be_val s)
          in if \<not> validateSignatureValues (ucast v) rBig sBig
             then Some (Inl (GoError ''invalid signature values'' None))
             else case recoverPublicKey cr sighash rBig sBig (ucast v) of
                    None \<Rightarrow> None
                  | Some (Inl e) \<Rightarrow>
                      Some (Inl (GoError (''signature recovery failed: '' @ err_text e) (Some e)))
                  | Some (Inr pub) \<Rightarrow> Some (Inr (pubkey_address cr pub)))"

subsection \<open>Signing\<close>

definition signECDSA :: "Crypto \<Rightarrow> PrivateKey \<Rightarrow> bytes \<Rightarrow> go_error + (int \<times> int)" where
  "signECDSA cr privateKey hash =
     (case cr_ecdsa_Sign cr privateKey hash of
        Inl e \<Rightarrow> Inl e
      | Inr (r, s) \<Rightarrow> Inr (r, if s > secp256k1halfN then secp256k1N - s else s))"

definition expectedPubKey :: "PrivateKey \<Rightarrow> bytes option" where
  "expectedPubKey k =
     (case fill_bytes 32 (key_X k) of None \<Rightarrow> None | Some x \<Rightarrow>
      case fill_bytes 32 (key_Y k) of None \<Rightarrow> None | Some y \<Rightarrow> Some (x @ y))"

fun try_recovery_ids :: "Crypto \<Rightarrow> bytes \<Rightarrow> bytes \<Rightarrow> int \<Rightarrow> int \<Rightarrow> byte list \<Rightarrow> (go_error + byte) option" where
  "try_recovery_ids cr expected hash r s [] =
     Some (Inl (GoError ''could not determine recovery id'' None))"
| "try_recovery_ids cr expected hash r s (v # vs) =
     (case recoverPublicKey cr hash r s v of
        None \<Rightarrow> None
      | Some (Inl e) \<Rightarrow> try_recovery_ids cr expected hash r s vs
      | Some (Inr recovered) \<Rightarrow>
          if length recovered = 64 \<and> recovered = expected then Some (Inr v)
          else try_recovery_ids cr expected hash r s vs)"

definition findRecoveryID :: "Crypto \<Rightarrow> PrivateKey \<Rightarrow> bytes \<Rightarrow> int \<Rightarrow> int \<Rightarrow> (go_error + byte) option" where
  "findRecoveryID cr privateKey hash r s =
     (case expectedPubKey privateKey of
        None \<Rightarrow> None
      | Some expected \<Rightarrow> try_recovery_ids cr expected hash r s [0, 1])"

definition signSetCodeAuthWithECDSA ::
    "Crypto \<Rightarrow> PrivateKey \<Rightarrow> u64 \<Rightarrow> bytes \<Rightarrow> u64 \<Rightarrow> (go_error + SetCodeAuthorization) option" where
  "signSetCodeAuthWithECDSA cr privateKey chainID delegateAddress nonce =
     (case fill_bytes 32 (unat chainID) of None \<Rightarrow> None | Some chainIDBytes \<Rightarrow>
      case computeSetCodeSigHash cr chainIDBytes delegateAddress nonce of None \<Rightarrow> None | Some sighash \<Rightarrow>
      case signECDSA cr privateKey sighash of
        Inl e \<Rightarrow> Some (Inl e)
      | Inr (rBig, sBig) \<Rightarrow>
          (case findRecoveryID cr privateKey sighash rBig sBig of
             None \<Rightarrow> None
           | Some (Inl e) \<Rightarrow> Some (Inl e)
           | Some (Inr v) \<Rightarrow>
               (case fill_bytes 32 (nat \<bar>rBig\<bar>) of None \<Rightarrow> None | Some r \<Rightarrow>
                case fill_bytes 32 (nat \<bar>sBig\<bar>) of None \<Rightarrow> None | Some s \<Rightarrow>
                Some (Inr \<lparr>sa_ChainID = chainIDBytes, sa_Address = delegateAddress, sa_Nonce = nonce,
                  sa_V = ucast v, sa_R = r, sa_S = s\<rparr>))))"

text \<open>
  \<open>SignSetCodeAuth\<close> takes the key of the library \<open>eth-go\<close>: its bytes, and the conversion of the bytes
  to an ECDSA key, are code of libraries.
\<close>

definition SignSetCodeAuth ::
    "Crypto \<Rightarrow> (bytes \<Rightarrow> PrivateKey) \<Rightarrow> bytes \<Rightarrow> u64 \<Rightarrow> bytes \<Rightarrow> u64 \<Rightarrow> (go_error + SetCodeAuthorization) option" where
  "SignSetCodeAuth cr ecdsaKey keyBytes chainID delegateAddress nonce =
     signSetCodeAuthWithECDSA cr (ecdsaKey keyBytes) chainID delegateAddress nonce"

subsection \<open>Addresses of created contracts (tracer.go)\<close>

definition CreateAddress :: "Crypto \<Rightarrow> bytes \<Rightarrow> u64 \<Rightarrow> bytes option" where
  "CreateAddress cr sender nonce =
     (case cr_rlp_Encode cr [RlpBytes sender, RlpUint nonce] of
        Inl e \<Rightarrow> None
      | Inr rlpEncoded \<Rightarrow> Some (copy_into 20 (drop 12 (cr_Keccak256 cr rlpEncoded))))"

definition hashBytes :: "Crypto \<Rightarrow> bytes \<Rightarrow> bytes" where
  "hashBytes cr data = copy_into 32 (cr_Keccak256 cr data)"

text \<open>\<open>normalizeSignaturePoint\<close>: nil when every byte is zero.\<close>

definition normalizeSignaturePoint :: "bytes \<Rightarrow> bytes" where
  "normalizeSignaturePoint value = (if \<exists>b \<in> set value. b \<noteq> 0 then value else [])"

lemma normalizeSignaturePoint_val: "be_val (normalizeSignaturePoint b) = be_val b"
  using be_val_eq_0_iff [of b] by (auto simp: normalizeSignaturePoint_def)

subsection \<open>What validation accepts, and signing against recovery\<close>

lemma validateSignatureValues_iff:
  "validateSignatureValues v r s \<longleftrightarrow>
     v \<in> {0, 1, 27, 28} \<and> 0 < r \<and> r < secp256k1N \<and> 0 < s \<and> s \<le> secp256k1halfN"
proof -
  have "secp256k1halfN < secp256k1N" by (simp add: secp256k1halfN_def secp256k1N_def)
  then show ?thesis by (auto simp: validateSignatureValues_def sgn_if)
qed

lemma fill_bytes_Some: "fill_bytes w n = Some b \<Longrightarrow> be_val b = n \<and> length b = w"
  by (auto simp: fill_bytes_def Let_def be_val_be_bytes split: if_splits)

lemma try_recovery_ids_Some:
  "try_recovery_ids cr expected hash r s vs = Some (Inr v) \<Longrightarrow>
     v \<in> set vs \<and> recoverPublicKey cr hash r s v = Some (Inr expected)"
proof (induction vs)
  case Nil
  then show ?case by simp
next
  case (Cons w vs)
  then show ?case by (auto split: option.splits sum.splits if_splits)
qed

lemma signECDSA_low_s:
  assumes "signECDSA cr k h = Inr (r, s)"
    and "\<And>r s. cr_ecdsa_Sign cr k h = Inr (r, s) \<Longrightarrow> 0 < r \<and> r < secp256k1N \<and> 0 < s \<and> s < secp256k1N"
  shows "0 < r \<and> r < secp256k1N \<and> 0 < s \<and> s \<le> secp256k1halfN"
  using assms(1) assms(2)
  by (auto simp: signECDSA_def secp256k1halfN_def secp256k1N_def split: sum.splits if_splits)

text \<open>
  C34. An authorization that \<open>signSetCodeAuthWithECDSA\<close> produces is accepted by
  \<open>DefaultSetCodeAuthRecovery\<close>, which recovers the address of the signing key, whatever Keccak,
  RLP, and the curve recovery compute, provided the ECDSA signer returns \<open>r\<close> and \<open>s\<close> in
  \<open>[1, N - 1]\<close> as ECDSA does; high \<open>s\<close> values included.
\<close>

theorem sign_recover_roundtrip:
  assumes range: "\<And>h r s. cr_ecdsa_Sign cr k h = Inr (r, s)
      \<Longrightarrow> 0 < r \<and> r < secp256k1N \<and> 0 < s \<and> s < secp256k1N"
    and sign: "signSetCodeAuthWithECDSA cr k chainID addr nonce = Some (Inr auth)"
  shows "\<exists>pub. expectedPubKey k = Some pub \<and>
    DefaultSetCodeAuthRecovery cr (sa_ChainID auth) (sa_Address auth) (sa_Nonce auth)
      (sa_V auth) (sa_R auth) (sa_S auth) = Some (Inr (pubkey_address cr pub))"
proof -
  from sign obtain cid sighash r s v rb sb pub where
    h: "computeSetCodeSigHash cr cid addr nonce = Some sighash"
    and rs: "signECDSA cr k sighash = Inr (r, s)"
    and pub: "expectedPubKey k = Some pub"
    and v: "try_recovery_ids cr pub sighash r s [0, 1] = Some (Inr v)"
    and rb: "fill_bytes 32 (nat \<bar>r\<bar>) = Some rb" and sb: "fill_bytes 32 (nat \<bar>s\<bar>) = Some sb"
    and auth: "auth = \<lparr>sa_ChainID = cid, sa_Address = addr, sa_Nonce = nonce,
      sa_V = ucast v, sa_R = rb, sa_S = sb\<rparr>"
    by (auto simp: signSetCodeAuthWithECDSA_def findRecoveryID_def split: option.splits sum.splits)
  have low: "0 < r \<and> r < secp256k1N \<and> 0 < s \<and> s \<le> secp256k1halfN"
    using signECDSA_low_s [OF rs] range by blast
  have v01: "v \<in> {0, 1}" and rec: "recoverPublicKey cr sighash r s v = Some (Inr pub)"
    using try_recovery_ids_Some [OF v] by auto
  have ucast2: "ucast (ucast v :: u32) = v" using v01 by auto
  have vals: "int (be_val rb) = r" "int (be_val sb) = s"
    using fill_bytes_Some [OF rb] fill_bytes_Some [OF sb] low by auto
  have "validateSignatureValues v r s" using low v01 by (auto simp: validateSignatureValues_iff)
  then have "DefaultSetCodeAuthRecovery cr cid addr nonce (ucast v) rb sb
      = Some (Inr (pubkey_address cr pub))"
    by (simp add: DefaultSetCodeAuthRecovery_def h ucast2 vals rec Let_def)
  with pub auth show ?thesis by simp
qed

lemma ucast_byte_add: "(ucast ((v :: u32) + 256 * k) :: byte) = ucast v"
proof -
  have low: "unat (ucast x :: byte) = unat x mod 256" for x :: u32
    by (simp add: unsigned_ucast_eq unsigned_take_bit_eq take_bit_eq_mod)
  have "unat (v + 256 * k) mod 256 = unat v mod 256"
  proof -
    have "256 * unat k mod 4294967296 mod 256 = 0" by (simp add: mod_mod_cancel)
    then have "(unat v + 256 * unat k mod 4294967296) mod 256 = unat v mod 256"
      by (metis mod_add_right_eq add_0_right)
    then show ?thesis by (simp add: unat_word_ariths mod_mod_cancel)
  qed
  then show ?thesis by (simp add: word_unat_eq_iff low)
qed

text \<open>
  C38. \<open>DefaultSetCodeAuthRecovery\<close> truncates the 32-bit \<open>v\<close> to a byte before it validates it, so
  values that agree modulo 256 are indistinguishable: \<open>v = 256\<close> is treated as \<open>v = 0\<close>.
\<close>

theorem recovery_v_truncated:
  "DefaultSetCodeAuthRecovery cr cid addr nonce (v + 256 * k) r s
    = DefaultSetCodeAuthRecovery cr cid addr nonce v r s"
proof -
  have "(ucast (v + 256 * k) :: byte) = ucast v" by (rule ucast_byte_add)
  then show ?thesis by (simp only: DefaultSetCodeAuthRecovery_def)
qed

end
