(* ===== verification/KeccakFilter.thy ===== *)
theory KeccakFilter
  imports Proto
begin

section \<open>Filtering KECCAK256 preimages (keccak_filter.go)\<close>

text \<open>
  The tracer records the preimages of the hashes a transaction computes and keeps those that
  explain a written storage slot: the hash of a kept preimage lies less than \<open>2^64\<close> below a storage
  key, or below a word inside the preimage of another kept hash, following 16 such levels.

  A Go map is an association list in the order an iteration visits it, the map
  \<open>kept\<close> is a set, and \<open>byIndex\<close> maps an index to the position of the last call that has it.
\<close>

definition maxKeccakPreimageSize :: nat where "maxKeccakPreimageSize = 256"

definition keccakFilterMaxDepth :: nat where "keccakFilterMaxDepth = 16"

record recordedPreimage =
  rp_callIndex :: u32
  rp_hash :: bytes
  rp_preimage :: bytes

definition keccakSlotBase :: "bytes list \<Rightarrow> bytes \<Rightarrow> bytes option" where
  "keccakSlotBase hashes key =
     (let i = sort_Search (length hashes) (\<lambda>i. bytes_Compare (hashes ! i) key > 0)
      in if i = 0 then None
         else let base = hashes ! (i - 1);
                  distance = (int (be_val key) - int (be_val base)) mod 2 ^ 256
              in if distance < 2 ^ 64 then Some base else None)"

function candidate_loop :: "nat \<Rightarrow> bytes \<Rightarrow> bytes list" where
  "candidate_loop off preimage =
     (if off + 32 \<le> length preimage
      then take 32 (drop off preimage) # candidate_loop (off + 32) preimage
      else [])"
  by pat_completeness auto
termination
  by (relation "measure (\<lambda>(off, p). length p - off)") auto

declare candidate_loop.simps [simp del]

definition innerKeccakHashCandidates :: "bytes \<Rightarrow> bytes list" where
  "innerKeccakHashCandidates preimage =
     (let candidates = candidate_loop 0 preimage
      in if length preimage > 32 \<and> length preimage mod 32 \<noteq> 0
         then candidates @ [drop (length preimage - 32) preimage] else candidates)"

text \<open>The map \<open>preimages\<close>: the first preimage recorded for a hash.\<close>

definition first_preimages :: "recordedPreimage list \<Rightarrow> (bytes \<times> bytes) list" where
  "first_preimages recorded =
     foldl (\<lambda>m r. if map_of m (rp_hash r) \<noteq> None then m else m @ [(rp_hash r, rp_preimage r)])
       [] recorded"

type_synonym keep_state = "bytes set \<times> bytes list"

fun keep :: "bytes \<Rightarrow> keep_state \<Rightarrow> keep_state" where
  "keep h (kept, into) = (if h \<in> kept then (kept, into) else (insert h kept, into @ [h]))"

definition keep_base :: "bytes list \<Rightarrow> bytes \<Rightarrow> keep_state \<Rightarrow> keep_state" where
  "keep_base hashes word st =
     (case keccakSlotBase hashes word of Some base \<Rightarrow> keep base st | None \<Rightarrow> st)"

definition keep_storage_keys :: "bytes list \<Rightarrow> Call list \<Rightarrow> keep_state \<Rightarrow> keep_state" where
  "keep_storage_keys hashes calls =
     fold (\<lambda>call. fold (\<lambda>change st. if length (sc_Key change) \<noteq> 32 then st
                                   else keep_base hashes (sc_Key change) st)
                     (call_StorageChanges call)) calls"

definition keep_inner :: "bytes list \<Rightarrow> (bytes \<times> bytes) list \<Rightarrow> bytes list \<Rightarrow> keep_state \<Rightarrow> keep_state" where
  "keep_inner hashes preimages frontier =
     fold (\<lambda>h. fold (keep_base hashes) (innerKeccakHashCandidates (map_get preimages [] h))) frontier"

text \<open>The loop over the levels; the first argument is how many levels are left.\<close>

fun keep_levels :: "nat \<Rightarrow> bytes list \<Rightarrow> (bytes \<times> bytes) list \<Rightarrow> keep_state \<Rightarrow> bytes set" where
  "keep_levels 0 hashes preimages (kept, frontier) = kept"
| "keep_levels (Suc n) hashes preimages (kept, frontier) =
     (if frontier = [] then kept
      else keep_levels n hashes preimages (keep_inner hashes preimages frontier (kept, [])))"

definition sorted_hashes :: "recordedPreimage list \<Rightarrow> bytes list" where
  "sorted_hashes recorded = SortFunc bytes_Compare (map fst (first_preimages recorded))"

definition storageSlotHashes :: "Call list \<Rightarrow> recordedPreimage list \<Rightarrow> bytes set" where
  "storageSlotHashes calls recorded =
     (let preimages = first_preimages recorded;
          hashes = SortFunc bytes_Compare (map fst preimages)
      in keep_levels keccakFilterMaxDepth hashes preimages
           (keep_storage_keys hashes calls ({}, [])))"

definition byIndex :: "Call list \<Rightarrow> u32 \<Rightarrow> nat option" where
  "byIndex calls = map_of (rev (zip (map call_Index calls) [0..<length calls]))"

definition add_preimage :: "string \<Rightarrow> string \<Rightarrow> Call \<Rightarrow> Call" where
  "add_preimage key value call =
     (if call_KeccakPreimages call key = None
      then call\<lparr>call_KeccakPreimages := (call_KeccakPreimages call)(key \<mapsto> value)\<rparr> else call)"

definition attach_step :: "(u32 \<Rightarrow> nat option) \<Rightarrow> bytes set \<Rightarrow> recordedPreimage \<Rightarrow> Call list \<Rightarrow> Call list" where
  "attach_step index kept r calls =
     (if rp_hash r \<notin> kept then calls
      else case index (rp_callIndex r) of
             None \<Rightarrow> calls
           | Some i \<Rightarrow> calls[i := add_preimage (hex_EncodeToString (rp_hash r))
                                   (hex_EncodeToString (rp_preimage r)) (calls ! i)])"

definition attachStorageSlotPreimages :: "Call list \<Rightarrow> recordedPreimage list \<Rightarrow> Call list" where
  "attachStorageSlotPreimages calls recorded =
     (if length recorded = 0 then calls
      else let kept = storageSlotHashes calls recorded
           in if kept = {} then calls
              else fold (attach_step (byIndex calls) kept) recorded calls)"

subsection \<open>The slot base: binary search against its specification\<close>

definition is_slot_base :: "bytes set \<Rightarrow> bytes \<Rightarrow> bytes \<Rightarrow> bool" where
  "is_slot_base hashes key base \<longleftrightarrow>
     base \<in> hashes \<and> be_val base \<le> be_val key \<and> be_val key - be_val base < 2 ^ 64
     \<and> (\<forall>h \<in> hashes. be_val h \<le> be_val key \<longrightarrow> be_val h \<le> be_val base)"

lemma be_val_32: "length b = 32 \<Longrightarrow> be_val b < 2 ^ 256"
  using be_val_less [of b] by simp

lemma slot_base_search:
  assumes "sorted hs" and "\<forall>h \<in> set hs. length h = 32" and "length key = 32"
  defines "i \<equiv> sort_Search (length hs) (\<lambda>i. bytes_Compare (hs ! i) key > 0)"
  shows "i \<le> length hs" and "k < length hs \<Longrightarrow> k < i \<longleftrightarrow> be_val (hs ! k) \<le> be_val key"
    and "j \<le> k \<Longrightarrow> k < length hs \<Longrightarrow> be_val (hs ! j) \<le> be_val (hs ! k)"
proof -
  have len: "length (hs ! a) = 32" if "a < length hs" for a using assms(2) that by simp
  have gt: "bytes_Compare (hs ! a) key > 0 \<longleftrightarrow> be_val key < be_val (hs ! a)"
    if "a < length hs" for a
    using len [OF that] assms(3) by (simp add: bytes_Compare_gt_iff)
  have le: "be_val (hs ! a) \<le> be_val (hs ! b)" if "a \<le> b" "b < length hs" for a b
    using assms(1) that len [of a] len [of b]
    by (simp add: bytes_Compare_le_iff [symmetric] bytes_Compare_le_lex sorted_nth_mono)
  have mono: "bytes_Compare (hs ! b) key > 0" if "a \<le> b" "b < length hs" "bytes_Compare (hs ! a) key > 0" for a b
    using gt [of a] gt [of b] le [of a b] that by simp
  show "i \<le> length hs" unfolding i_def by (rule sort_Search_correct(1)) (rule mono)
  show "k < i \<longleftrightarrow> be_val (hs ! k) \<le> be_val key" if k: "k < length hs"
  proof -
    have "bytes_Compare (hs ! k) key > 0 \<longleftrightarrow> i \<le> k"
      unfolding i_def by (rule sort_Search_correct(2) [OF mono k])
    with gt [OF k] show ?thesis by linarith
  qed
  show "j \<le> k \<Longrightarrow> k < length hs \<Longrightarrow> be_val (hs ! j) \<le> be_val (hs ! k)" by (rule le)
qed

lemma distance_small_iff:
  assumes "length base = 32" and "length key = 32" and "be_val base \<le> be_val key"
  shows "(int (be_val key) - int (be_val base)) mod 2 ^ 256 < 2 ^ 64
    \<longleftrightarrow> be_val key - be_val base < 2 ^ 64"
proof -
  define d where "d = be_val key - be_val base"
  have "int (be_val key) - int (be_val base) = int d" using assms(3) by (simp add: d_def)
  moreover have "d < 2 ^ 256" using be_val_32 [OF assms(2)] by (simp add: d_def)
  then have "int d mod 2 ^ 256 = int d" by (intro mod_pos_pos_trivial) simp_all
  ultimately show ?thesis by (simp add: d_def [symmetric])
qed

lemma keccakSlotBase_spec:
  assumes "sorted hs" and "\<forall>h \<in> set hs. length h = 32" and "length key = 32"
  shows "keccakSlotBase hs key = Some base \<longleftrightarrow> is_slot_base (set hs) key base"
proof -
  define i where "i = sort_Search (length hs) (\<lambda>i. bytes_Compare (hs ! i) key > 0)"
  note search = slot_base_search [OF assms, folded i_def]
  show ?thesis
  proof (cases "i = 0")
    case True
    then have "be_val key < be_val h" if "h \<in> set hs" for h
      using search(2) that by (auto simp: in_set_conv_nth not_le [symmetric])
    then have "\<not> is_slot_base (set hs) key base" by (auto simp: is_slot_base_def not_le [symmetric])
    with True show ?thesis by (simp add: keccakSlotBase_def i_def [symmetric] Let_def)
  next
    case False
    define b where "b = hs ! (i - 1)"
    have i1: "i - 1 < length hs" "i - 1 < i" using False search(1) by auto
    then have b: "b \<in> set hs" "length b = 32" "be_val b \<le> be_val key"
      using assms(2) search(2) [of "i - 1"] by (auto simp: b_def)
    have top: "be_val h \<le> be_val b" if "h \<in> set hs" "be_val h \<le> be_val key" for h
    proof -
      from that(1) obtain k where k: "k < length hs" "h = hs ! k" by (auto simp: in_set_conv_nth)
      with that(2) search(2) [of k] have "k < i" by simp
      then have "k \<le> i - 1" by simp
      then show ?thesis using search(3) i1 k by (simp add: b_def)
    qed
    have "is_slot_base (set hs) key base \<longleftrightarrow> base = b \<and> be_val key - be_val b < 2 ^ 64"
    proof
      assume *: "is_slot_base (set hs) key base"
      then have "be_val base = be_val b"
        using b top by (auto simp: is_slot_base_def intro: antisym)
      moreover have "length base = length b" using * assms(2) b by (auto simp: is_slot_base_def)
      ultimately show "base = b \<and> be_val key - be_val b < 2 ^ 64"
        using * by (auto simp: is_slot_base_def intro: be_val_inj)
    qed (use b top in \<open>auto simp: is_slot_base_def\<close>)
    moreover have "keccakSlotBase hs key = (if be_val key - be_val b < 2 ^ 64 then Some b else None)"
      using False distance_small_iff [OF b(2) assms(3) b(3)]
      by (simp only: keccakSlotBase_def i_def [symmetric] b_def [symmetric] Let_def if_False)
    ultimately show ?thesis by auto
  qed
qed

subsection \<open>The recorded preimages as a map\<close>

definition hashes_of :: "recordedPreimage list \<Rightarrow> bytes set" where
  "hashes_of recorded = rp_hash ` set recorded"

definition preimage_of :: "recordedPreimage list \<Rightarrow> bytes \<Rightarrow> bytes" where
  "preimage_of recorded h = map_get (first_preimages recorded) [] h"

lemma first_preimages_gen:
  "distinct (map fst m) \<Longrightarrow>
    distinct (map fst (foldl (\<lambda>m r. if map_of m (rp_hash r) \<noteq> None then m
        else m @ [(rp_hash r, rp_preimage r)]) m recorded)) \<and>
    map_of (foldl (\<lambda>m r. if map_of m (rp_hash r) \<noteq> None then m
        else m @ [(rp_hash r, rp_preimage r)]) m recorded)
      = map_of (map (\<lambda>r. (rp_hash r, rp_preimage r)) recorded) ++ map_of m"
proof (induction recorded arbitrary: m)
  case Nil
  then show ?case by simp
next
  case (Cons r rs)
  show ?case
  proof (cases "map_of m (rp_hash r) = None")
    case True
    then have "distinct (map fst (m @ [(rp_hash r, rp_preimage r)]))"
      using Cons.prems by (simp add: map_of_eq_None_iff)
    note Cons.IH [OF this]
    moreover have "map_of rs' ++ map_of (m @ [(rp_hash r, rp_preimage r)])
        = (map_of rs')(rp_hash r \<mapsto> rp_preimage r) ++ map_of m" for rs'
      using True by (auto simp: map_add_def fun_eq_iff split: option.split)
    ultimately show ?thesis using True by (simp add: fun_upd_def)
  next
    case False
    then have "(f(rp_hash r \<mapsto> v)) ++ map_of m = f ++ map_of m" for f v
      by (auto simp: map_add_def fun_eq_iff split: option.split)
    with Cons.IH [OF Cons.prems] False show ?thesis by (simp add: fun_upd_def)
  qed
qed

lemma first_preimages_distinct: "distinct (map fst (first_preimages recorded))"
  using first_preimages_gen [of "[]" recorded] by (simp add: first_preimages_def)

lemma first_preimages_map:
  "map_of (first_preimages recorded) = map_of (map (\<lambda>r. (rp_hash r, rp_preimage r)) recorded)"
  using first_preimages_gen [of "[]" recorded] by (simp add: first_preimages_def)

lemma set_first_preimages: "set (map fst (first_preimages recorded)) = hashes_of recorded"
proof -
  have "dom (map_of (first_preimages recorded)) = hashes_of recorded"
    by (simp add: first_preimages_map hashes_of_def dom_map_of_conv_image_fst image_image)
  then show ?thesis by (simp add: dom_map_of_conv_image_fst)
qed

lemma sorted_hashes_props:
  "sorted (sorted_hashes recorded)" "set (sorted_hashes recorded) = hashes_of recorded"
  using bytes_sort.sorted_srt bytes_sort.set_srt set_first_preimages
  by (simp_all add: sorted_hashes_def)

lemma first_preimages_empty: "hashes_of recorded = {} \<longleftrightarrow> recorded = []"
  by (simp add: hashes_of_def)

lemma candidate_loop_length: "w \<in> set (candidate_loop off p) \<Longrightarrow> length w = 32"
proof (induction off p rule: candidate_loop.induct)
  case (1 off p)
  then show ?case
    by (cases "off + 32 \<le> length p") (auto simp: candidate_loop.simps [of off p])
qed

lemma candidate_length: "w \<in> set (innerKeccakHashCandidates p) \<Longrightarrow> length w = 32"
  by (auto simp: innerKeccakHashCandidates_def Let_def candidate_loop_length split: if_splits)

text \<open>The loop by offsets visits the consecutive 32-byte words.\<close>

lemma candidate_loop_words:
  "candidate_loop off p = map (\<lambda>k. take 32 (drop (off + 32 * k) p)) [0..<(length p - off) div 32]"
proof (induction off p rule: candidate_loop.induct)
  case (1 off p)
  show ?case
  proof (cases "off + 32 \<le> length p")
    case True
    define n where "n = (length p - (off + 32)) div 32"
    have n: "(length p - off) div 32 = Suc n"
      using True by (simp add: n_def le_div_geq)
    have "candidate_loop off p = take 32 (drop off p) # candidate_loop (off + 32) p"
      using True by (simp add: candidate_loop.simps [of off p])
    also have "candidate_loop (off + 32) p = map (\<lambda>k. take 32 (drop (off + 32 + 32 * k) p)) [0..<n]"
      using "1.IH" [OF True] by (simp add: n_def)
    finally show ?thesis
      unfolding n by (subst map_upt_Suc) (simp add: algebra_simps)
  next
    case False
    then show ?thesis by (simp add: candidate_loop.simps [of off p])
  qed
qed

subsection \<open>The worklist against a level-by-level specification\<close>

definition storage_words :: "Call list \<Rightarrow> bytes set" where
  "storage_words calls = {sc_Key ch | call ch. call \<in> set calls
     \<and> ch \<in> set (call_StorageChanges call) \<and> length (sc_Key ch) = 32}"

inductive explains :: "Call list \<Rightarrow> recordedPreimage list \<Rightarrow> nat \<Rightarrow> bytes \<Rightarrow> bool" where
  direct: "w \<in> storage_words calls \<Longrightarrow> is_slot_base (hashes_of recorded) w h
    \<Longrightarrow> explains calls recorded 0 h"
| nested: "explains calls recorded n p
    \<Longrightarrow> w \<in> set (innerKeccakHashCandidates (preimage_of recorded p))
    \<Longrightarrow> is_slot_base (hashes_of recorded) w h \<Longrightarrow> explains calls recorded (Suc n) h"

inductive_simps explains_0: "explains calls recorded 0 h"
inductive_simps explains_Suc: "explains calls recorded (Suc n) h"

definition grows :: "bytes set \<Rightarrow> keep_state \<Rightarrow> keep_state \<Rightarrow> bool" where
  "grows B s t \<longleftrightarrow> fst t = fst s \<union> B \<and> set (snd t) = set (snd s) \<union> (B - fst s)"

lemma grows_refl: "grows {} s s"
  by (simp add: grows_def)

lemma grows_trans: "grows A s t \<Longrightarrow> grows B t u \<Longrightarrow> grows (A \<union> B) s u"
  by (auto simp: grows_def)

lemma grows_fold:
  "(\<And>x s. x \<in> set xs \<Longrightarrow> grows (B x) s (f x s)) \<Longrightarrow> grows (\<Union>x \<in> set xs. B x) s (fold f xs s)"
proof (induction xs arbitrary: s)
  case Nil
  then show ?case by (simp add: grows_refl)
next
  case (Cons x xs)
  have "grows (B x) s (f x s)" using Cons.prems by simp
  moreover have "grows (\<Union>x \<in> set xs. B x) (f x s) (fold f xs (f x s))"
    by (rule Cons.IH) (use Cons.prems in auto)
  ultimately show ?case using grows_trans by simp
qed

definition bases :: "bytes list \<Rightarrow> bytes set \<Rightarrow> bytes set" where
  "bases hashes words = {b. \<exists>w \<in> words. keccakSlotBase hashes w = Some b}"

lemma grows_keep_base: "grows (bases hashes {w}) s (keep_base hashes w s)"
  by (cases s) (auto simp: grows_def keep_base_def bases_def split: option.split)

lemma bases_UN: "(\<Union>x \<in> X. bases hashes (f x)) = bases hashes (\<Union>x \<in> X. f x)"
  by (auto simp: bases_def)

lemma grows_storage_keys:
  "grows (bases hashes (storage_words calls)) s (keep_storage_keys hashes calls s)"
proof -
  let ?W = "\<lambda>ch. if length (sc_Key ch) \<noteq> 32 then {} else {sc_Key ch}"
  have step: "grows (bases hashes (?W ch)) s (if length (sc_Key ch) \<noteq> 32 then s else keep_base hashes (sc_Key ch) s)"
    for ch s using grows_keep_base [of hashes "sc_Key ch" s] grows_refl
    by (auto simp: bases_def)
  have "grows (\<Union>call \<in> set calls. \<Union>ch \<in> set (call_StorageChanges call). bases hashes (?W ch)) s
      (keep_storage_keys hashes calls s)"
    unfolding keep_storage_keys_def by (intro grows_fold step)
  moreover have "(\<Union>call \<in> set calls. \<Union>ch \<in> set (call_StorageChanges call). ?W ch) = storage_words calls"
    by (auto simp: storage_words_def)
  ultimately show ?thesis by (simp add: bases_UN)
qed

definition inner_bases :: "bytes list \<Rightarrow> (bytes \<times> bytes) list \<Rightarrow> bytes \<Rightarrow> bytes set" where
  "inner_bases hashes preimages h =
     bases hashes (set (innerKeccakHashCandidates (map_get preimages [] h)))"

lemma grows_inner:
  "grows (\<Union>h \<in> set frontier. inner_bases hashes preimages h) s (keep_inner hashes preimages frontier s)"
proof -
  have "grows (\<Union>w \<in> set ws. bases hashes {w}) s (fold (keep_base hashes) ws s)" for ws s
    by (intro grows_fold grows_keep_base)
  then have "grows (bases hashes (set ws)) s (fold (keep_base hashes) ws s)" for ws s
    by (simp add: bases_UN)
  then show ?thesis
    unfolding keep_inner_def inner_bases_def by (intro grows_fold) auto
qed

text \<open>
  The worklist visits each hash once; the levels \<open>L\<close> count every path. They reach the same hashes:
  a hash that is not new at a level was expanded at an earlier one.
\<close>

lemma keep_levels_reach:
  assumes step: "\<And>m. L (Suc m) = (\<Union>p \<in> L m. inner_bases hashes preimages p)"
  shows "K = (\<Union>m\<le>d. L m) \<Longrightarrow> set F \<subseteq> L d \<Longrightarrow> L d - (\<Union>m<d. L m) \<subseteq> set F
    \<Longrightarrow> keep_levels n hashes preimages (K, F) = (\<Union>m\<le>d + n. L m)"
proof (induction n arbitrary: K F d)
  case 0
  then show ?case by simp
next
  case (Suc n)
  let ?I = "inner_bases hashes preimages"
  show ?case
  proof (cases "F = []")
    case True
    then have base: "L d \<subseteq> (\<Union>m<d. L m)" using Suc.prems(3) by simp
    have "L (d + k) \<subseteq> (\<Union>m<d. L m)" for k
    proof (induction k)
      case 0
      with base show ?case by simp
    next
      case (Suc k)
      have "L (d + Suc k) \<subseteq> (\<Union>m<d. L (Suc m))" using Suc.IH by (force simp: step)
      also have "\<dots> \<subseteq> (\<Union>m<d. L m) \<union> L d"
      proof
        fix x assume "x \<in> (\<Union>m<d. L (Suc m))"
        then obtain m where "m < d" "x \<in> L (Suc m)" by auto
        then show "x \<in> (\<Union>m<d. L m) \<union> L d" by (cases "Suc m = d") auto
      qed
      finally show ?case using base by blast
    qed
    then have late: "L m \<subseteq> (\<Union>m<d. L m)" if "d \<le> m" for m using that by (metis le_add_diff_inverse)
    have "(\<Union>m<d. L m) \<subseteq> K" unfolding Suc.prems(1) by (intro UN_mono) auto
    moreover have "(\<Union>m\<le>d + Suc n. L m) \<subseteq> K \<union> (\<Union>m<d. L m)"
    proof
      fix x assume "x \<in> (\<Union>m\<le>d + Suc n. L m)"
      then obtain m where "x \<in> L m" by blast
      then show "x \<in> K \<union> (\<Union>m<d. L m)"
        using late [of m] Suc.prems(1) by (cases "d \<le> m") auto
    qed
    moreover have "K \<subseteq> (\<Union>m\<le>d + Suc n. L m)" unfolding Suc.prems(1) by (intro UN_mono) auto
    ultimately have "(\<Union>m\<le>d + Suc n. L m) = K" by blast
    with True show ?thesis by simp
  next
    case False
    obtain K' F' where st: "keep_inner hashes preimages F (K, []) = (K', F')" by fastforce
    define B where "B = (\<Union>h \<in> set F. ?I h)"
    have K': "K' = K \<union> B" and F': "set F' = B - K"
      using grows_inner [of hashes preimages F "(K, [])"] st by (auto simp: grows_def B_def)
    have B: "B \<subseteq> L (Suc d)" using Suc.prems(2) by (auto simp: B_def step)
    have Ld: "L (Suc d) \<subseteq> K \<union> B"
    proof
      fix x assume "x \<in> L (Suc d)"
      then obtain p where p: "p \<in> L d" "x \<in> ?I p" by (auto simp: step)
      show "x \<in> K \<union> B"
      proof (cases "p \<in> set F")
        case True
        with p show ?thesis by (auto simp: B_def)
      next
        case False
        with p Suc.prems(3) obtain m where "m < d" "p \<in> L m" by auto
        with p have "x \<in> L (Suc m)" "Suc m \<le> d" by (auto simp: step)
        then show ?thesis using Suc.prems(1) by blast
      qed
    qed
    have "keep_levels n hashes preimages (K', F') = (\<Union>m\<le>Suc d + n. L m)"
    proof (rule Suc.IH)
      show "K' = (\<Union>m\<le>Suc d. L m)" using B Ld K' Suc.prems(1) by (auto simp: atMost_Suc)
      show "set F' \<subseteq> L (Suc d)" using F' B by blast
      show "L (Suc d) - (\<Union>m<Suc d. L m) \<subseteq> set F'"
        using Ld F' Suc.prems(1) by (auto simp: lessThan_Suc_atMost)
    qed
    with False st show ?thesis by simp
  qed
qed

text \<open>Hashes are \<open>[32]byte\<close> arrays.\<close>

definition recorded_wf :: "recordedPreimage list \<Rightarrow> bool" where
  "recorded_wf recorded \<longleftrightarrow> (\<forall>r \<in> set recorded. is_bytes32 (rp_hash r))"

lemma bases_slot_base:
  assumes "recorded_wf recorded" and "\<forall>w \<in> W. length w = 32"
  shows "bases (sorted_hashes recorded) W = {h. \<exists>w \<in> W. is_slot_base (hashes_of recorded) w h}"
proof -
  have len: "\<forall>h \<in> set (sorted_hashes recorded). length h = 32"
    using assms(1) by (auto simp: sorted_hashes_props hashes_of_def recorded_wf_def is_bytes32_def)
  have "keccakSlotBase (sorted_hashes recorded) w = Some h \<longleftrightarrow> is_slot_base (hashes_of recorded) w h"
    if "w \<in> W" for w h
    using keccakSlotBase_spec [OF sorted_hashes_props(1) len] assms(2) that
    by (simp add: sorted_hashes_props)
  then show ?thesis by (auto simp: bases_def)
qed

lemma explains_levels:
  assumes "recorded_wf recorded"
  shows "keep_levels n (sorted_hashes recorded) (first_preimages recorded)
      (keep_storage_keys (sorted_hashes recorded) calls ({}, []))
    = {h. \<exists>m\<le>n. explains calls recorded m h}"
proof -
  let ?hs = "sorted_hashes recorded" and ?pre = "first_preimages recorded"
  define L where "L m = {h. explains calls recorded m h}" for m
  have L0: "L 0 = bases ?hs (storage_words calls)"
    by (subst bases_slot_base [OF assms]) (auto simp: L_def explains_0 storage_words_def)
  have inner: "inner_bases ?hs ?pre p = {h. \<exists>w \<in> set (innerKeccakHashCandidates (preimage_of recorded p)).
      is_slot_base (hashes_of recorded) w h}" for p
    using bases_slot_base [OF assms, of "set (innerKeccakHashCandidates (preimage_of recorded p))"]
    by (simp add: inner_bases_def preimage_of_def candidate_length)
  have step: "L (Suc m) = (\<Union>p \<in> L m. inner_bases ?hs ?pre p)" for m
    by (auto simp: L_def explains_Suc inner)
  obtain K F where KF: "keep_storage_keys ?hs calls ({}, []) = (K, F)" by fastforce
  have "K = L 0" and "set F = L 0"
    using grows_storage_keys [of ?hs calls "({}, [])"] KF L0 by (auto simp: grows_def)
  then have "keep_levels n ?hs ?pre (K, F) = (\<Union>m\<le>0 + n. L m)"
    by (intro keep_levels_reach step) auto
  then show ?thesis by (auto simp: KF L_def)
qed

text \<open>
  C16. The hashes \<open>storageSlotHashes\<close> keeps are exactly those that explain a written storage slot
  within 16 levels of nested hashing: a level-0 hash is the slot base of a 32-byte storage key (the
  largest recorded hash at or below the key, less than \<open>2 ^ 64\<close> below it), a level-\<open>n+1\<close> hash is
  the slot base of a candidate word inside the preimage of a level-\<open>n\<close> hash. The code's worklist,
  which visits each hash once and stops early, loses nothing.
\<close>

theorem storageSlotHashes_exact:
  assumes "recorded_wf recorded"
  shows "h \<in> storageSlotHashes calls recorded
    \<longleftrightarrow> (\<exists>n \<le> keccakFilterMaxDepth. explains calls recorded n h)"
  using explains_levels [OF assms, of keccakFilterMaxDepth calls]
  by (simp add: storageSlotHashes_def sorted_hashes_def Let_def)

subsection \<open>Attaching the kept preimages\<close>

lemma byIndex_distinct:
  assumes "distinct (map call_Index calls)"
  shows "byIndex calls idx = Some i \<longleftrightarrow> i < length calls \<and> call_Index (calls ! i) = idx"
proof -
  let ?ps = "rev (zip (map call_Index calls) [0..<length calls])"
  have "distinct (map fst ?ps)" using assms by (simp add: rev_map [symmetric])
  then have "byIndex calls idx = Some i \<longleftrightarrow> (idx, i) \<in> set ?ps"
    unfolding byIndex_def by (metis map_of_eq_Some_iff)
  moreover have "(idx, i) \<in> set ?ps \<longleftrightarrow> i < length calls \<and> map call_Index calls ! i = idx"
  proof
    assume *: "i < length calls \<and> map call_Index calls ! i = idx"
    then have "zip (map call_Index calls) [0..<length calls] ! i = (idx, i)" by simp
    then show "(idx, i) \<in> set ?ps" using * nth_mem [of i "zip (map call_Index calls) [0..<length calls]"]
      by simp
  qed (auto simp: in_set_zip)
  ultimately show ?thesis by auto
qed

text \<open>One recorded preimage against one call.\<close>

definition attach_one :: "bytes set \<Rightarrow> recordedPreimage \<Rightarrow> Call \<Rightarrow> Call" where
  "attach_one kept r call =
     (if rp_hash r \<in> kept \<and> call_Index call = rp_callIndex r
      then add_preimage (hex_EncodeToString (rp_hash r)) (hex_EncodeToString (rp_preimage r)) call
      else call)"

lemma attach_one_Index [simp]: "call_Index (attach_one kept r c) = call_Index c"
  by (simp add: attach_one_def add_preimage_def)

lemma attach_step_map:
  assumes "distinct (map call_Index calls)" and "map call_Index calls' = map call_Index calls"
  shows "attach_step (byIndex calls) kept r calls' = map (attach_one kept r) calls'"
proof -
  have len: "length calls' = length calls" using assms(2) by (metis length_map)
  have idx: "call_Index (calls' ! i) = call_Index (calls ! i)" if "i < length calls" for i
    using assms(2) that len by (metis nth_map)
  show ?thesis
  proof (cases "rp_hash r \<in> kept")
    case False
    then have "attach_one kept r = (\<lambda>c. c)" by (simp add: attach_one_def fun_eq_iff)
    with False show ?thesis by (simp add: attach_step_def)
  next
    case kept: True
    show ?thesis
    proof (cases "byIndex calls (rp_callIndex r)")
      case None
      then have "call_Index c \<noteq> rp_callIndex r" if "c \<in> set calls'" for c
        using byIndex_distinct [OF assms(1), of "rp_callIndex r"] that len idx
        by (metis in_set_conv_nth option.distinct(1))
      then have "map (attach_one kept r) calls' = calls'"
        by (intro map_idI) (simp add: attach_one_def)
      with kept None show ?thesis by (simp add: attach_step_def)
    next
      case (Some i)
      then have i: "i < length calls'" "call_Index (calls' ! i) = rp_callIndex r"
        using byIndex_distinct [OF assms(1)] len idx by auto
      have other: "call_Index (calls' ! j) \<noteq> rp_callIndex r" if "j < length calls'" "j \<noteq> i" for j
        using assms i that len by (metis distinct_conv_nth length_map nth_map)
      show ?thesis
        by (rule nth_equalityI)
           (use i other kept Some in \<open>auto simp: attach_step_def attach_one_def nth_list_update\<close>)
    qed
  qed
qed

lemma attach_fold_map:
  "distinct (map call_Index calls) \<Longrightarrow> map call_Index calls' = map call_Index calls \<Longrightarrow>
    fold (attach_step (byIndex calls) kept) rs calls' = map (fold (attach_one kept) rs) calls'"
proof (induction rs arbitrary: calls')
  case Nil
  then show ?case by (simp add: map_idI)
next
  case (Cons r rs)
  have "map call_Index (map (attach_one kept r) calls') = map call_Index calls"
    using Cons.prems(2) by (simp add: comp_def)
  note Cons.IH [OF Cons.prems(1) this]
  then show ?case using attach_step_map [OF Cons.prems] by simp
qed

text \<open>What a call's map holds afterwards: its old entries, then the first kept preimage per hash.\<close>

definition preimages_for :: "bytes set \<Rightarrow> recordedPreimage list \<Rightarrow> Call \<Rightarrow> (string \<rightharpoonup> string)" where
  "preimages_for kept recorded call =
     map_of (map (\<lambda>r. (hex_EncodeToString (rp_hash r), hex_EncodeToString (rp_preimage r)))
       (filter (\<lambda>r. rp_hash r \<in> kept \<and> rp_callIndex r = call_Index call) recorded))
     ++ call_KeccakPreimages call"

lemma fold_attach_one:
  "fold (attach_one kept) rs call = call\<lparr>call_KeccakPreimages := preimages_for kept rs call\<rparr>"
proof (induction rs arbitrary: call)
  case Nil
  then show ?case by (simp add: preimages_for_def)
next
  case (Cons r rs)
  have "preimages_for kept rs (attach_one kept r call) = preimages_for kept (r # rs) call"
    by (auto simp: preimages_for_def attach_one_def add_preimage_def map_add_def fun_eq_iff
        split: option.split)
  moreover have "(attach_one kept r call)\<lparr>call_KeccakPreimages := m\<rparr>
      = call\<lparr>call_KeccakPreimages := m\<rparr>" for m
    by (simp add: attach_one_def add_preimage_def)
  ultimately show ?case by (simp add: Cons.IH)
qed

text \<open>
  C32. When the calls have distinct indexes, \<open>attachStorageSlotPreimages\<close> changes nothing but the
  \<open>KeccakPreimages\<close> of each call, which becomes its former entries plus, for every kept hash
  recorded by that call, the hex-encoded preimage recorded first. A hash that explains no slot is
  attached to no call, and both early returns agree with this.
\<close>

theorem attachStorageSlotPreimages_spec:
  assumes "distinct (map call_Index calls)"
  shows "attachStorageSlotPreimages calls recorded
    = map (\<lambda>c. c\<lparr>call_KeccakPreimages := preimages_for (storageSlotHashes calls recorded) recorded c\<rparr>) calls"
proof -
  have none: "map (\<lambda>c. c\<lparr>call_KeccakPreimages := preimages_for K [] c\<rparr>) calls = calls"
    "map (\<lambda>c. c\<lparr>call_KeccakPreimages := preimages_for {} recorded c\<rparr>) calls = calls" for K
    by (auto intro!: map_idI simp: preimages_for_def)
  show ?thesis
    using attach_fold_map [OF assms refl] none
    by (auto simp: attachStorageSlotPreimages_def Let_def fold_attach_one)
qed

end
