(* ===== verification/Tracer.thy ===== *)
theory Tracer
  imports CallStacks Deferred Finality SetCode KeccakFilter
begin

section \<open>The tracer's state, its resets and its state checks (tracer.go)\<close>

text \<open>
  One record holds what the Go struct holds that its hooks read or write; loggers, scratch buffers
  and mutexes are left out. Hooks are functions \<open>tracer \<Rightarrow> go_panic + tracer\<close>: a panic stops
  the node, so what the state was then does not matter. What is written to the output stream or
  pushed on the flush queue is the list \<open>t_output\<close>, oldest first.

  Pointers: a block, a transaction trace and a call each have one owner in the state, except that
  a flash block snapshot points to the block being traced until that block ends
  (\<open>sn_block = None\<close>), and that a completed isolated transaction is both \<open>t_transaction\<close> and
  \<open>t_transactionTransient\<close>.
\<close>

subsection \<open>State\<close>

record blockOutput =
  bo_block :: Block
  bo_libNum :: u64
  bo_printedFlashBlockIndex :: u64

datatype output_item = InitLine string | BlockLine blockOutput

text \<open>
  \<open>flashBlockSnapshot\<close>. \<open>sn_block\<close> is \<open>None\<close> while the snapshot's block is the tracer's current one.
\<close>

record flashBlockSnapshot =
  sn_block :: "Block option"
  sn_txTracesLen :: nat
  sn_systemCallsLen :: nat
  sn_balanceChangesLen :: nat
  sn_codeChangesLen :: nat
  sn_ordinal :: u64
  sn_flashIndex :: u64

record interruptedTransactionState =
  it_transaction :: "TransactionTrace option"
  it_transactionLogIndex :: u32
  it_transactionStateReader :: "StateReader option"
  it_transactionKeccakPreimages :: "recordedPreimage list"
  it_callStack :: CallStack
  it_deferredCallState :: DeferredCallState
  it_latestCallEnterSuicided :: bool
  it_latestCallEnterSuicidedDepth :: int

record tracer =
  t_initSent :: bool
  t_config :: Config
  t_chainConfig :: "ChainConfig option"
  t_concurrentFlush :: bool
  t_output :: "output_item list"
  t_block :: "Block option"
  t_blockBaseFee :: "int option"
  t_blockOrdinal :: Ordinal
  t_blockFinality :: FinalityStatus
  t_blockRules :: Rules
  t_blockReorderOrdinal :: bool
  t_blockReorderOrdinalSnapshot :: u64
  t_blockIsGenesis :: bool
  t_transaction :: "TransactionTrace option"
  t_transactionLogIndex :: u32
  t_transactionStateReader :: "StateReader option"
  t_inSystemCall :: bool
  t_transactionKeccakPreimages :: "recordedPreimage list"
  t_interruptedTransaction :: "interruptedTransactionState option"
  t_transactionIsolated :: bool
  t_transactionTransient :: "TransactionTrace option"
  t_transactionDropped :: bool
  t_callStack :: CallStack
  t_deferredCallState :: DeferredCallState
  t_latestCallEnterSuicided :: bool
  t_latestCallEnterSuicidedDepth :: int
  t_flashBlockIndex :: "u64 option"
  t_flashBlockIsFinal :: bool
  t_snapshotForNextFlashBlock :: "flashBlockSnapshot option"

definition NewTracer :: "Config \<Rightarrow> tracer" where
  "NewTracer config = \<lparr>t_initSent = False, t_config = config, t_chainConfig = cfg_ChainConfig config,
     t_concurrentFlush = (cfg_EnableConcurrentFlushing config \<and> cfg_ConcurrentBufferSize config > 0),
     t_output = [], t_block = None, t_blockBaseFee = None, t_blockOrdinal = new_Ordinal,
     t_blockFinality = new_Finality, t_blockRules = no_Rules, t_blockReorderOrdinal = False,
     t_blockReorderOrdinalSnapshot = 0, t_blockIsGenesis = False, t_transaction = None,
     t_transactionLogIndex = 0, t_transactionStateReader = None, t_inSystemCall = False,
     t_transactionKeccakPreimages = [], t_interruptedTransaction = None,
     t_transactionIsolated = False, t_transactionTransient = None, t_transactionDropped = False,
     t_callStack = NewCallStack, t_deferredCallState = NewDeferredCallState,
     t_latestCallEnterSuicided = False, t_latestCallEnterSuicidedDepth = 0,
     t_flashBlockIndex = None, t_flashBlockIsFinal = False, t_snapshotForNextFlashBlock = None\<rparr>"

subsection \<open>Panics\<close>

text \<open>The messages \<open>panicInvalidState\<close> is called with, and what it adds to them.\<close>

datatype invalid_msg =
    MsgNotInitialized
  | MsgNotInBlock
  | MsgInBlock
  | MsgNotInTransaction
  | MsgInTransaction
  | MsgNotInBlockOrTransaction
  | MsgNotInBlockAndTransaction
  | MsgNotInCall
  | MsgInCall
  | MsgNotInSystemCall
  | MsgSkippedInTransaction
  | MsgFlashIndex u64 u64 u64
  | MsgSpawnOnIsolated
  | MsgResetOnCoordinator
  | MsgNoRootCall
  | MsgLogBlockIndexMismatch nat u32 u32
  | MsgUnexpectedCallType byte
  | MsgSystemCallInSystemCall
  | MsgSystemCallNoRootCall

record state_report =
  rep_block :: "(u64 \<times> string) option"
  rep_transaction :: "string option"
  rep_init :: bool
  rep_inBlock :: bool
  rep_inTransaction :: bool
  rep_inCall :: bool
  rep_isolated :: bool

datatype go_panic =
    InvalidState invalid_msg state_report
  | InitCalledTwice
  | PopulateFailed deferred_error
  | LogCountMismatch nat nat
  | NilDereference
  | IndexOutOfRange
  | CryptoPanic

definition panicInvalidState :: "tracer \<Rightarrow> invalid_msg \<Rightarrow> go_panic" where
  "panicInvalidState t msg = InvalidState msg
     \<lparr>rep_block = map_option (\<lambda>b. (blk_Number b, hex_EncodeToString (blk_Hash b))) (t_block t),
      rep_transaction = map_option (\<lambda>x. hex_EncodeToString (trx_Hash x)) (t_transaction t),
      rep_init = (t_chainConfig t \<noteq> None), rep_inBlock = (t_block t \<noteq> None),
      rep_inTransaction = (t_transaction t \<noteq> None),
      rep_inCall = cs_HasActiveCall (t_callStack t), rep_isolated = t_transactionIsolated t\<rparr>"

subsection \<open>State validation\<close>

definition check :: "bool \<Rightarrow> tracer \<Rightarrow> invalid_msg \<Rightarrow> go_panic option" where
  "check ok t msg = (if ok then None else Some (panicInvalidState t msg))"

lemma check_None_iff [hook_simps]: "check ok t msg = None \<longleftrightarrow> ok"
  by (simp add: check_def)

lemma check_Some_iff [hook_simps]:
  "check ok t msg = Some p \<longleftrightarrow> \<not> ok \<and> p = panicInvalidState t msg"
  by (auto simp: check_def)

definition ensureBlockChainInit :: "tracer \<Rightarrow> go_panic option" where
  "ensureBlockChainInit t = check (t_chainConfig t \<noteq> None) t MsgNotInitialized"

definition ensureInBlock :: "tracer \<Rightarrow> go_panic option" where
  "ensureInBlock t = or_else (check (t_block t \<noteq> None) t MsgNotInBlock)
     (check (t_chainConfig t \<noteq> None) t MsgNotInitialized)"

definition ensureNotInBlock :: "tracer \<Rightarrow> go_panic option" where
  "ensureNotInBlock t = check (t_block t = None) t MsgInBlock"

definition ensureInBlockAndInTrx :: "tracer \<Rightarrow> go_panic option" where
  "ensureInBlockAndInTrx t =
     or_else (ensureInBlock t) (check (t_transaction t \<noteq> None) t MsgNotInTransaction)"

definition ensureInBlockAndNotInTrx :: "tracer \<Rightarrow> go_panic option" where
  "ensureInBlockAndNotInTrx t =
     or_else (ensureInBlock t) (check (t_transaction t = None) t MsgInTransaction)"

definition ensureInBlockAndNotInTrxAndNotInCall :: "tracer \<Rightarrow> go_panic option" where
  "ensureInBlockAndNotInTrxAndNotInCall t =
     or_else (ensureInBlock t)
       (or_else (check (t_transaction t = None) t MsgInTransaction)
         (check (\<not> cs_HasActiveCall (t_callStack t)) t MsgInCall))"

definition ensureInBlockOrTrx :: "tracer \<Rightarrow> go_panic option" where
  "ensureInBlockOrTrx t =
     check (\<not> (t_transaction t = None \<and> t_block t = None)) t MsgNotInBlockOrTransaction"

definition ensureInBlockAndInTrxAndInCall :: "tracer \<Rightarrow> go_panic option" where
  "ensureInBlockAndInTrxAndInCall t =
     or_else (check (\<not> (t_transaction t = None \<or> t_block t = None)) t MsgNotInBlockAndTransaction)
       (check (cs_HasActiveCall (t_callStack t)) t MsgNotInCall)"

definition ensureInCall :: "tracer \<Rightarrow> go_panic option" where
  "ensureInCall t = check (cs_HasActiveCall (t_callStack t)) t MsgNotInCall"

definition ensureInSystemCall :: "tracer \<Rightarrow> go_panic option" where
  "ensureInSystemCall t = check (t_inSystemCall t) t MsgNotInSystemCall"

lemmas ensure_defs = ensureBlockChainInit_def ensureInBlock_def ensureNotInBlock_def
  ensureInBlockAndInTrx_def ensureInBlockAndNotInTrx_def ensureInBlockAndNotInTrxAndNotInCall_def
  ensureInBlockOrTrx_def ensureInBlockAndInTrxAndInCall_def ensureInCall_def ensureInSystemCall_def

lemma ensure_None_iff [hook_simps]:
  "ensureBlockChainInit t = None \<longleftrightarrow> t_chainConfig t \<noteq> None"
  "ensureInBlock t = None \<longleftrightarrow> t_block t \<noteq> None \<and> t_chainConfig t \<noteq> None"
  "ensureInBlockAndInTrx t = None \<longleftrightarrow>
     t_block t \<noteq> None \<and> t_chainConfig t \<noteq> None \<and> t_transaction t \<noteq> None"
  "ensureInBlockAndNotInTrx t = None \<longleftrightarrow>
     t_block t \<noteq> None \<and> t_chainConfig t \<noteq> None \<and> t_transaction t = None"
  "ensureInBlockAndNotInTrxAndNotInCall t = None \<longleftrightarrow>
     t_block t \<noteq> None \<and> t_chainConfig t \<noteq> None \<and> t_transaction t = None
     \<and> cs_stack (t_callStack t) = []"
  "ensureInBlockOrTrx t = None \<longleftrightarrow> t_transaction t \<noteq> None \<or> t_block t \<noteq> None"
  "ensureInBlockAndInTrxAndInCall t = None \<longleftrightarrow>
     t_transaction t \<noteq> None \<and> t_block t \<noteq> None \<and> cs_stack (t_callStack t) \<noteq> []"
  "ensureInSystemCall t = None \<longleftrightarrow> t_inSystemCall t"
  by (auto simp: ensure_defs hook_simps)

subsection \<open>Resets\<close>

definition resetBlock :: "tracer \<Rightarrow> tracer" where
  "resetBlock t = t\<lparr>t_block := None, t_blockBaseFee := None,
     t_blockOrdinal := ordinal_Reset (t_blockOrdinal t),
     t_blockFinality := finality_Reset (t_blockFinality t), t_blockRules := no_Rules,
     t_blockReorderOrdinal := False, t_blockReorderOrdinalSnapshot := 0,
     t_blockIsGenesis := False, t_interruptedTransaction := None,
     t_flashBlockIndex := None, t_flashBlockIsFinal := False\<rparr>"

definition resetTransaction :: "tracer \<Rightarrow> tracer" where
  "resetTransaction t = t\<lparr>t_transaction := None, t_transactionLogIndex := 0,
     t_transactionStateReader := None, t_inSystemCall := False, t_transactionTransient := None,
     t_transactionKeccakPreimages := [], t_callStack := cs_Reset (t_callStack t),
     t_latestCallEnterSuicided := False, t_deferredCallState := df_Reset (t_deferredCallState t)\<rparr>"

lemma resetTransaction_fields [reset_simps, simp]:
  "t_transaction (resetTransaction t) = None"
  "t_transactionLogIndex (resetTransaction t) = 0"
  "t_inSystemCall (resetTransaction t) = False"
  "t_transactionTransient (resetTransaction t) = None"
  "t_transactionKeccakPreimages (resetTransaction t) = []"
  "t_callStack (resetTransaction t) = NewCallStack"
  "t_deferredCallState (resetTransaction t) = NewDeferredCallState"
  "t_block (resetTransaction t) = t_block t"
  "t_blockOrdinal (resetTransaction t) = t_blockOrdinal t"
  "t_config (resetTransaction t) = t_config t"
  "t_chainConfig (resetTransaction t) = t_chainConfig t"
  "t_interruptedTransaction (resetTransaction t) = t_interruptedTransaction t"
  "t_snapshotForNextFlashBlock (resetTransaction t) = t_snapshotForNextFlashBlock t"
  "t_flashBlockIndex (resetTransaction t) = t_flashBlockIndex t"
  "t_transactionIsolated (resetTransaction t) = t_transactionIsolated t"
  "t_output (resetTransaction t) = t_output t"
  by (simp_all add: resetTransaction_def)

lemma resetBlock_fields [reset_simps, simp]:
  "t_block (resetBlock t) = None"
  "ord_value (t_blockOrdinal (resetBlock t)) = 0"
  "t_interruptedTransaction (resetBlock t) = None"
  "t_flashBlockIndex (resetBlock t) = None"
  "t_transaction (resetBlock t) = t_transaction t"
  "t_callStack (resetBlock t) = t_callStack t"
  "t_deferredCallState (resetBlock t) = t_deferredCallState t"
  "t_config (resetBlock t) = t_config t"
  "t_chainConfig (resetBlock t) = t_chainConfig t"
  "t_snapshotForNextFlashBlock (resetBlock t) = t_snapshotForNextFlashBlock t"
  "t_transactionIsolated (resetBlock t) = t_transactionIsolated t"
  "t_output (resetBlock t) = t_output t"
  by (simp_all add: resetBlock_def)

subsection \<open>Taking an ordinal, writing to the active call, emitting output\<close>

text \<open>\<open>t.blockOrdinal.Next()\<close>\<close>

definition next_ordinal :: "tracer \<Rightarrow> u64 \<times> tracer" where
  "next_ordinal t = (let (v, o1) = ordinal_Next (t_blockOrdinal t) in (v, t\<lparr>t_blockOrdinal := o1\<rparr>))"

definition active_call :: "tracer \<Rightarrow> Call option" where
  "active_call t = cs_Peek (t_callStack t)"

text \<open>A write through the pointer \<open>t.callStack.Peek()\<close> returned.\<close>

definition update_active :: "(Call \<Rightarrow> Call) \<Rightarrow> tracer \<Rightarrow> tracer" where
  "update_active f t = t\<lparr>t_callStack := cs_update_top f (t_callStack t)\<rparr>"

definition update_block :: "(Block \<Rightarrow> Block) \<Rightarrow> tracer \<Rightarrow> tracer" where
  "update_block f t = t\<lparr>t_block := map_option f (t_block t)\<rparr>"

text \<open>
  A write through the pointer \<open>t.transaction\<close>. When \<open>t.transactionTransient\<close> is set it is the same
  pointer, so that the write shows there too.
\<close>

definition update_transaction :: "(TransactionTrace \<Rightarrow> TransactionTrace) \<Rightarrow> tracer \<Rightarrow> tracer" where
  "update_transaction f t = t\<lparr>t_transaction := map_option f (t_transaction t),
     t_transactionTransient := map_option f (t_transactionTransient t)\<rparr>"

definition update_deferred :: "(DeferredCallState \<Rightarrow> DeferredCallState) \<Rightarrow> tracer \<Rightarrow> tracer" where
  "update_deferred f t = t\<lparr>t_deferredCallState := f (t_deferredCallState t)\<rparr>"

definition emit :: "output_item \<Rightarrow> tracer \<Rightarrow> tracer" where
  "emit x t = t\<lparr>t_output := t_output t @ [x]\<rparr>"

lemmas update_defs = update_active_def update_block_def update_transaction_def update_deferred_def
  emit_def

lemma next_ordinal_eq [simp]:
  "next_ordinal t = (ord_value (t_blockOrdinal t) + 1,
     t\<lparr>t_blockOrdinal := snd (ordinal_Next (t_blockOrdinal t))\<rparr>)"
  by (simp add: next_ordinal_def case_prod_beta)

lemma active_call_None [simp]: "active_call t = None \<longleftrightarrow> cs_stack (t_callStack t) = []"
  by (simp add: active_call_def)

subsection \<open>Initialization (OnBlockchainInit)\<close>

definition ProtocolVersion :: string where
  "ProtocolVersion = ''3.1''"

text \<open>\<open>fmt.Sprintln\<close> of strings: spaces between them, a newline after.\<close>

fun Sprintln :: "string list \<Rightarrow> string" where
  "Sprintln [] = [CHR 0x0A]"
| "Sprintln [s] = s @ [CHR 0x0A]"
| "Sprintln (s # t # ss) = s @ CHR '' '' # Sprintln (t # ss)"

definition OnBlockchainInit ::
    "Crypto \<Rightarrow> string \<Rightarrow> string \<Rightarrow> ChainConfig \<Rightarrow> (Config \<Rightarrow> Config) option \<Rightarrow> tracer \<Rightarrow> go_panic + tracer" where
  "OnBlockchainInit cr nodeName nodeVersion chainConfig configFunc t =
     (if t_initSent t then Inl InitCalledTwice
      else let t = t\<lparr>t_initSent := True\<rparr>;
               t = emit (InitLine (Sprintln [''FIRE INIT'', ProtocolVersion,
                     ''firehose-evm-tracer/'' @ nodeName, nodeVersion])) t;
               chainConfig = (if ch_SetCodeAuthRecovery chainConfig = None
                 then chainConfig\<lparr>ch_SetCodeAuthRecovery := Some (DefaultSetCodeAuthRecovery cr)\<rparr>
                 else chainConfig);
               t = t\<lparr>t_chainConfig := Some chainConfig\<rparr>
           in Inr (case configFunc of None \<Rightarrow> t | Some f \<Rightarrow> t\<lparr>t_config := f (t_config t)\<rparr>))"

end
