(* ===== verification/TracerCalls.thy ===== *)
theory TracerCalls
  imports Tracer
begin

section \<open>The call hooks (tracer.go)\<close>

text \<open>
  \<open>OnCallEnter\<close> and \<open>OnCallExit\<close>, with what they decide: the protobuf type of a call, the EIP-7702
  delegation of the code it runs, the failure and the revert status. Then the opcode hooks and the
  recording of keccak preimages. Arguments are in the source's order, the tracer last; log lines
  are left out.
\<close>

definition TextExecutionRevertedErr :: string where
  "TextExecutionRevertedErr = ''execution reverted''"

definition TextInsufficientBalanceTransferErr :: string where
  "TextInsufficientBalanceTransferErr = ''insufficient balance for transfer''"

definition TextMaxCallDepthErr :: string where
  "TextMaxCallDepthErr = ''max call depth exceeded''"

subsection \<open>Call types\<close>

definition callTypeToProto :: "byte \<Rightarrow> CallType" where
  "callTypeToProto ct =
     (if ct = CallTypeCall then CALL
      else if ct = CallTypeCallCode then CALLCODE
      else if ct = CallTypeDelegateCall then DELEGATE
      else if ct = CallTypeStaticCall then STATIC
      else if ct = CallTypeCreate then CREATE
      else if ct = CallTypeCreate2 then CREATE
      else if ct = CallTypeSelfDestruct then UNSPECIFIED
      else UNSPECIFIED)"

lemma callTypeToProto_UNSPECIFIED_iff:
  "callTypeToProto ct = UNSPECIFIED \<longleftrightarrow>
     ct \<notin> {CallTypeCall, CallTypeCallCode, CallTypeDelegateCall, CallTypeStaticCall,
            CallTypeCreate, CallTypeCreate2}"
  by (simp add: callTypeToProto_def)

lemma callTypeToProto_CREATE_iff:
  "callTypeToProto ct = CREATE \<longleftrightarrow> ct = CallTypeCreate \<or> ct = CallTypeCreate2"
  by (auto simp: callTypeToProto_def CallType_defs)

subsection \<open>Delegation designators\<close>

definition delegationPrefix :: bytes where
  "delegationPrefix = [0xef, 0x01, 0x00]"

text \<open>\<open>Some target\<close> is the Go pair \<open>(target, true)\<close>.\<close>

definition parseDelegation :: "bytes \<Rightarrow> bytes option" where
  "parseDelegation code =
     (if length code \<noteq> 23 \<or> take (length delegationPrefix) code \<noteq> delegationPrefix then None
      else Some (copy_into 20 (drop (length delegationPrefix) code)))"

lemma parseDelegation_iff:
  "parseDelegation code = Some addr \<longleftrightarrow> length addr = 20 \<and> code = delegationPrefix @ addr"
proof
  assume "parseDelegation code = Some addr"
  then have l: "length code = 23" and p: "take 3 code = delegationPrefix"
    and a: "addr = copy_into 20 (drop 3 code)"
    by (auto simp: parseDelegation_def delegationPrefix_def numeral_3_eq_3 split: if_splits)
  have "addr = drop 3 code" using a l by (simp add: copy_into_def)
  moreover have "code = delegationPrefix @ drop 3 code"
    using p by (metis append_take_drop_id)
  ultimately show "length addr = 20 \<and> code = delegationPrefix @ addr" using l by simp
next
  assume "length addr = 20 \<and> code = delegationPrefix @ addr"
  then show "parseDelegation code = Some addr"
    by (simp add: parseDelegation_def delegationPrefix_def copy_into_def)
qed

subsection \<open>OnCallEnter\<close>

text \<open>The delegation lookup: the code of the target account, read once, parsed.\<close>

definition delegates_to :: "CallType \<Rightarrow> bytes \<Rightarrow> tracer \<Rightarrow> bytes option" where
  "delegates_to typ addr t =
     (if ru_IsPrague (t_blockRules t) \<and> \<not> t_inSystemCall t \<and> \<not> t_blockIsGenesis t \<and> typ \<noteq> CREATE
      then case t_transactionStateReader t of
             None \<Rightarrow> None
           | Some reader \<Rightarrow>
               let code = sr_GetCode reader addr
               in if length code \<noteq> 0 then parseDelegation code else None
      else None)"

definition OnCallEnter ::
    "int \<Rightarrow> byte \<Rightarrow> bytes \<Rightarrow> bytes \<Rightarrow> bytes \<Rightarrow> u64 \<Rightarrow> int option \<Rightarrow> tracer \<Rightarrow> go_panic + tracer" where
  "OnCallEnter depth typ caller target input gas value t =
     (if typ = CallTypeSelfDestruct
      then Inr (t\<lparr>t_latestCallEnterSuicided := True, t_latestCallEnterSuicidedDepth := depth\<rparr>)
      else
        let callType = callTypeToProto typ;
            (beginOrdinal, t) = next_ordinal t;
            call = empty_Call\<lparr>call_CallType := callType, call_Caller := caller, call_Address := target,
              call_Value := bigIntToProtobuf value, call_GasLimit := gas, call_GasConsumed := 0,
              call_Input := input, call_BeginOrdinal := beginOrdinal\<rparr>
        in guard (check (callType \<noteq> UNSPECIFIED) t (MsgUnexpectedCallType typ))
             (let call = call\<lparr>call_AddressDelegatesTo := delegates_to callType target t\<rparr>
              in bindR (if depth = 0
                        then case MaybePopulateCallAndReset ''enter'' call (t_deferredCallState t) of
                               Inl err \<Rightarrow> Inl (PopulateFailed err)
                             | Inr (call, d) \<Rightarrow> Inr (call, t\<lparr>t_deferredCallState := d\<rparr>)
                        else Inr (call, t))
                   (\<lambda>(call, t). Inr (t\<lparr>t_callStack := cs_Push call (t_callStack t)\<rparr>))))"

subsection \<open>OnCallExit\<close>

text \<open>What \<open>OnCallExit\<close> writes to the popped call before it takes the end ordinal.\<close>

definition exit_call :: "bytes \<Rightarrow> u64 \<Rightarrow> go_error option \<Rightarrow> bool \<Rightarrow> Call \<Rightarrow> Call" where
  "exit_call output gasUsed err reverted call =
     (let call = call\<lparr>call_GasConsumed := gasUsed\<rparr>;
          call = (if call_CallType call \<noteq> CREATE
                  then call\<lparr>call_ReturnData := output\<rparr> else call)
      in if reverted
         then call\<lparr>call_FailureReason := (case err of None \<Rightarrow> [] | Some e \<Rightarrow> err_text e),
                call_StatusFailed := True,
                call_StatusReverted := errorIsString err TextExecutionRevertedErr
                  \<or> errorIsString err TextInsufficientBalanceTransferErr
                  \<or> errorIsString err TextMaxCallDepthErr\<rparr>
         else call)"

definition OnCallExit ::
    "int \<Rightarrow> bytes \<Rightarrow> u64 \<Rightarrow> go_error option \<Rightarrow> bool \<Rightarrow> tracer \<Rightarrow> go_panic + tracer" where
  "OnCallExit depth output gasUsed err reverted t =
     (if t_latestCallEnterSuicided t then Inr (t\<lparr>t_latestCallEnterSuicided := False\<rparr>)
      else guard (ensureInBlockAndInTrxAndInCall t)
        (case cs_Pop (t_callStack t) of
           (None, _) \<Rightarrow> Inl NilDereference
         | (Some call, cs) \<Rightarrow>
             let t = t\<lparr>t_callStack := cs\<rparr>;
                 call = exit_call output gasUsed err reverted call;
                 (endOrdinal, t) = next_ordinal t;
                 call = call\<lparr>call_EndOrdinal := endOrdinal\<rparr>
             in Inr (update_transaction
                  (\<lambda>trx. trx\<lparr>trx_Calls := trx_Calls trx @ [call]\<rparr>) t)))"

lemma exit_call_fields [simp]:
  "call_Index (exit_call output gasUsed err reverted c) = call_Index c"
  "call_ParentIndex (exit_call output gasUsed err reverted c) = call_ParentIndex c"
  "call_Depth (exit_call output gasUsed err reverted c) = call_Depth c"
  "call_BeginOrdinal (exit_call output gasUsed err reverted c) = call_BeginOrdinal c"
  "call_BalanceChanges (exit_call output gasUsed err reverted c) = call_BalanceChanges c"
  "call_NonceChanges (exit_call output gasUsed err reverted c) = call_NonceChanges c"
  "call_CodeChanges (exit_call output gasUsed err reverted c) = call_CodeChanges c"
  "call_StorageChanges (exit_call output gasUsed err reverted c) = call_StorageChanges c"
  "call_Logs (exit_call output gasUsed err reverted c) = call_Logs c"
  by (simp_all add: exit_call_def Let_def)

text \<open>
  C37. The failure a call ends with: only a reverted exit marks the call failed; it counts as reverted
  exactly when the text of the error, or of an error it wraps, is one of the three that cost no
  gas, and the reason recorded is the text of the outer error. Output is kept for all but creations.
\<close>

theorem exit_call_status:
  "exit_call output gasUsed err False c
     = c\<lparr>call_GasConsumed := gasUsed,
         call_ReturnData := (if call_CallType c = CREATE then call_ReturnData c else output)\<rparr>
   \<and> call_StatusFailed (exit_call output gasUsed err True c)
   \<and> (call_StatusReverted (exit_call output gasUsed err True c) \<longleftrightarrow>
        set (error_chain err) \<inter> {TextExecutionRevertedErr, TextInsufficientBalanceTransferErr,
          TextMaxCallDepthErr} \<noteq> {})
   \<and> call_FailureReason (exit_call output gasUsed err True c)
        = (case error_chain err of [] \<Rightarrow> [] | msg # _ \<Rightarrow> msg)"
proof -
  have "(case err of None \<Rightarrow> [] | Some e \<Rightarrow> err_text e)
      = (case error_chain err of [] \<Rightarrow> [] | msg # _ \<Rightarrow> msg)"
    by (cases err rule: error_chain.cases) simp_all
  then show ?thesis by (auto simp: exit_call_def Let_def errorIsString_chain)
qed

subsection \<open>Opcodes and keccak preimages\<close>

definition OnOpcode ::
    "u64 \<Rightarrow> byte \<Rightarrow> u64 \<Rightarrow> u64 \<Rightarrow> bytes \<Rightarrow> int \<Rightarrow> go_error option \<Rightarrow> tracer \<Rightarrow> go_panic + tracer" where
  "OnOpcode pc op1 gas cost rData depth err t =
     (case active_call t of
        None \<Rightarrow> Inr t
      | Some _ \<Rightarrow>
          let t = update_active (\<lambda>c. c\<lparr>call_ExecutedCode := True\<rparr>) t
          in if err \<noteq> None then Inr t
             else if op1 = 0xff then Inr (update_active (\<lambda>c. c\<lparr>call_Suicide := True\<rparr>) t)
             else Inr t)"

definition OnOpcodeFault ::
    "u64 \<Rightarrow> byte \<Rightarrow> u64 \<Rightarrow> u64 \<Rightarrow> int \<Rightarrow> go_error option \<Rightarrow> tracer \<Rightarrow> go_panic + tracer" where
  "OnOpcodeFault pc op1 gas cost depth err t =
     (case active_call t of
        None \<Rightarrow> Inr t
      | Some _ \<Rightarrow> Inr (update_active (\<lambda>c. c\<lparr>call_ExecutedCode := True\<rparr>) t))"

definition OnKeccakPreimage :: "bytes \<Rightarrow> bytes \<Rightarrow> tracer \<Rightarrow> go_panic + tracer" where
  "OnKeccakPreimage hash preimage t =
     guard (ensureInBlockAndInTrxAndInCall t)
       (if length preimage > maxKeccakPreimageSize then Inr t
        else case active_call t of
               None \<Rightarrow> Inl NilDereference
             | Some call \<Rightarrow> Inr (t\<lparr>t_transactionKeccakPreimages := t_transactionKeccakPreimages t @
                 [\<lparr>rp_callIndex = call_Index call, rp_hash = hash, rp_preimage = preimage\<rparr>]\<rparr>))"

end
