(* ===== verification/TracerChanges.thy ===== *)
theory TracerChanges
  imports TracerCalls
begin

section \<open>The state change and log hooks (tracer.go)\<close>

text \<open>
  Each hook drops a no-op change, checks the state, takes an ordinal and files the change: in the
  active call, in the deferred state when no call is active, or in the block when no transaction
  is being traced (balance and code changes only).
\<close>

definition OnBalanceChange ::
    "bytes \<Rightarrow> int option \<Rightarrow> int option \<Rightarrow> BalanceChange_Reason \<Rightarrow> tracer \<Rightarrow> go_panic + tracer" where
  "OnBalanceChange addr oldBalance newBalance reason t =
     (if reason = REASON_UNKNOWN then Inr t
      else if bigIntEqual oldBalance newBalance then Inr t
      else guard (ensureInBlockOrTrx t)
        (let (ordinal, t) = next_ordinal t;
             change = \<lparr>bc_Ordinal = ordinal, bc_Address = addr,
               bc_OldValue = bigIntToProtobuf oldBalance, bc_NewValue = bigIntToProtobuf newBalance,
               bc_Reason = reason\<rparr>
         in if t_transaction t \<noteq> None then
              (case active_call t of
                 None \<Rightarrow> Inr (update_deferred (df_AddBalanceChange change) t)
               | Some _ \<Rightarrow> Inr (update_active (call_add_balance change) t))
            else Inr (update_block
              (\<lambda>b. b\<lparr>blk_BalanceChanges := blk_BalanceChanges b @ [change]\<rparr>) t)))"

definition OnNonceChange :: "bytes \<Rightarrow> u64 \<Rightarrow> u64 \<Rightarrow> tracer \<Rightarrow> go_panic + tracer" where
  "OnNonceChange addr oldNonce newNonce t =
     (if oldNonce = newNonce then Inr t
      else guard (ensureInBlockAndInTrx t)
        (let (ordinal, t) = next_ordinal t;
             change = \<lparr>nc_Address = addr, nc_OldValue = oldNonce, nc_NewValue = newNonce,
               nc_Ordinal = ordinal\<rparr>
         in case active_call t of
              None \<Rightarrow> Inr (update_deferred (df_AddNonceChange change) t)
            | Some _ \<Rightarrow> Inr (update_active (call_add_nonce change) t)))"

definition newCodeChange ::
    "bytes \<Rightarrow> bytes \<Rightarrow> bytes \<Rightarrow> bytes \<Rightarrow> bytes \<Rightarrow> tracer \<Rightarrow> CodeChange \<times> tracer" where
  "newCodeChange addr prevCodeHash oldCode newCodeHash newCode t =
     (let (ordinal, t) = next_ordinal t
      in (\<lparr>cc_Address = addr, cc_OldHash = prevCodeHash, cc_OldCode = oldCode,
            cc_NewHash = newCodeHash, cc_NewCode = newCode, cc_Ordinal = ordinal\<rparr>, t))"

definition OnCodeChange ::
    "bytes \<Rightarrow> bytes \<Rightarrow> bytes \<Rightarrow> bytes \<Rightarrow> bytes \<Rightarrow> tracer \<Rightarrow> go_panic + tracer" where
  "OnCodeChange addr prevCodeHash newCodeHash oldCode newCode t =
     (if prevCodeHash = newCodeHash then Inr t
      else guard (ensureInBlockOrTrx t)
        (if t_transaction t \<noteq> None then
           (case active_call t of
              None \<Rightarrow>
                let (change, t) = newCodeChange addr prevCodeHash oldCode newCodeHash newCode t
                in Inr (update_deferred (df_AddCodeChange change) t)
            | Some call \<Rightarrow>
                if call_Suicide call \<and> length oldCode > 0 \<and> length newCode = 0 then Inr t
                else let (change, t) = newCodeChange addr prevCodeHash oldCode newCodeHash newCode t
                     in Inr (update_active (call_add_code change) t))
         else let (change, t) = newCodeChange addr prevCodeHash oldCode newCodeHash newCode t
              in Inr (update_block
                   (\<lambda>b. b\<lparr>blk_CodeChanges := blk_CodeChanges b @ [change]\<rparr>) t)))"

definition OnStorageChange :: "bytes \<Rightarrow> bytes \<Rightarrow> bytes \<Rightarrow> bytes \<Rightarrow> tracer \<Rightarrow> go_panic + tracer" where
  "OnStorageChange addr slot oldValue newValue t =
     (if oldValue = newValue then Inr t
      else guard (ensureInBlockAndInTrx t)
        (let (ordinal, t) = next_ordinal t;
             change = \<lparr>sc_Address = addr, sc_Key = slot, sc_OldValue = oldValue,
               sc_NewValue = newValue, sc_Ordinal = ordinal\<rparr>
         in case active_call t of
              None \<Rightarrow> Inr (update_deferred (df_AddStorageChange change) t)
            | Some _ \<Rightarrow> Inr (update_active (call_add_storage change) t)))"

definition OnLog :: "bytes \<Rightarrow> bytes list \<Rightarrow> bytes \<Rightarrow> u32 \<Rightarrow> tracer \<Rightarrow> go_panic + tracer" where
  "OnLog addr topics data blockIndex t =
     guard (ensureInBlockAndInTrx t)
       (let (ordinal, t) = next_ordinal t;
            pbLog = \<lparr>log_Address = addr, log_Topics = topics, log_Data = data,
              log_Index = t_transactionLogIndex t, log_BlockIndex = blockIndex,
              log_Ordinal = ordinal\<rparr>;
            t = (case active_call t of
                   None \<Rightarrow> update_deferred (df_AddLog pbLog) t
                 | Some _ \<Rightarrow> update_active (call_add_log pbLog) t)
        in Inr (t\<lparr>t_transactionLogIndex := t_transactionLogIndex t + 1\<rparr>))"

end
