(* ===== verification/TracerTx.thy ===== *)
theory TracerTx
  imports TracerChanges
begin

section \<open>The transaction hooks (tracer.go)\<close>

text \<open>
  \<open>OnTxStart\<close> builds the trace of a transaction from its event, \<open>OnTxEnd\<close> completes it: the calls
  are sorted, the set code authorizations that were not applied are discarded, the deferred state is
  moved to the root call, the receipt is attached, the reverted calls are marked and the receipt logs
  get the ordinals of the call logs.
\<close>

subsection \<open>The effective gas price\<close>

definition computeEffectiveGasPrice :: "TxEvent \<Rightarrow> int option \<Rightarrow> int option" where
  "computeEffectiveGasPrice event baseFee =
     (if te_Type event \<in> {0, 1} then te_GasPrice event
      else if te_Type event \<in> {2, 3, 4} then
        (case baseFee of
           None \<Rightarrow> (case te_MaxFeePerGas event of
                      Some maxFee \<Rightarrow> Some maxFee
                    | None \<Rightarrow> te_GasPrice event)
         | Some fee \<Rightarrow>
             (case (te_MaxPriorityFeePerGas event, te_MaxFeePerGas event) of
                (Some tip, Some maxFee) \<Rightarrow>
                  (let effectivePrice = tip + fee
                   in if effectivePrice > maxFee then Some maxFee else Some effectivePrice)
              | _ \<Rightarrow> te_GasPrice event))
      else te_GasPrice event)"

subsection \<open>OnTxStart\<close>

definition access_list_to_proto :: "AccessList \<Rightarrow> PbAccessTuple list" where
  "access_list_to_proto al =
     map (\<lambda>tuple. \<lparr>pa_Address = at_Address tuple, pa_StorageKeys = at_StorageKeys tuple\<rparr>) al"

text \<open>One set code authorization: its fields, then the authority its signature recovers to.\<close>

definition authorization_to_proto ::
    "SetCodeAuthRecovery \<Rightarrow> SetCodeAuthorization \<Rightarrow> go_panic + PbSetCodeAuthorization" where
  "authorization_to_proto recoveryFunc auth =
     (let pbAuth = \<lparr>ps_ChainId = be_bytes (be_val (sa_ChainID auth)), ps_Address = sa_Address auth,
            ps_Nonce = sa_Nonce auth, ps_V = sa_V auth,
            ps_R = normalizeSignaturePoint (sa_R auth), ps_S = normalizeSignaturePoint (sa_S auth),
            ps_Authority = [], ps_Discarded = False\<rparr>
      in case recoveryFunc (sa_ChainID auth) (sa_Address auth) (sa_Nonce auth) (sa_V auth)
                (sa_R auth) (sa_S auth) of
           None \<Rightarrow> Inl CryptoPanic
         | Some (Inl err) \<Rightarrow> Inr (pbAuth\<lparr>ps_Discarded := True\<rparr>)
         | Some (Inr authority) \<Rightarrow> Inr (pbAuth\<lparr>ps_Authority := authority\<rparr>))"

fun authorizations_to_proto ::
    "SetCodeAuthRecovery \<Rightarrow> SetCodeAuthorization list \<Rightarrow> go_panic + PbSetCodeAuthorization list" where
  "authorizations_to_proto recoveryFunc [] = Inr []"
| "authorizations_to_proto recoveryFunc (auth # auths) =
     bindR (authorization_to_proto recoveryFunc auth)
       (\<lambda>p. bindR (authorizations_to_proto recoveryFunc auths) (\<lambda>ps. Inr (p # ps)))"

definition recovery_func :: "Crypto \<Rightarrow> tracer \<Rightarrow> SetCodeAuthRecovery" where
  "recovery_func cr t =
     (case t_chainConfig t of
        None \<Rightarrow> DefaultSetCodeAuthRecovery cr
      | Some chainConfig \<Rightarrow>
          (case ch_SetCodeAuthRecovery chainConfig of
             None \<Rightarrow> DefaultSetCodeAuthRecovery cr
           | Some f \<Rightarrow> f))"

text \<open>The recipient, or for a contract creation the address derived from the sender's nonce.\<close>

definition to_address :: "Crypto \<Rightarrow> TxEvent \<Rightarrow> StateReader option \<Rightarrow> go_panic + bytes" where
  "to_address cr event stateReader =
     (case te_To event of
        Some a \<Rightarrow> Inr a
      | None \<Rightarrow>
          (case stateReader of
             None \<Rightarrow> Inl NilDereference
           | Some reader \<Rightarrow>
               (case CreateAddress cr (te_From event) (sr_GetNonce reader (te_From event)) of
                  None \<Rightarrow> Inl CryptoPanic
                | Some a \<Rightarrow> Inr a)))"

definition blobGasPerBlob :: u64 where "blobGasPerBlob = 131072"

text \<open>The trace as built from the event, before the set code authorizations.\<close>

definition new_trace :: "TxEvent \<Rightarrow> int option \<Rightarrow> u64 \<Rightarrow> bytes \<Rightarrow> TransactionTrace" where
  "new_trace event effectiveGasPrice beginOrdinal addr =
     (let trx = empty_Trace\<lparr>trx_BeginOrdinal := beginOrdinal, trx_Hash := te_Hash event,
            trx_From := te_From event, trx_Nonce := te_Nonce event, trx_GasLimit := te_Gas event,
            trx_GasPrice := bigIntToProtobuf effectiveGasPrice,
            trx_Value := bigIntToProtobuf (te_Value event), trx_Input := te_Input event,
            trx_V := te_V event, trx_R := normalizeSignaturePoint (te_R event),
            trx_S := normalizeSignaturePoint (te_S event), trx_Type := te_Type event\<rparr>;
          trx = trx\<lparr>trx_To := addr\<rparr>;
          trx = (if te_MaxFeePerGas event \<noteq> None
                 then trx\<lparr>trx_MaxFeePerGas := bigIntToProtobuf (te_MaxFeePerGas event)\<rparr>
                 else trx);
          trx = (if te_MaxPriorityFeePerGas event \<noteq> None
                 then trx\<lparr>trx_MaxPriorityFeePerGas :=
                        bigIntToProtobuf (te_MaxPriorityFeePerGas event)\<rparr>
                 else trx);
          trx = (if length (te_AccessList event) > 0
                 then trx\<lparr>trx_AccessList := access_list_to_proto (te_AccessList event)\<rparr>
                 else trx);
          trx = (if te_BlobGasFeeCap event \<noteq> None
                 then trx\<lparr>trx_BlobGasFeeCap := bigIntToProtobuf (te_BlobGasFeeCap event)\<rparr>
                 else trx)
      in if length (te_BlobHashes event) > 0
         then trx\<lparr>trx_BlobHashes := te_BlobHashes event,
                trx_BlobGas := Some (of_nat (length (te_BlobHashes event)) * blobGasPerBlob)\<rparr>
         else trx)"

definition OnTxStart ::
    "Crypto \<Rightarrow> TxEvent \<Rightarrow> StateReader option \<Rightarrow> tracer \<Rightarrow> go_panic + tracer" where
  "OnTxStart cr event stateReader t =
     guard (ensureInBlockAndNotInTrxAndNotInCall t)
       (let t = t\<lparr>t_transactionStateReader := stateReader\<rparr>;
            effectiveGasPrice = computeEffectiveGasPrice event (t_blockBaseFee t);
            (beginOrdinal, t) = next_ordinal t
        in bindR (to_address cr event stateReader)
          (\<lambda>addr.
             let trx = new_trace event effectiveGasPrice beginOrdinal addr
             in bindR (if length (te_SetCodeAuthorizations event) > 0
                       then bindR (authorizations_to_proto (recovery_func cr t)
                                     (te_SetCodeAuthorizations event))
                              (\<lambda>auths. Inr (trx\<lparr>trx_SetCodeAuthorizations := auths\<rparr>))
                       else Inr trx)
                  (\<lambda>trx. Inr (t\<lparr>t_transaction := Some trx\<rparr>))))"

lemma new_trace_fields [simp]:
  "trx_Calls (new_trace event price o1 addr) = []"
  "trx_BeginOrdinal (new_trace event price o1 addr) = o1"
  "trx_EndOrdinal (new_trace event price o1 addr) = 0"
  "trx_Receipt (new_trace event price o1 addr) = None"
  "trx_To (new_trace event price o1 addr) = addr"
  by (simp_all add: new_trace_def Let_def empty_Trace_def)

text \<open>An optional field of the event is the field of the trace, nil for nil.\<close>

lemma new_trace_optional:
  "trx_MaxFeePerGas (new_trace event price o1 addr) = bigIntToProtobuf (te_MaxFeePerGas event)"
  "trx_MaxPriorityFeePerGas (new_trace event price o1 addr)
     = bigIntToProtobuf (te_MaxPriorityFeePerGas event)"
  "trx_AccessList (new_trace event price o1 addr) = access_list_to_proto (te_AccessList event)"
  "trx_BlobGasFeeCap (new_trace event price o1 addr) = bigIntToProtobuf (te_BlobGasFeeCap event)"
  "trx_BlobHashes (new_trace event price o1 addr) = te_BlobHashes event"
  by (simp_all add: new_trace_def Let_def empty_Trace_def bigIntToProtobuf_def access_list_to_proto_def
      split: if_splits)

subsection \<open>Discarding the authorizations that were not applied\<close>

text \<open>
  \<open>findNonceChange\<close>: the first unused nonce change of the root call that moves the account from
  the authorization's nonce to the next one. \<open>used\<close> is \<open>usedNonceChange\<close>, by position.
\<close>

definition nonce_change_matches :: "bytes \<Rightarrow> u64 \<Rightarrow> NonceChange \<Rightarrow> bool" where
  "nonce_change_matches forAddress nonce change \<longleftrightarrow>
     nc_OldValue change = nonce \<and> nc_NewValue change = nonce + 1 \<and> nc_Address change = forAddress"

fun findNonceChange_from ::
    "nat \<Rightarrow> NonceChange list \<Rightarrow> bytes \<Rightarrow> u64 \<Rightarrow> nat list \<Rightarrow> nat option" where
  "findNonceChange_from i [] forAddress nonce used = None"
| "findNonceChange_from i (change # changes) forAddress nonce used =
     (if nonce_change_matches forAddress nonce change \<and> i \<notin> set used then Some i
      else findNonceChange_from (Suc i) changes forAddress nonce used)"

definition findNonceChange :: "NonceChange list \<Rightarrow> bytes \<Rightarrow> u64 \<Rightarrow> nat list \<Rightarrow> nat option" where
  "findNonceChange changes forAddress nonce used =
     findNonceChange_from 0 changes forAddress nonce used"

fun discard_loop ::
    "NonceChange list \<Rightarrow> nat list \<Rightarrow> PbSetCodeAuthorization list \<Rightarrow> PbSetCodeAuthorization list" where
  "discard_loop changes used [] = []"
| "discard_loop changes used (auth # auths) =
     (if length (ps_Authority auth) = 0
      then auth\<lparr>ps_Discarded := True\<rparr> # discard_loop changes used auths
      else case findNonceChange changes (ps_Authority auth) (ps_Nonce auth) used of
             None \<Rightarrow> auth\<lparr>ps_Discarded := True\<rparr> # discard_loop changes used auths
           | Some i \<Rightarrow> auth # discard_loop changes (i # used) auths)"

definition discardUncommittedSetCodeAuthorizations :: "Call \<Rightarrow> TransactionTrace \<Rightarrow> TransactionTrace" where
  "discardUncommittedSetCodeAuthorizations rootCall trx =
     (if length (trx_SetCodeAuthorizations trx) = 0 then trx
      else trx\<lparr>trx_SetCodeAuthorizations :=
             discard_loop (call_NonceChanges rootCall) [] (trx_SetCodeAuthorizations trx)\<rparr>)"

subsection \<open>The receipt\<close>

definition receipt_log :: "LogData \<Rightarrow> Log" where
  "receipt_log l = \<lparr>log_Address = ld_Address l, log_Topics = ld_Topics l, log_Data = ld_Data l,
     log_Index = 0, log_BlockIndex = ld_BlockIndex l, log_Ordinal = 0\<rparr>"

definition newReceiptFromData :: "TransactionTrace \<Rightarrow> ReceiptData \<Rightarrow> TransactionReceipt" where
  "newReceiptFromData trx receipt =
     (let r = \<lparr>rcp_CumulativeGasUsed = rd_CumulativeGasUsed receipt,
            rcp_LogsBloom = rd_LogsBloom receipt, rcp_StateRoot = rd_StateRoot receipt,
            rcp_Logs = [], rcp_BlobGasUsed = None, rcp_BlobGasPrice = None\<rparr>;
          r = (if trx_Type trx = TxTypeBlob
               then let r = r\<lparr>rcp_BlobGasUsed := Some (rd_BlobGasUsed receipt)\<rparr>
                    in if rd_BlobGasPrice receipt \<noteq> None
                       then r\<lparr>rcp_BlobGasPrice := bigIntToProtobuf (rd_BlobGasPrice receipt)\<rparr>
                       else r
               else r)
      in r\<lparr>rcp_Logs := map receipt_log (rd_Logs receipt)\<rparr>)"

subsection \<open>Reverted calls\<close>

text \<open>
  The loop body of \<open>populateStateReverted\<close>: \<open>calls[call.ParentIndex-1]\<close> panics out of range, and the
  parent's mark is the one the loop has left there so far.
\<close>

definition mark_reverted :: "nat \<Rightarrow> Call list \<Rightarrow> go_panic + Call list" where
  "mark_reverted i calls =
     (let call = calls ! i
      in if call_ParentIndex call > 0
         then (case nth_opt calls (unat (call_ParentIndex call - 1)) of
                 None \<Rightarrow> Inl IndexOutOfRange
               | Some parent \<Rightarrow>
                   Inr (calls[i := call\<lparr>call_StateReverted :=
                     (if call_StateReverted parent then True else call_StatusFailed call)\<rparr>]))
         else Inr (calls[i := call\<lparr>call_StateReverted := call_StatusFailed call\<rparr>]))"

definition populateStateReverted :: "Call list \<Rightarrow> go_panic + Call list" where
  "populateStateReverted calls = foldR mark_reverted [0..<length calls] calls"

definition isNeverRevertedLog :: "Config \<Rightarrow> Log \<Rightarrow> bool" where
  "isNeverRevertedLog cfg log =
     (case cfg_IsNeverRevertedLog cfg of None \<Rightarrow> False | Some f \<Rightarrow> f log)"

definition removeLogBlockIndexOnStateRevertedCalls :: "Config \<Rightarrow> Call list \<Rightarrow> Call list" where
  "removeLogBlockIndexOnStateRevertedCalls cfg calls =
     map (\<lambda>call. if call_StateReverted call
                 then call\<lparr>call_Logs := map (\<lambda>log. if isNeverRevertedLog cfg log then log
                        else log\<lparr>log_BlockIndex := 0\<rparr>) (call_Logs call)\<rparr>
                 else call) calls"

subsection \<open>Receipt logs\<close>

text \<open>The logs of the calls that were not reverted, and the never reverted logs of the others.\<close>

definition surviving_logs :: "Config \<Rightarrow> Call list \<Rightarrow> Log list" where
  "surviving_logs cfg calls =
     concat (map (\<lambda>call. if call_StateReverted call
                         then (case cfg_IsNeverRevertedLog cfg of
                                 None \<Rightarrow> []
                               | Some f \<Rightarrow> filter f (call_Logs call))
                         else call_Logs call) calls)"

definition log_compare :: "Log \<Rightarrow> Log \<Rightarrow> int" where
  "log_compare i j = cmp_Compare (log_Ordinal i) (log_Ordinal j)"

fun assign_loop :: "tracer \<Rightarrow> nat \<Rightarrow> Log list \<Rightarrow> Log list \<Rightarrow> go_panic + Log list" where
  "assign_loop t i (callLog # callLogs) (receiptLog # receiptLogs) =
     guard (check (log_BlockIndex callLog = log_BlockIndex receiptLog) t
              (MsgLogBlockIndexMismatch i (log_BlockIndex callLog) (log_BlockIndex receiptLog)))
       (bindR (assign_loop t (Suc i) callLogs receiptLogs)
          (\<lambda>rest. Inr (receiptLog\<lparr>log_Ordinal := log_Ordinal callLog,
                        log_Index := log_Index callLog\<rparr> # rest)))"
| "assign_loop t i callLogs receiptLogs = Inr receiptLogs"

definition assignOrdinalAndIndexToReceiptLogs :: "tracer \<Rightarrow> TransactionTrace \<Rightarrow> go_panic + TransactionTrace" where
  "assignOrdinalAndIndexToReceiptLogs t trx =
     (let callLogs = SortFunc log_compare (surviving_logs (t_config t) (trx_Calls trx));
          receiptLogs = (case trx_Receipt trx of None \<Rightarrow> [] | Some r \<Rightarrow> rcp_Logs r)
      in if length callLogs \<noteq> length receiptLogs
         then Inl (LogCountMismatch (length callLogs) (length receiptLogs))
         else bindR (assign_loop t 0 callLogs receiptLogs)
           (\<lambda>logs. Inr (trx\<lparr>trx_Receipt := map_option (\<lambda>r. r\<lparr>rcp_Logs := logs\<rparr>) (trx_Receipt trx)\<rparr>)))"

subsection \<open>completeTransaction and OnTxEnd\<close>

definition call_compare :: "Call \<Rightarrow> Call \<Rightarrow> int" where
  "call_compare i j = cmp_Compare (call_Index i) (call_Index j)"

text \<open>What the receipt sets on the trace.\<close>

definition apply_receipt :: "ReceiptData \<Rightarrow> TransactionTrace \<Rightarrow> TransactionTrace" where
  "apply_receipt receipt trx =
     trx\<lparr>trx_Index := rd_TransactionIndex receipt, trx_GasUsed := rd_GasUsed receipt,
       trx_Receipt := Some (newReceiptFromData trx receipt),
       trx_Status := (if rd_Status receipt = 1 then SUCCEEDED else FAILED)\<rparr>"

definition update_calls :: "(Call list \<Rightarrow> Call list) \<Rightarrow> TransactionTrace \<Rightarrow> TransactionTrace" where
  "update_calls f trx = trx\<lparr>trx_Calls := f (trx_Calls trx)\<rparr>"

text \<open>The tail of \<open>completeTransaction\<close>, once the calls are final: receipt, status, reverts, logs.\<close>

definition finish_trace ::
    "tracer \<Rightarrow> ReceiptData option \<Rightarrow> TransactionTrace \<Rightarrow> go_panic + TransactionTrace" where
  "finish_trace t receipt trx =
     (let trx = (case receipt of None \<Rightarrow> trx | Some r \<Rightarrow> apply_receipt r trx);
          rootCall = trx_Calls trx ! 0;
          trx = (if call_StatusReverted rootCall then trx\<lparr>trx_Status := REVERTED\<rparr> else trx);
          trx = trx\<lparr>trx_ReturnData := call_ReturnData rootCall\<rparr>
      in bindR (populateStateReverted (trx_Calls trx))
        (\<lambda>calls.
           let trx = trx\<lparr>trx_Calls := calls\<rparr>;
               trx = update_calls (removeLogBlockIndexOnStateRevertedCalls (t_config t)) trx
           in assignOrdinalAndIndexToReceiptLogs t trx))"

text \<open>The result's \<open>t_transaction\<close> is the trace \<open>completeTransaction\<close> returns.\<close>

definition completeTransaction ::
    "ReceiptData option \<Rightarrow> go_error option \<Rightarrow> tracer \<Rightarrow> go_panic + tracer" where
  "completeTransaction receipt err t =
     (case t_transaction t of
        None \<Rightarrow> Inl NilDereference
      | Some trx \<Rightarrow>
          if length (trx_Calls trx) = 0 then
            guard (check (\<not> df_HasCallOnlyChanges (t_deferredCallState t)) t MsgNoRootCall)
              (let (endOrdinal, t) = next_ordinal t
               in Inr (update_transaction (\<lambda>trx. trx\<lparr>trx_EndOrdinal := endOrdinal\<rparr>) t))
          else
            let trx = update_calls (SortFunc call_compare) trx;
                trx = discardUncommittedSetCodeAuthorizations (trx_Calls trx ! 0) trx
            in bindR (if df_IsEmpty (t_deferredCallState t) then Inr (trx, t)
                      else case MaybePopulateCallAndReset ''root'' (trx_Calls trx ! 0)
                                  (t_deferredCallState t) of
                             Inl e \<Rightarrow> Inl (PopulateFailed e)
                           | Inr (rootCall, d) \<Rightarrow>
                               Inr (update_calls (\<lambda>calls. calls[0 := rootCall]) trx,
                                    t\<lparr>t_deferredCallState := d\<rparr>))
                 (\<lambda>(trx, t).
                    let trx = update_calls
                          (\<lambda>calls. attachStorageSlotPreimages calls (t_transactionKeccakPreimages t)) trx;
                        t = t\<lparr>t_transactionKeccakPreimages := []\<rparr>
                    in bindR (finish_trace t receipt trx)
                      (\<lambda>trx. let (endOrdinal, t) = next_ordinal t;
                                 trx = trx\<lparr>trx_EndOrdinal := endOrdinal\<rparr>
                             in Inr (update_transaction (\<lambda>_. trx) t))))"

definition OnTxEnd :: "ReceiptData option \<Rightarrow> go_error option \<Rightarrow> tracer \<Rightarrow> go_panic + tracer" where
  "OnTxEnd receipt err t =
     guard (ensureInBlockAndInTrx t)
       (if receipt = None \<and> cfg_DropTransactionsWithoutReceipt (t_config t)
        then (if t_transactionIsolated t then Inr (t\<lparr>t_transactionDropped := True\<rparr>)
              else Inr (resetTransaction t))
        else bindR (completeTransaction receipt err t)
          (\<lambda>t. case t_transaction t of
                 None \<Rightarrow> Inl NilDereference
               | Some trxTrace \<Rightarrow>
                   if t_transactionIsolated t
                   then Inr (t\<lparr>t_transactionTransient := Some trxTrace\<rparr>)
                   else Inr (resetTransaction (update_block
                     (\<lambda>b. b\<lparr>blk_TransactionTraces := blk_TransactionTraces b @ [trxTrace]\<rparr>) t))))"

end
