(* ===== verification/TracerSystem.thy ===== *)
theory TracerSystem
  imports TracerTx
begin

section \<open>System calls (tracer.go)\<close>

text \<open>
  A system call is traced as a nameless transaction whose calls end up in the block's system
  calls. Started inside a transaction, it sets the transaction aside first and restores it after.
\<close>

definition interruptTransaction :: "tracer \<Rightarrow> tracer" where
  "interruptTransaction t =
     (let t = t\<lparr>t_interruptedTransaction := Some
            \<lparr>it_transaction = t_transaction t, it_transactionLogIndex = t_transactionLogIndex t,
             it_transactionStateReader = t_transactionStateReader t,
             it_transactionKeccakPreimages = t_transactionKeccakPreimages t,
             it_callStack = t_callStack t, it_deferredCallState = t_deferredCallState t,
             it_latestCallEnterSuicided = t_latestCallEnterSuicided t,
             it_latestCallEnterSuicidedDepth = t_latestCallEnterSuicidedDepth t\<rparr>\<rparr>;
          t = t\<lparr>t_callStack := NewCallStack, t_deferredCallState := NewDeferredCallState\<rparr>
      in resetTransaction t)"

definition resumeTransaction :: "interruptedTransactionState \<Rightarrow> tracer \<Rightarrow> tracer" where
  "resumeTransaction s t = t\<lparr>t_interruptedTransaction := None,
     t_transaction := it_transaction s, t_transactionLogIndex := it_transactionLogIndex s,
     t_transactionStateReader := it_transactionStateReader s,
     t_transactionKeccakPreimages := it_transactionKeccakPreimages s,
     t_callStack := it_callStack s, t_deferredCallState := it_deferredCallState s,
     t_latestCallEnterSuicided := it_latestCallEnterSuicided s,
     t_latestCallEnterSuicidedDepth := it_latestCallEnterSuicidedDepth s\<rparr>"

definition OnSystemCallStart :: "tracer \<Rightarrow> go_panic + tracer" where
  "OnSystemCallStart t =
     guard (ensureInBlock t)
       (bindR (if t_transaction t \<noteq> None
               then guard (check (\<not> t_inSystemCall t) t MsgSystemCallInSystemCall)
                      (Inr (interruptTransaction t))
               else Inr t)
          (\<lambda>t. Inr (t\<lparr>t_inSystemCall := True, t_transaction := Some empty_Trace\<rparr>)))"

definition OnSystemCallEnd :: "tracer \<Rightarrow> go_panic + tracer" where
  "OnSystemCallEnd t =
     guard (ensureInBlockAndInTrx t) (guard (ensureInSystemCall t)
       (guard (check (\<not> df_HasCallOnlyChanges (t_deferredCallState t)) t MsgSystemCallNoRootCall)
         (case t_transaction t of
            None \<Rightarrow> Inl NilDereference
          | Some trx \<Rightarrow>
              let calls = attachStorageSlotPreimages (trx_Calls trx) (t_transactionKeccakPreimages t);
                  t = update_block (\<lambda>b. b\<lparr>blk_SystemCalls := blk_SystemCalls b @ calls\<rparr>) t;
                  t = resetTransaction t
              in Inr (case t_interruptedTransaction t of
                        None \<Rightarrow> t
                      | Some s \<Rightarrow> resumeTransaction s t))))"

end
