(* ===== verification/TracerBlock.thy ===== *)
theory TracerBlock
  imports TracerSystem
begin

section \<open>The block hooks and flash blocks (tracer.go, tracer_printer.go)\<close>

text \<open>
  \<open>OnBlockStart\<close>, \<open>OnBlockEnd\<close> and \<open>OnSkippedBlock\<close>, the headers they build, and flash blocks:
  successive versions of one block, each starting from the snapshot taken in the previous one.
\<close>

subsection \<open>Headers\<close>

text \<open>\<open>time.Unix(int64(t), 0)\<close>\<close>

definition timestamp_of :: "u64 \<Rightarrow> int" where
  "timestamp_of t = sint t"

text \<open>Difficulty is always set: a nil BigInt becomes one zero byte.\<close>

definition difficulty_or_zero :: "bytes option \<Rightarrow> bytes option" where
  "difficulty_or_zero d = (case d of None \<Rightarrow> Some [0] | Some b \<Rightarrow> Some b)"

definition bytes_or_nil :: "bytes option \<Rightarrow> bytes" where
  "bytes_or_nil b = (case b of None \<Rightarrow> [] | Some h \<Rightarrow> h)"

definition newBlockHeaderFromBlockData :: "BlockData \<Rightarrow> BlockHeader" where
  "newBlockHeaderFromBlockData block =
     \<lparr>hd_ParentHash = bd_ParentHash block, hd_UncleHash = bd_UncleHash block,
      hd_Coinbase = bd_Coinbase block, hd_StateRoot = bd_Root block,
      hd_TransactionsRoot = bd_TxHash block, hd_ReceiptRoot = bd_ReceiptHash block,
      hd_LogsBloom = bd_Bloom block,
      hd_Difficulty = difficulty_or_zero (bigIntToProtobuf (bd_Difficulty block)),
      hd_TotalDifficulty = None, hd_Number = bd_Number block, hd_GasLimit = bd_GasLimit block,
      hd_GasUsed = bd_GasUsed block, hd_Timestamp = timestamp_of (bd_Time block),
      hd_ExtraData = bd_Extra block, hd_MixHash = bd_MixDigest block, hd_Nonce = bd_Nonce block,
      hd_Hash = bd_Hash block, hd_BaseFeePerGas = bigIntToProtobuf (bd_BaseFee block),
      hd_WithdrawalsRoot = bytes_or_nil (bd_WithdrawalsRoot block),
      hd_BlobGasUsed = bd_BlobGasUsed block, hd_ExcessBlobGas = bd_ExcessBlobGas block,
      hd_ParentBeaconRoot = bytes_or_nil (bd_ParentBeaconRoot block),
      hd_RequestsHash = bytes_or_nil (bd_RequestsHash block),
      hd_TxDependency = bd_TxDependency block, hd_SlotNumber = bd_SlotNumber block,
      hd_BlockAccessListHash = bytes_or_nil (bd_BlockAccessListHash block)\<rparr>"

definition newBlockHeaderFromUncleData :: "UncleData \<Rightarrow> BlockHeader" where
  "newBlockHeaderFromUncleData uncle =
     \<lparr>hd_ParentHash = ud_ParentHash uncle, hd_UncleHash = ud_UncleHash uncle,
      hd_Coinbase = ud_Coinbase uncle, hd_StateRoot = ud_Root uncle,
      hd_TransactionsRoot = ud_TxHash uncle, hd_ReceiptRoot = ud_ReceiptHash uncle,
      hd_LogsBloom = ud_Bloom uncle,
      hd_Difficulty = difficulty_or_zero (bigIntToProtobuf (ud_Difficulty uncle)),
      hd_TotalDifficulty = None, hd_Number = ud_Number uncle, hd_GasLimit = ud_GasLimit uncle,
      hd_GasUsed = ud_GasUsed uncle, hd_Timestamp = timestamp_of (ud_Time uncle),
      hd_ExtraData = ud_Extra uncle, hd_MixHash = ud_MixDigest uncle, hd_Nonce = ud_Nonce uncle,
      hd_Hash = ud_Hash uncle, hd_BaseFeePerGas = bigIntToProtobuf (ud_BaseFee uncle),
      hd_WithdrawalsRoot = [], hd_BlobGasUsed = None, hd_ExcessBlobGas = None,
      hd_ParentBeaconRoot = [], hd_RequestsHash = [], hd_TxDependency = None,
      hd_SlotNumber = None, hd_BlockAccessListHash = []\<rparr>"

definition withdrawal_to_proto :: "WithdrawalData \<Rightarrow> Withdrawal" where
  "withdrawal_to_proto w = \<lparr>w_Index = wd_Index w, w_ValidatorIndex = wd_ValidatorIndex w,
     w_Address = wd_Address w, w_Amount = wd_Amount w\<rparr>"

subsection \<open>Flash blocks\<close>

definition IsFlashBlock :: "tracer \<Rightarrow> bool" where
  "IsFlashBlock t \<longleftrightarrow> t_flashBlockIndex t \<noteq> None"

definition GetFlashBlockIndex :: "tracer \<Rightarrow> u64" where
  "GetFlashBlockIndex t = (case t_flashBlockIndex t of None \<Rightarrow> 0 | Some i \<Rightarrow> i)"

definition HasFlashBlockSnapshot :: "tracer \<Rightarrow> bool" where
  "HasFlashBlockSnapshot t \<longleftrightarrow> t_snapshotForNextFlashBlock t \<noteq> None"

definition computePrintedFlashBlockIndex :: "u64 option \<Rightarrow> bool \<Rightarrow> u64" where
  "computePrintedFlashBlockIndex flashBlockIndex isFinal =
     (case flashBlockIndex of
        None \<Rightarrow> 0
      | Some idx \<Rightarrow> if isFinal then idx + 1000 else idx)"

text \<open>
  A snapshot points to the block it was taken in. While that block is the tracer's current one the
  pointer is \<open>None\<close>; it is resolved here when \<open>t.block\<close> is about to change.
\<close>

definition freeze_snapshot :: "tracer \<Rightarrow> tracer" where
  "freeze_snapshot t = t\<lparr>t_snapshotForNextFlashBlock := map_option
     (\<lambda>s. case sn_block s of None \<Rightarrow> s\<lparr>sn_block := t_block t\<rparr> | Some _ \<Rightarrow> s)
     (t_snapshotForNextFlashBlock t)\<rparr>"

definition snapshot_block :: "tracer \<Rightarrow> flashBlockSnapshot \<Rightarrow> Block option" where
  "snapshot_block t s = (case sn_block s of None \<Rightarrow> t_block t | Some b \<Rightarrow> Some b)"

definition handleFlashBlockStart :: "FlashBlockData \<Rightarrow> u64 \<Rightarrow> tracer \<Rightarrow> go_panic + tracer" where
  "handleFlashBlockStart fb blockNumber t =
     bindR (case t_snapshotForNextFlashBlock t of
              None \<Rightarrow> Inr t
            | Some snap \<Rightarrow>
                (case snapshot_block t snap of
                   None \<Rightarrow> Inl NilDereference
                 | Some b \<Rightarrow>
                     if blk_Number b = blockNumber
                     then guard (check (\<not> fb_Idx fb \<le> sn_flashIndex snap) t
                            (MsgFlashIndex blockNumber (sn_flashIndex snap) (fb_Idx fb))) (Inr t)
                     else Inr (t\<lparr>t_snapshotForNextFlashBlock := None\<rparr>)))
       (\<lambda>t. Inr (t\<lparr>t_flashBlockIndex := Some (fb_Idx fb), t_flashBlockIsFinal := fb_IsFinal fb\<rparr>))"

text \<open>
  \<open>s[:n]\<close>, which panics past the slice's capacity. Between the length and the capacity Go would
  read elements that were cut off; the lengths of a snapshot never exceed those of its block
  unless \<open>BeforeBlockFlush\<close> shrinks it, so that case is taken to panic too.
\<close>

definition slice_to :: "'a list \<Rightarrow> nat \<Rightarrow> go_panic + 'a list" where
  "slice_to xs n = (if n \<le> length xs then Inr (take n xs) else Inl IndexOutOfRange)"

definition slice_if_positive :: "'a list \<Rightarrow> nat \<Rightarrow> go_panic + 'a list" where
  "slice_if_positive xs n = (if n > 0 \<and> xs \<noteq> [] then slice_to xs n else Inr [])"

text \<open>\<open>prevBlock.SystemCalls != nil\<close> is \<open>xs \<noteq> []\<close>: only appending makes such a slice non-nil.\<close>

definition restoreFlashBlockSnapshot :: "tracer \<Rightarrow> go_panic + tracer" where
  "restoreFlashBlockSnapshot t =
     (case t_snapshotForNextFlashBlock t of
        None \<Rightarrow> Inr t
      | Some snap \<Rightarrow>
          (case snapshot_block t snap of
             None \<Rightarrow> Inl NilDereference
           | Some prevBlock \<Rightarrow>
               bindR (slice_to (blk_TransactionTraces prevBlock) (sn_txTracesLen snap)) (\<lambda>traces.
               bindR (slice_if_positive (blk_SystemCalls prevBlock) (sn_systemCallsLen snap)) (\<lambda>calls.
               bindR (slice_if_positive (blk_BalanceChanges prevBlock) (sn_balanceChangesLen snap)) (\<lambda>bals.
               bindR (slice_if_positive (blk_CodeChanges prevBlock) (sn_codeChangesLen snap)) (\<lambda>codes.
                 Inr (update_block (\<lambda>b. b\<lparr>
                     blk_TransactionTraces := blk_TransactionTraces b @ traces,
                     blk_SystemCalls := blk_SystemCalls b @ calls,
                     blk_BalanceChanges := blk_BalanceChanges b @ bals,
                     blk_CodeChanges := blk_CodeChanges b @ codes\<rparr>)
                   (t\<lparr>t_blockOrdinal := ordinal_Restore (sn_ordinal snap) (t_blockOrdinal t)\<rparr>))))))))"

definition SnapshotFlashBlockForNextIteration :: "tracer \<Rightarrow> go_panic + tracer" where
  "SnapshotFlashBlockForNextIteration t =
     (case t_flashBlockIndex t of
        None \<Rightarrow> Inr t
      | Some idx \<Rightarrow>
          (case t_block t of
             None \<Rightarrow> Inl NilDereference
           | Some block \<Rightarrow> Inr (t\<lparr>t_snapshotForNextFlashBlock := Some
               \<lparr>sn_block = None, sn_txTracesLen = length (blk_TransactionTraces block),
                sn_systemCallsLen = length (blk_SystemCalls block),
                sn_balanceChangesLen = length (blk_BalanceChanges block),
                sn_codeChangesLen = length (blk_CodeChanges block),
                sn_ordinal = ordinal_Peek (t_blockOrdinal t), sn_flashIndex = idx\<rparr>\<rparr>)))"

subsection \<open>Block start and end\<close>

definition new_Block :: "BlockData \<Rightarrow> Block" where
  "new_Block block = \<lparr>blk_Hash = bd_Hash block, blk_Number = bd_Number block,
     blk_Size = bd_Size block, blk_Header = newBlockHeaderFromBlockData block, blk_Uncles = [],
     blk_TransactionTraces = [], blk_BalanceChanges = [], blk_DetailLevel = 0,
     blk_CodeChanges = [], blk_SystemCalls = [], blk_Withdrawals = [], blk_Ver = 5\<rparr>"

text \<open>The rest of \<open>OnBlockStart\<close>, once the block exists: uncles, base fee, withdrawals, finality.\<close>

definition fill_block :: "BlockEvent \<Rightarrow> tracer \<Rightarrow> tracer" where
  "fill_block event t =
     (let block = ev_Block event;
          t = update_block (\<lambda>b. b\<lparr>blk_Uncles := blk_Uncles b @
                map newBlockHeaderFromUncleData (bd_Uncles block)\<rparr>) t;
          t = (case bd_BaseFee block of
                 None \<Rightarrow> t
               | Some fee \<Rightarrow> t\<lparr>t_blockBaseFee := Some fee\<rparr>);
          t = (if length (bd_Withdrawals block) > 0
               then update_block (\<lambda>b. b\<lparr>blk_Withdrawals :=
                 map withdrawal_to_proto (bd_Withdrawals block)\<rparr>) t
               else t)
      in case ev_Finalized event of
           None \<Rightarrow> t
         | Some f \<Rightarrow> t\<lparr>t_blockFinality := SetLastFinalizedBlock (fr_Number f) (t_blockFinality t)\<rparr>)"

definition OnBlockStart :: "BlockEvent \<Rightarrow> tracer \<Rightarrow> go_panic + tracer" where
  "OnBlockStart event t =
     guard (ensureBlockChainInit t)
       (let block = ev_Block event in
        bindR (case ev_FlashBlock event of
                 None \<Rightarrow> Inr t
               | Some fb \<Rightarrow> handleFlashBlockStart fb (bd_Number block) t)
          (\<lambda>t. case t_chainConfig t of
             None \<Rightarrow> Inl NilDereference
           | Some chainConfig \<Rightarrow>
             let t = t\<lparr>t_blockRules := (case ev_Rules event of
                       Some r \<Rightarrow> r
                     | None \<Rightarrow> chain_Rules chainConfig (Some (uint (bd_Number block)))
                                 (bd_IsMerge block) (bd_Time block))\<rparr>;
                 t = (freeze_snapshot t)\<lparr>t_block := Some (new_Block block)\<rparr>
             in bindR (if IsFlashBlock t then restoreFlashBlockSnapshot t else Inr t)
                  (\<lambda>t. Inr (fill_block event t))))"

text \<open>
  \<open>reorderIsolatedTransactionsAndOrdinals\<close> has an empty body. \<open>BeforeBlockFlush\<close> called with a nil
  block is followed by a panic whatever it does.
\<close>

definition reorderIsolatedTransactionsAndOrdinals :: "tracer \<Rightarrow> tracer" where
  "reorderIsolatedTransactionsAndOrdinals t = t"

definition before_flush :: "tracer \<Rightarrow> tracer" where
  "before_flush t = (case cfg_BeforeBlockFlush (t_config t) of
     None \<Rightarrow> t
   | Some f \<Rightarrow> update_block f t)"

definition OnBlockEnd :: "go_error option \<Rightarrow> tracer \<Rightarrow> go_panic + tracer" where
  "OnBlockEnd err t =
     bindR (if err = None then
              let t = before_flush t;
                  t = (if t_blockReorderOrdinal t then reorderIsolatedTransactionsAndOrdinals t else t)
              in guard (ensureInBlockAndNotInTrx t)
                (case t_block t of
                   None \<Rightarrow> Inl NilDereference
                 | Some block \<Rightarrow>
                     Inr (emit (BlockLine \<lparr>bo_block = block,
                         bo_libNum = computeLibNum (blk_Number block) (t_blockFinality t),
                         bo_printedFlashBlockIndex =
                           computePrintedFlashBlockIndex (t_flashBlockIndex t) (t_flashBlockIsFinal t)\<rparr>) t))
            else guard (ensureInBlock t)
              (Inr (if IsFlashBlock t then t\<lparr>t_snapshotForNextFlashBlock := None\<rparr> else t)))
       (\<lambda>t. Inr (resetTransaction (resetBlock (freeze_snapshot t))))"

definition OnSkippedBlock :: "BlockEvent \<Rightarrow> tracer \<Rightarrow> go_panic + tracer" where
  "OnSkippedBlock event t =
     guard (check (t_transaction t = None) t MsgSkippedInTransaction)
       (bindR (OnBlockStart event t) (OnBlockEnd None))"

subsection \<open>What the block hooks leave alone\<close>

text \<open>The fields of the state that belong to the transaction being traced.\<close>

definition trx_state :: "tracer \<Rightarrow> _" where
  "trx_state t = (t_transaction t, t_callStack t, t_deferredCallState t, t_interruptedTransaction t,
     t_transactionTransient t, t_transactionIsolated t)"

lemma trx_state_block [simp]:
  "trx_state (update_block f t) = trx_state t"
  "trx_state (t\<lparr>t_block := b\<rparr>) = trx_state t"
  "trx_state (freeze_snapshot t) = trx_state t"
  "trx_state (t\<lparr>t_blockRules := r\<rparr>) = trx_state t"
  "trx_state (t\<lparr>t_blockOrdinal := o1\<rparr>) = trx_state t"
  "trx_state (before_flush t) = trx_state t"
  "trx_state (emit x t) = trx_state t"
  by (simp_all add: trx_state_def update_block_def freeze_snapshot_def before_flush_def emit_def
      split: option.split)

lemma fill_block_frame [simp]:
  "trx_state (fill_block event t) = trx_state t"
  "t_blockOrdinal (fill_block event t) = t_blockOrdinal t"
  "t_config (fill_block event t) = t_config t"
  "t_chainConfig (fill_block event t) = t_chainConfig t"
  "t_snapshotForNextFlashBlock (fill_block event t) = t_snapshotForNextFlashBlock t"
  "t_flashBlockIndex (fill_block event t) = t_flashBlockIndex t"
  by (auto simp: fill_block_def Let_def trx_state_def update_block_def split: option.split)

lemma fill_block_block:
  "t_block t = Some b \<Longrightarrow> \<exists>us ws. t_block (fill_block event t) = Some (b\<lparr>blk_Uncles := us, blk_Withdrawals := ws\<rparr>)"
proof -
  assume b: "t_block t = Some b"
  let ?us = "blk_Uncles b @ map newBlockHeaderFromUncleData (bd_Uncles (ev_Block event))"
  have "t_block (fill_block event t) = Some (b\<lparr>blk_Uncles := ?us, blk_Withdrawals :=
      (if bd_Withdrawals (ev_Block event) = [] then blk_Withdrawals b
       else map withdrawal_to_proto (bd_Withdrawals (ev_Block event)))\<rparr>)"
    using b by (auto simp: fill_block_def Let_def update_block_def split: option.split)
  then show ?thesis by blast
qed

lemma handleFlashBlockStart_elim:
  assumes "handleFlashBlockStart fb n t = Inr t'"
  obtains s where "s = t_snapshotForNextFlashBlock t \<or> s = None"
    and "t' = t\<lparr>t_snapshotForNextFlashBlock := s, t_flashBlockIndex := Some (fb_Idx fb),
      t_flashBlockIsFinal := fb_IsFinal fb\<rparr>"
    and "\<And>snap b. s = Some snap \<Longrightarrow> snapshot_block t snap = Some b \<Longrightarrow>
      blk_Number b = n \<and> sn_flashIndex snap < fb_Idx fb"
proof (cases "t_snapshotForNextFlashBlock t")
  case None
  have "t = t\<lparr>t_snapshotForNextFlashBlock := None\<rparr>" using None by (cases t) simp
  with None assms that [of None] show ?thesis by (simp add: handleFlashBlockStart_def)
next
  case (Some snap)
  have t: "t = t\<lparr>t_snapshotForNextFlashBlock := Some snap\<rparr>" using Some by (cases t) simp
  obtain b where b: "snapshot_block t snap = Some b"
    using assms Some by (auto simp: handleFlashBlockStart_def split: option.splits)
  show ?thesis
  proof (cases "blk_Number b = n")
    case True
    then have lt: "sn_flashIndex snap < fb_Idx fb"
      and t': "t' = t\<lparr>t_flashBlockIndex := Some (fb_Idx fb), t_flashBlockIsFinal := fb_IsFinal fb\<rparr>"
      using assms Some b by (auto simp: handleFlashBlockStart_def bindR_Inr_iff guard_Inr_iff check_None_iff)
    show ?thesis
    proof (rule that [of "Some snap"])
      show "t' = t\<lparr>t_snapshotForNextFlashBlock := Some snap, t_flashBlockIndex := Some (fb_Idx fb),
          t_flashBlockIsFinal := fb_IsFinal fb\<rparr>"
        using t t' by metis
    qed (use Some b True lt in auto)
  next
    case False
    then show ?thesis using assms Some b that [of None] by (simp add: handleFlashBlockStart_def)
  qed
qed

lemma bindR_InrE: "bindR m f = Inr y \<Longrightarrow> (\<And>x. m = Inr x \<Longrightarrow> f x = Inr y \<Longrightarrow> P) \<Longrightarrow> P"
  by (auto simp: bindR_Inr_iff)

lemma restoreFlashBlockSnapshot_elim:
  assumes "restoreFlashBlockSnapshot t = Inr t'"
  obtains "t_snapshotForNextFlashBlock t = None" and "t' = t"
  | snap prev ts cs bs ks where "t_snapshotForNextFlashBlock t = Some snap"
      and "snapshot_block t snap = Some prev"
      and "ts = take (sn_txTracesLen snap) (blk_TransactionTraces prev)"
      and "cs = take (sn_systemCallsLen snap) (blk_SystemCalls prev)"
      and "bs = take (sn_balanceChangesLen snap) (blk_BalanceChanges prev)"
      and "ks = take (sn_codeChangesLen snap) (blk_CodeChanges prev)"
      and "t' = update_block (\<lambda>b. b\<lparr>
             blk_TransactionTraces := blk_TransactionTraces b @ ts,
             blk_SystemCalls := blk_SystemCalls b @ cs,
             blk_BalanceChanges := blk_BalanceChanges b @ bs,
             blk_CodeChanges := blk_CodeChanges b @ ks\<rparr>)
           (t\<lparr>t_blockOrdinal := ordinal_Restore (sn_ordinal snap) (t_blockOrdinal t)\<rparr>)"
proof -
  note elims = that
  have slice: "slice_to xs n = Inr ys \<Longrightarrow> ys = take n xs"
    "slice_if_positive xs n = Inr ys \<Longrightarrow> ys = take n xs" for xs ys :: "'z list" and n
    by (auto simp: slice_to_def slice_if_positive_def split: if_splits)
  show ?thesis
  proof (cases "t_snapshotForNextFlashBlock t")
    case None
    with assms show ?thesis by (intro elims(1)) (simp_all add: restoreFlashBlockSnapshot_def)
  next
    case (Some snap)
    obtain prev where prev: "snapshot_block t snap = Some prev"
      using assms Some by (cases "snapshot_block t snap") (simp_all add: restoreFlashBlockSnapshot_def)
    from assms [unfolded restoreFlashBlockSnapshot_def Some option.case prev]
    show ?thesis
    proof (elim bindR_InrE)
      fix ts cs bs ks
      assume ts: "slice_to (blk_TransactionTraces prev) (sn_txTracesLen snap) = Inr ts"
        and cs: "slice_if_positive (blk_SystemCalls prev) (sn_systemCallsLen snap) = Inr cs"
        and bs: "slice_if_positive (blk_BalanceChanges prev) (sn_balanceChangesLen snap) = Inr bs"
        and ks: "slice_if_positive (blk_CodeChanges prev) (sn_codeChangesLen snap) = Inr ks"
        and t': "Inr (update_block (\<lambda>b. b\<lparr>
             blk_TransactionTraces := blk_TransactionTraces b @ ts,
             blk_SystemCalls := blk_SystemCalls b @ cs,
             blk_BalanceChanges := blk_BalanceChanges b @ bs,
             blk_CodeChanges := blk_CodeChanges b @ ks\<rparr>)
           (t\<lparr>t_blockOrdinal := ordinal_Restore (sn_ordinal snap) (t_blockOrdinal t)\<rparr>)) = (Inr t' :: go_panic + tracer)"
      show ?thesis
        using t' by (intro elims(2) [OF Some prev slice(1) [OF ts] slice(2) [OF cs] slice(2) [OF bs]
          slice(2) [OF ks]]) simp
    qed
  qed
qed

text \<open>
  The inversion of \<open>OnBlockStart\<close>: flash validation, the new block, the restored snapshot, the rest.
\<close>

lemma OnBlockStart_elim:
  assumes "OnBlockStart event t = Inr t'"
  obtains t0 t1 t2 r where
      "case ev_FlashBlock event of None \<Rightarrow> t0 = t
       | Some fb \<Rightarrow> handleFlashBlockStart fb (bd_Number (ev_Block event)) t = Inr t0"
    and "t1 = (freeze_snapshot (t0\<lparr>t_blockRules := r\<rparr>))\<lparr>t_block := Some (new_Block (ev_Block event))\<rparr>"
    and "if IsFlashBlock t1 then restoreFlashBlockSnapshot t1 = Inr t2 else t2 = t1"
    and "t' = fill_block event t2"
proof -
  let ?t1 = "\<lambda>t0 r. (freeze_snapshot (t0\<lparr>t_blockRules := r\<rparr>))\<lparr>t_block := Some (new_Block (ev_Block event))\<rparr>"
  obtain t0 c r where flash: "(case ev_FlashBlock event of None \<Rightarrow> Inr t
        | Some fb \<Rightarrow> handleFlashBlockStart fb (bd_Number (ev_Block event)) t) = Inr t0"
    and "t_chainConfig t0 = Some c"
    and "bindR (if IsFlashBlock (?t1 t0 r) then restoreFlashBlockSnapshot (?t1 t0 r) else Inr (?t1 t0 r))
           (\<lambda>t. Inr (fill_block event t)) = Inr t'"
    using assms
    by (simp only: OnBlockStart_def guard_Inr_iff bindR_Inr_iff [where m = "case x of None \<Rightarrow> y | Some z \<Rightarrow> f z" for x y z f]
        Let_def) (elim conjE exE, simp split: option.splits)
  then obtain t2 where "(if IsFlashBlock (?t1 t0 r) then restoreFlashBlockSnapshot (?t1 t0 r)
      else Inr (?t1 t0 r)) = Inr t2" and "t' = fill_block event t2"
    by (auto simp only: bindR_Inr_iff sum.inject)
  then show ?thesis
    using flash by (intro that [of t0 "?t1 t0 r" r t2]) (auto split: option.splits if_splits)
qed

lemma OnBlockStart_trx_state:
  assumes "OnBlockStart event t = Inr t'"
  shows "trx_state t' = trx_state t"
  using assms
proof (cases rule: OnBlockStart_elim)
  case (1 t0 t1 t2 r)
  have "trx_state t0 = trx_state t"
    using 1(1) by (auto split: option.splits elim!: handleFlashBlockStart_elim simp: trx_state_def)
  moreover have "trx_state t2 = trx_state t1"
    using 1(3) by (auto split: if_splits elim!: restoreFlashBlockSnapshot_elim)
  ultimately show ?thesis using 1(2,4) by simp
qed

end
