(* ===== verification/TracerParallel.thy ===== *)
theory TracerParallel
  imports TracerBlock
begin

section \<open>Parallel execution (tracer.go)\<close>

text \<open>
  A coordinator spawns isolated tracers, each tracing one transaction with ordinals of its own from
  0, and commits them one by one: the ordinals of the isolated trace are shifted past the
  coordinator's, which then continues after them. The isolated tracer shares the coordinator's
  block (\<open>on_shared\<close>).
\<close>

subsection \<open>Shifting ordinals\<close>

definition reorderCallOrdinals :: "u64 \<Rightarrow> Call \<Rightarrow> Call" where
  "reorderCallOrdinals base call = call\<lparr>
     call_BeginOrdinal := call_BeginOrdinal call + base,
     call_BalanceChanges := map (\<lambda>c. c\<lparr>bc_Ordinal := bc_Ordinal c + base\<rparr>) (call_BalanceChanges call),
     call_NonceChanges := map (\<lambda>c. c\<lparr>nc_Ordinal := nc_Ordinal c + base\<rparr>) (call_NonceChanges call),
     call_CodeChanges := map (\<lambda>c. c\<lparr>cc_Ordinal := cc_Ordinal c + base\<rparr>) (call_CodeChanges call),
     call_StorageChanges := map (\<lambda>c. c\<lparr>sc_Ordinal := sc_Ordinal c + base\<rparr>) (call_StorageChanges call),
     call_Logs := map (\<lambda>l. l\<lparr>log_Ordinal := log_Ordinal l + base\<rparr>) (call_Logs call),
     call_EndOrdinal := call_EndOrdinal call + base\<rparr>"

definition reorder_receipt :: "u64 \<Rightarrow> TransactionReceipt \<Rightarrow> TransactionReceipt" where
  "reorder_receipt base r =
     r\<lparr>rcp_Logs := map (\<lambda>l. l\<lparr>log_Ordinal := log_Ordinal l + base\<rparr>) (rcp_Logs r)\<rparr>"

text \<open>The Go function returns the new \<open>EndOrdinal\<close>, which the caller reads off the result here.\<close>

definition reorderTransactionOrdinals :: "u64 \<Rightarrow> TransactionTrace \<Rightarrow> TransactionTrace" where
  "reorderTransactionOrdinals base trx = trx\<lparr>
     trx_BeginOrdinal := trx_BeginOrdinal trx + base,
     trx_Calls := map (reorderCallOrdinals base) (trx_Calls trx),
     trx_Receipt := map_option (reorder_receipt base) (trx_Receipt trx),
     trx_EndOrdinal := trx_EndOrdinal trx + base\<rparr>"

subsection \<open>The merge helpers no hook uses\<close>

text \<open>
  \<open>reorderTraceOrdinals\<close> shifts each call by the end ordinal of the call before it, not by the
  trace's base.
\<close>

fun reorder_calls_from :: "u64 \<Rightarrow> Call list \<Rightarrow> Call list \<times> u64" where
  "reorder_calls_from base [] = ([], base)"
| "reorder_calls_from base (call # calls) =
     (let call' = reorderCallOrdinals base call;
          (rest, end') = reorder_calls_from (call_EndOrdinal call') calls
      in (call' # rest, end'))"

definition reorderTraceOrdinals :: "u64 \<Rightarrow> TransactionTrace \<Rightarrow> TransactionTrace" where
  "reorderTraceOrdinals base trx =
     (let (calls, base') = reorder_calls_from base (trx_Calls trx)
      in trx\<lparr>trx_BeginOrdinal := trx_BeginOrdinal trx + base, trx_Calls := calls,
             trx_EndOrdinal := trx_EndOrdinal trx + base'\<rparr>)"

definition addIsolatedTransaction :: "TransactionTrace \<Rightarrow> tracer \<Rightarrow> go_panic + tracer" where
  "addIsolatedTransaction isolatedTrace t =
     (let trx = reorderTraceOrdinals (ordinal_Peek (t_blockOrdinal t)) isolatedTrace;
          t = t\<lparr>t_blockOrdinal := ordinal_Set (trx_EndOrdinal trx) (t_blockOrdinal t)\<rparr>
      in if t_block t = None then Inl NilDereference
         else Inr (update_block
           (\<lambda>b. b\<lparr>blk_TransactionTraces := blk_TransactionTraces b @ [trx]\<rparr>) t))"

definition addIsolatedSystemCalls :: "Call list \<Rightarrow> tracer \<Rightarrow> go_panic + tracer" where
  "addIsolatedSystemCalls isolatedCalls t =
     (let base = ordinal_Peek (t_blockOrdinal t);
          calls = map (reorderCallOrdinals base) isolatedCalls;
          endOrdinal = (if calls = [] then base else call_EndOrdinal (last calls));
          t = t\<lparr>t_blockOrdinal := ordinal_Set endOrdinal (t_blockOrdinal t)\<rparr>
      in if t_block t = None then Inl NilDereference
         else Inr (update_block (\<lambda>b. b\<lparr>blk_SystemCalls := blk_SystemCalls b @ calls\<rparr>) t))"

subsection \<open>Spawn, reset, commit\<close>

definition newIsolatedTransactionTracer :: "tracer \<Rightarrow> tracer" where
  "newIsolatedTransactionTracer t = \<lparr>t_initSent = t_initSent t, t_config = t_config t,
     t_chainConfig = t_chainConfig t, t_concurrentFlush = False, t_output = [],
     t_block = t_block t, t_blockBaseFee = t_blockBaseFee t, t_blockOrdinal = new_Ordinal,
     t_blockFinality = t_blockFinality t, t_blockRules = t_blockRules t,
     t_blockReorderOrdinal = False, t_blockReorderOrdinalSnapshot = 0, t_blockIsGenesis = False,
     t_transaction = None, t_transactionLogIndex = 0, t_transactionStateReader = None,
     t_inSystemCall = False, t_transactionKeccakPreimages = [], t_interruptedTransaction = None,
     t_transactionIsolated = True, t_transactionTransient = None, t_transactionDropped = False,
     t_callStack = NewCallStack, t_deferredCallState = NewDeferredCallState,
     t_latestCallEnterSuicided = False, t_latestCallEnterSuicidedDepth = 0,
     t_flashBlockIndex = None, t_flashBlockIsFinal = False, t_snapshotForNextFlashBlock = None\<rparr>"

text \<open>
  The field \<open>block\<close> of an isolated tracer is the coordinator's pointer: while the coordinator is in that
  block, a method of the isolated tracer reads the coordinator's block and what it writes to the
  block is written there. \<open>on_shared f t s\<close> is the method \<open>f\<close> called on \<open>s\<close>, spawned by \<open>t\<close>; the value
  \<open>t_block s\<close> is what the pointer showed when \<open>s\<close> was last looked at.
\<close>

definition on_shared ::
    "(tracer \<Rightarrow> go_panic + tracer) \<Rightarrow> tracer \<Rightarrow> tracer \<Rightarrow> go_panic + (tracer \<times> tracer)" where
  "on_shared f t s =
     bindR (f (s\<lparr>t_block := t_block t\<rparr>)) (\<lambda>s'. Inr (t\<lparr>t_block := t_block s'\<rparr>, s'))"

definition OnTxSpawn :: "int \<Rightarrow> tracer \<Rightarrow> go_panic + tracer" where
  "OnTxSpawn txIndex t =
     guard (check (\<not> t_transactionIsolated t) t MsgSpawnOnIsolated)
       (guard (ensureInBlock t) (Inr (newIsolatedTransactionTracer t)))"

definition OnTxReset :: "tracer \<Rightarrow> go_panic + tracer" where
  "OnTxReset t =
     guard (check (t_transactionIsolated t) t MsgResetOnCoordinator)
       (Inr (t\<lparr>t_transaction := None, t_transactionStateReader := None, t_transactionLogIndex := 0,
          t_transactionTransient := None, t_transactionDropped := False,
          t_callStack := cs_Reset (t_callStack t),
          t_deferredCallState := df_Reset (t_deferredCallState t),
          t_latestCallEnterSuicided := False, t_latestCallEnterSuicidedDepth := 0,
          t_blockOrdinal := ordinal_Reset (t_blockOrdinal t)\<rparr>))"

datatype commit_error = CommitOnIsolated | CommitNotIsolated | NothingToCommit

text \<open>
  \<open>OnTxCommit\<close> returns the error, if any, with the coordinator and the isolated tracer. The isolated
  tracer's \<open>transaction\<close> is the trace that is shifted and committed.
\<close>

definition OnTxCommit ::
    "tracer \<Rightarrow> tracer \<Rightarrow> go_panic + (commit_error option \<times> tracer \<times> tracer)" where
  "OnTxCommit t isolated =
     (if t_transactionIsolated t then Inr (Some CommitOnIsolated, t, isolated)
      else if \<not> t_transactionIsolated isolated then Inr (Some CommitNotIsolated, t, isolated)
      else if t_transactionDropped isolated
      then Inr (None, t, isolated\<lparr>t_transactionDropped := False\<rparr>)
      else case t_transactionTransient isolated of
             None \<Rightarrow> Inr (Some NothingToCommit, t, isolated)
           | Some transient \<Rightarrow>
               let baseOrdinal = ordinal_Peek (t_blockOrdinal t);
                   trx = reorderTransactionOrdinals baseOrdinal transient;
                   endOrdinal = trx_EndOrdinal trx;
                   isolated = update_transaction (reorderTransactionOrdinals baseOrdinal) isolated
               in if t_block t = None then Inl NilDereference
                  else
                    let t = update_block (\<lambda>b. b\<lparr>blk_TransactionTraces :=
                              blk_TransactionTraces b @ [trx]\<rparr>) t;
                        t = t\<lparr>t_blockOrdinal := ordinal_Set endOrdinal (t_blockOrdinal t)\<rparr>
                    in Inr (None, t, isolated\<lparr>t_transactionTransient := None\<rparr>))"

end
