(* ===== verification/Genesis.thy ===== *)
theory Genesis
  imports TracerBlock
begin

section \<open>The genesis block (tracer.go)\<close>

text \<open>
  \<open>OnGenesisBlock\<close> traces the allocation as one synthetic transaction with one synthetic call. A Go
  map is visited in no particular order, here the order of an association list with distinct keys;
  the code sorts the keys, and the result does not depend on that order.
\<close>

definition map_keys :: "('k \<times> 'v) list \<Rightarrow> 'k list" where
  "map_keys m = map fst m"

definition sortedGenesisAddresses :: "GenesisAlloc \<Rightarrow> bytes list" where
  "sortedGenesisAddresses alloc = SortFunc bytes_Compare (map_keys alloc)"

definition sortedStorageKeys :: "(bytes \<times> bytes) list \<Rightarrow> bytes list" where
  "sortedStorageKeys storage = SortFunc bytes_Compare (map_keys storage)"

definition no_account :: GenesisAccount where
  "no_account = \<lparr>ga_Code = [], ga_Storage = [], ga_Balance = None, ga_Nonce = 0\<rparr>"

definition genesis_balance :: "bytes \<Rightarrow> GenesisAccount \<Rightarrow> tracer \<Rightarrow> go_panic + tracer" where
  "genesis_balance addr account t =
     (case ga_Balance account of
        None \<Rightarrow> Inr t
      | Some b \<Rightarrow> if sgn b \<noteq> 0
                  then OnBalanceChange addr (Some 0) (Some b) REASON_GENESIS_BALANCE t
                  else Inr t)"

definition genesis_code :: "Crypto \<Rightarrow> bytes \<Rightarrow> GenesisAccount \<Rightarrow> tracer \<Rightarrow> go_panic + tracer" where
  "genesis_code cr addr account t =
     (if length (ga_Code account) > 0
      then OnCodeChange addr EmptyHash (hashBytes cr (ga_Code account)) [] (ga_Code account) t
      else Inr t)"

definition genesis_nonce :: "bytes \<Rightarrow> GenesisAccount \<Rightarrow> tracer \<Rightarrow> go_panic + tracer" where
  "genesis_nonce addr account t =
     (if ga_Nonce account > 0 then OnNonceChange addr 0 (ga_Nonce account) t else Inr t)"

definition genesis_storage :: "bytes \<Rightarrow> GenesisAccount \<Rightarrow> tracer \<Rightarrow> go_panic + tracer" where
  "genesis_storage addr account t =
     foldR (\<lambda>key. OnStorageChange addr key EmptyHash (map_get (ga_Storage account) EmptyHash key))
       (sortedStorageKeys (ga_Storage account)) t"

definition genesis_account :: "Crypto \<Rightarrow> GenesisAlloc \<Rightarrow> bytes \<Rightarrow> tracer \<Rightarrow> go_panic + tracer" where
  "genesis_account cr alloc addr t =
     (let account = map_get alloc no_account addr
      in bindR (genesis_balance addr account t) (\<lambda>t.
         bindR (genesis_code cr addr account t) (\<lambda>t.
         bindR (genesis_nonce addr account t) (\<lambda>t.
           genesis_storage addr account t))))"

definition genesis_event :: TxEvent where
  "genesis_event = \<lparr>te_Type = 0, te_Hash = replicate 32 0, te_From = replicate 20 0,
     te_To = Some (replicate 20 0), te_Input = [], te_Value = None, te_Gas = 0, te_GasPrice = None,
     te_Nonce = 0, te_Index = 0, te_V = [], te_R = replicate 32 0, te_S = replicate 32 0,
     te_MaxFeePerGas = None, te_MaxPriorityFeePerGas = None, te_AccessList = [],
     te_BlobGasFeeCap = None, te_BlobHashes = [], te_SetCodeAuthorizations = []\<rparr>"

definition genesis_receipt :: "BlockEvent \<Rightarrow> ReceiptData" where
  "genesis_receipt event = \<lparr>rd_TransactionIndex = 0, rd_GasUsed = 0, rd_Status = 1, rd_Logs = [],
     rd_LogsBloom = replicate 256 0, rd_CumulativeGasUsed = 0, rd_BlobGasUsed = 0,
     rd_BlobGasPrice = None, rd_StateRoot = bd_Root (ev_Block event)\<rparr>"

definition OnGenesisBlock :: "Crypto \<Rightarrow> BlockEvent \<Rightarrow> GenesisAlloc \<Rightarrow> tracer \<Rightarrow> go_panic + tracer" where
  "OnGenesisBlock cr event alloc t =
     (if cfg_IgnoreGenesisBlock (t_config t) then Inr t
      else guard (ensureBlockChainInit t)
        (bindR (OnBlockStart event (t\<lparr>t_blockIsGenesis := True\<rparr>)) (\<lambda>t.
         bindR (OnTxStart cr genesis_event None t) (\<lambda>t.
         bindR (OnCallEnter 0 CallTypeCall (replicate 20 0) (replicate 20 0) [] 0 None t) (\<lambda>t.
         bindR (foldR (genesis_account cr alloc) (sortedGenesisAddresses alloc) t) (\<lambda>t.
         bindR (OnCallExit 0 [] 0 None False t) (\<lambda>t.
         bindR (OnTxEnd (Some (genesis_receipt event)) None t) (OnBlockEnd None))))))))"

end
