(* ===== verification/CallTree.thy ===== *)
theory CallTree
  imports TracerParallel Genesis
begin

section \<open>The call tree of a transaction\<close>

text \<open>
  What the calls of a transaction look like when it ends, and what the code concludes from it: the
  indexes are 1 to the number of calls, a parent comes before its children, so that after sorting a
  parent stands where \<open>populateStateReverted\<close> looks for it and the marks it leaves are those of the
  tree.
\<close>

subsection \<open>What the steps of completeTransaction leave alone\<close>

lemma attach_step_keeps:
  assumes "\<And>c m. f (c\<lparr>call_KeccakPreimages := m\<rparr>) = f c"
  shows "map f (attach_step index kept r calls) = map f calls"
proof -
  have "f (add_preimage k v c) = f c" for k v c by (simp add: add_preimage_def assms)
  then have "map f (calls[i := add_preimage k v (calls ! i)]) = map f calls" for i k v
    by (cases "i < length calls") (simp_all add: map_update list_update_same_conv list_update_beyond)
  then show ?thesis by (simp add: attach_step_def split: option.split)
qed

lemma attach_keeps:
  assumes "\<And>c m. f (c\<lparr>call_KeccakPreimages := m\<rparr>) = f c"
  shows "map f (attachStorageSlotPreimages calls recorded) = map f calls"
proof -
  have "map f (fold (attach_step index kept) rs cs) = map f cs" for index kept rs cs
    by (induction rs arbitrary: cs) (simp_all add: attach_step_keeps assms)
  then show ?thesis by (simp add: attachStorageSlotPreimages_def Let_def)
qed

lemma mark_reverted_keeps:
  assumes "\<And>c m. f (c\<lparr>call_StateReverted := m\<rparr>) = f c" and "mark_reverted i calls = Inr calls'"
  shows "map f calls' = map f calls"
proof -
  have "map f (calls[i := (calls ! i)\<lparr>call_StateReverted := m\<rparr>]) = map f calls" for m
    by (cases "i < length calls") (simp_all add: map_update list_update_same_conv list_update_beyond assms(1))
  with assms(2) show ?thesis
    by (auto simp: mark_reverted_def Let_def split: if_splits option.splits)
qed

lemma populate_keeps:
  assumes "\<And>c m. f (c\<lparr>call_StateReverted := m\<rparr>) = f c" and "populateStateReverted calls = Inr calls'"
  shows "map f calls' = map f calls"
proof -
  note run = assms(2) [unfolded populateStateReverted_def]
  show ?thesis
    using foldR_invariant [OF run, of "\<lambda>cs. map f cs = map f calls"]
      mark_reverted_keeps [of f, OF assms(1)] by auto
qed

lemma removeLogBlockIndex_keeps:
  assumes "\<And>c ls. map log_Ordinal ls = map log_Ordinal (call_Logs c) \<Longrightarrow> f (c\<lparr>call_Logs := ls\<rparr>) = f c"
  shows "map f (removeLogBlockIndexOnStateRevertedCalls cfg calls) = map f calls"
  by (auto simp: removeLogBlockIndexOnStateRevertedCalls_def intro!: assms)

interpretation call_sort: slices_sort "SortFunc call_compare" call_Index
  by (rule slices_sort_by_key) (simp add: call_compare_def cmp_Compare_le_iff)

interpretation log_sort: slices_sort "SortFunc log_compare" log_Ordinal
  by (rule slices_sort_by_key) (simp add: log_compare_def cmp_Compare_le_iff)

subsection \<open>Reverted calls\<close>

text \<open>Calls in index order: the \<open>i\<close>th has index \<open>i + 1\<close>, and its parent, if any, comes before it.\<close>

definition numbered :: "Call list \<Rightarrow> bool" where
  "numbered calls \<longleftrightarrow> (\<forall>i < length calls.
     unat (call_Index (calls ! i)) = i + 1 \<and> unat (call_ParentIndex (calls ! i)) \<le> i)"

text \<open>A call's state is reverted when it failed or when its parent's state is.\<close>

inductive reverted :: "Call list \<Rightarrow> nat \<Rightarrow> bool" for calls where
  failed: "i < length calls \<Longrightarrow> call_StatusFailed (calls ! i) \<Longrightarrow> reverted calls i"
| parent: "i < length calls \<Longrightarrow> unat (call_ParentIndex (calls ! i)) = Suc p \<Longrightarrow> reverted calls p
    \<Longrightarrow> reverted calls i"

inductive_simps reverted_iff: "reverted calls i"

text \<open>The state of the loop of \<open>populateStateReverted\<close> after \<open>k\<close> iterations.\<close>

definition marked_upto :: "Call list \<Rightarrow> nat \<Rightarrow> Call list" where
  "marked_upto calls k = map (\<lambda>i. if i < k then (calls ! i)\<lparr>call_StateReverted := reverted calls i\<rparr>
     else calls ! i) [0..<length calls]"

lemma marked_upto_simps [simp]:
  "length (marked_upto calls k) = length calls"
  "i < length calls \<Longrightarrow> marked_upto calls k ! i
     = (if i < k then (calls ! i)\<lparr>call_StateReverted := reverted calls i\<rparr> else calls ! i)"
  by (simp_all add: marked_upto_def)

lemma unat_pred:
  fixes p :: u32
  shows "0 < p \<Longrightarrow> unat (p - 1) = unat p - 1"
  by (metis unat_minus_one word_gt_0)

lemma mark_reverted_step:
  assumes "numbered calls" and "k < length calls"
  shows "mark_reverted k (marked_upto calls k) = Inr (marked_upto calls (Suc k))"
proof -
  let ?c = "calls ! k"
  let ?p = "unat (call_ParentIndex ?c)"
  have p: "?p \<le> k" using assms by (simp add: numbered_def)
  have step: "marked_upto calls (Suc k)
      = (marked_upto calls k)[k := ?c\<lparr>call_StateReverted := reverted calls k\<rparr>]"
    by (rule nth_equalityI) (auto simp: nth_list_update less_Suc_eq)
  show ?thesis
  proof (cases "call_ParentIndex ?c > 0")
    case True
    then have "?p = Suc (?p - 1)" by (simp add: word_less_nat_alt)
    then obtain q where q: "?p = Suc q" by blast
    have "q < k" using q p by simp
    moreover have "unat (call_ParentIndex ?c - 1) = q" using unat_pred [OF True] q by simp
    moreover have "reverted calls k \<longleftrightarrow> call_StatusFailed ?c \<or> reverted calls q"
      using q assms(2) by (subst reverted_iff) auto
    ultimately show ?thesis
      using True assms(2) step by (auto simp: mark_reverted_def Let_def nth_opt_def)
  next
    case False
    then have "?p = 0" by (simp add: word_less_nat_alt)
    then have "reverted calls k \<longleftrightarrow> call_StatusFailed ?c"
      using assms(2) by (subst reverted_iff) auto
    with False assms(2) step show ?thesis by (simp add: mark_reverted_def Let_def)
  qed
qed

lemma populate_numbered:
  assumes "numbered calls"
  shows "populateStateReverted calls = Inr (marked_upto calls (length calls))"
proof -
  have "k \<le> length calls \<Longrightarrow> foldR mark_reverted [0..<k] calls = Inr (marked_upto calls k)" for k
  proof (induction k)
    case 0
    have "marked_upto calls 0 = calls" by (rule nth_equalityI) simp_all
    then show ?case by simp
  next
    case (Suc k)
    then show ?case by (simp add: foldR_append mark_reverted_step [OF assms])
  qed
  then show ?thesis by (simp add: populateStateReverted_def)
qed

text \<open>
  C19. On calls in index order \<open>populateStateReverted\<close> never indexes out of range, changes nothing but
  \<open>StateReverted\<close>, and sets it exactly on the calls that failed or have a failed ancestor.
\<close>

theorem populateStateReverted_spec:
  assumes "numbered calls"
  shows "\<exists>calls'. populateStateReverted calls = Inr calls' \<and> length calls' = length calls
    \<and> (\<forall>i < length calls. calls' ! i = (calls ! i)\<lparr>call_StateReverted := reverted calls i\<rparr>)"
  using populate_numbered [OF assms] by (intro exI [of _ "marked_upto calls (length calls)"]) simp


subsection \<open>What completeTransaction returns\<close>

text \<open>Functions of a call that see neither its preimages, nor its revert mark, nor log block indexes.\<close>

definition blind :: "(Call \<Rightarrow> 'a) \<Rightarrow> bool" where
  "blind f \<longleftrightarrow> (\<forall>c m. f (c\<lparr>call_KeccakPreimages := m\<rparr>) = f c)
     \<and> (\<forall>c m. f (c\<lparr>call_StateReverted := m\<rparr>) = f c)
     \<and> (\<forall>c ls. map log_Ordinal ls = map log_Ordinal (call_Logs c) \<longrightarrow> f (c\<lparr>call_Logs := ls\<rparr>) = f c)"

text \<open>The calls once sorted, with the remaining deferred state in the root call.\<close>

definition settled_calls :: "DeferredCallState \<Rightarrow> Call list \<Rightarrow> Call list" where
  "settled_calls d calls =
     (let sorted_calls = SortFunc call_compare calls
      in sorted_calls[0 := append_deferred d (sorted_calls ! 0)])"

lemma assign_keeps_trx:
  "assignOrdinalAndIndexToReceiptLogs t trx = Inr trx' \<Longrightarrow>
     trx_Calls trx' = trx_Calls trx \<and> trx_BeginOrdinal trx' = trx_BeginOrdinal trx
     \<and> trx_SetCodeAuthorizations trx' = trx_SetCodeAuthorizations trx"
  by (auto simp: assignOrdinalAndIndexToReceiptLogs_def Let_def hook_simps split: if_splits)

lemma apply_receipt_keeps [simp]:
  "trx_Calls (apply_receipt r trx) = trx_Calls trx"
  "trx_BeginOrdinal (apply_receipt r trx) = trx_BeginOrdinal trx"
  by (simp_all add: apply_receipt_def)

lemma finish_trace_keeps:
  assumes "finish_trace t receipt trx = Inr trx'" and "blind f"
  shows "map f (trx_Calls trx') = map f (trx_Calls trx) \<and> trx_BeginOrdinal trx' = trx_BeginOrdinal trx"
proof -
  define trx1 where "trx1 = (case receipt of None \<Rightarrow> trx | Some r \<Rightarrow> apply_receipt r trx)"
  have trx1: "trx_Calls trx1 = trx_Calls trx" "trx_BeginOrdinal trx1 = trx_BeginOrdinal trx"
    by (simp_all add: trx1_def split: option.split)
  obtain calls trx2 where p: "populateStateReverted (trx_Calls trx) = Inr calls"
    and a: "assignOrdinalAndIndexToReceiptLogs t
      (update_calls (removeLogBlockIndexOnStateRevertedCalls (t_config t)) (trx2\<lparr>trx_Calls := calls\<rparr>))
      = Inr trx'"
    and b: "trx_BeginOrdinal trx2 = trx_BeginOrdinal trx"
    using assms(1) trx1
    by (auto simp: finish_trace_def Let_def trx1_def [symmetric] bindR_Inr_iff split: if_splits)
  have "map f calls = map f (trx_Calls trx)"
    using assms(2) by (intro populate_keeps [OF _ p]) (simp add: blind_def)
  moreover have "map f (removeLogBlockIndexOnStateRevertedCalls (t_config t) calls) = map f calls"
    using assms(2) by (intro removeLogBlockIndex_keeps) (simp add: blind_def)
  ultimately show ?thesis using assign_keeps_trx [OF a] b by (simp add: update_calls_def)
qed

lemma discard_keeps [simp]:
  "trx_Calls (discardUncommittedSetCodeAuthorizations c trx) = trx_Calls trx"
  "trx_BeginOrdinal (discardUncommittedSetCodeAuthorizations c trx) = trx_BeginOrdinal trx"
  by (simp_all add: discardUncommittedSetCodeAuthorizations_def)

lemma update_calls_fields [simp]:
  "trx_Calls (update_calls f trx) = f (trx_Calls trx)"
  "trx_BeginOrdinal (update_calls f trx) = trx_BeginOrdinal trx"
  by (simp_all add: update_calls_def)

lemma populate_root_step:
  "(if t_deferredCallState t = NewDeferredCallState then Inr (trx, t)
    else case MaybePopulateCallAndReset ''root'' (trx_Calls trx ! 0) (t_deferredCallState t) of
           Inl e \<Rightarrow> Inl (PopulateFailed e)
         | Inr (rootCall, d) \<Rightarrow>
             Inr (update_calls (\<lambda>calls. calls[0 := rootCall]) trx, t\<lparr>t_deferredCallState := d\<rparr>))
   = Inr (update_calls (\<lambda>calls. calls[0 := append_deferred (t_deferredCallState t) (calls ! 0)]) trx,
       t\<lparr>t_deferredCallState := NewDeferredCallState\<rparr>)"
proof (cases "t_deferredCallState t = NewDeferredCallState")
  case True
  then have "t\<lparr>t_deferredCallState := NewDeferredCallState\<rparr> = t" by (cases t) simp
  with True show ?thesis by (simp add: update_calls_def)
next
  case False
  then show ?thesis by (simp add: populate_root update_calls_def)
qed

text \<open>
  The inversion lemma of \<open>completeTransaction\<close>: the trace is replaced by one whose calls are, up to
  what the steps change, the settled calls; one ordinal is taken for its end.
\<close>

lemma completeTransaction_elim:
  assumes "completeTransaction receipt err t = Inr t'"
  obtains trx trx' where "t_transaction t = Some trx"
    and "t' = t\<lparr>t_blockOrdinal := snd (ordinal_Next (t_blockOrdinal t)),
        t_transaction := Some trx', t_transactionTransient := t_transactionTransient t',
        t_deferredCallState := t_deferredCallState t',
        t_transactionKeccakPreimages := t_transactionKeccakPreimages t'\<rparr>"
    and "trx_BeginOrdinal trx' = trx_BeginOrdinal trx"
    and "trx_EndOrdinal trx' = ord_value (t_blockOrdinal t) + 1"
    and "trx_Calls trx = [] \<and> trx_Calls trx' = [] \<and> t_deferredCallState t' = t_deferredCallState t
      \<or> trx_Calls trx \<noteq> [] \<and> t_deferredCallState t' = NewDeferredCallState
        \<and> (\<forall>f :: Call \<Rightarrow> 'a. blind f \<longrightarrow>
             map f (trx_Calls trx') = map f (settled_calls (t_deferredCallState t) (trx_Calls trx)))"
proof -
  obtain trx where trx: "t_transaction t = Some trx"
    using assms by (auto simp: completeTransaction_def split: option.splits)
  show ?thesis
  proof (cases "trx_Calls trx = []")
    case True
    have t': "t' = update_transaction (\<lambda>trx. trx\<lparr>trx_EndOrdinal := ord_value (t_blockOrdinal t) + 1\<rparr>)
        (t\<lparr>t_blockOrdinal := snd (ordinal_Next (t_blockOrdinal t))\<rparr>)"
      using assms trx True by (simp add: completeTransaction_def hook_simps)
    show ?thesis
      by (rule that [OF trx, of "trx\<lparr>trx_EndOrdinal := ord_value (t_blockOrdinal t) + 1\<rparr>"])
         (simp_all add: t' trx True update_transaction_def)
  next
    case False
    let ?d = "t_deferredCallState t"
    obtain t0 trx2 where t0: "t0 = t\<lparr>t_deferredCallState := NewDeferredCallState,
        t_transactionKeccakPreimages := []\<rparr>"
      and fin: "finish_trace t0 receipt (update_calls (\<lambda>calls. attachStorageSlotPreimages calls
        (t_transactionKeccakPreimages t)) (update_calls (\<lambda>calls. calls[0 := append_deferred ?d (calls ! 0)])
        (discardUncommittedSetCodeAuthorizations (SortFunc call_compare (trx_Calls trx) ! 0)
          (update_calls (SortFunc call_compare) trx)))) = Inr trx2"
      and t': "t' = update_transaction (\<lambda>_. trx2\<lparr>trx_EndOrdinal := ord_value (t_blockOrdinal t) + 1\<rparr>)
        (t0\<lparr>t_blockOrdinal := snd (ordinal_Next (t_blockOrdinal t0))\<rparr>)"
      using assms trx False
      by (auto simp: completeTransaction_def populate_root_step bindR_Inr_iff Let_def)
    show ?thesis
    proof (rule that [OF trx, of "trx2\<lparr>trx_EndOrdinal := ord_value (t_blockOrdinal t) + 1\<rparr>"])
      show "trx_Calls trx = [] \<and> trx_Calls (trx2\<lparr>trx_EndOrdinal := ord_value (t_blockOrdinal t) + 1\<rparr>) = []
          \<and> t_deferredCallState t' = ?d
        \<or> trx_Calls trx \<noteq> [] \<and> t_deferredCallState t' = NewDeferredCallState
          \<and> (\<forall>f :: Call \<Rightarrow> 'a. blind f \<longrightarrow>
               map f (trx_Calls (trx2\<lparr>trx_EndOrdinal := ord_value (t_blockOrdinal t) + 1\<rparr>))
               = map f (settled_calls ?d (trx_Calls trx)))"
      proof (intro disjI2 conjI allI impI)
        fix f :: "Call \<Rightarrow> 'a"
        assume f: "blind f"
        have "map f (attachStorageSlotPreimages cs rs) = map f cs" for cs rs
          using f by (intro attach_keeps) (simp add: blind_def)
        then show "map f (trx_Calls (trx2\<lparr>trx_EndOrdinal := ord_value (t_blockOrdinal t) + 1\<rparr>))
            = map f (settled_calls ?d (trx_Calls trx))"
          using finish_trace_keeps [OF fin f] by (simp add: update_calls_def settled_calls_def Let_def)
      qed (simp_all add: False t' t0 update_transaction_def)
      show "trx_BeginOrdinal (trx2\<lparr>trx_EndOrdinal := ord_value (t_blockOrdinal t) + 1\<rparr>)
          = trx_BeginOrdinal trx"
        using finish_trace_keeps [OF fin, of "\<lambda>_. ()"] by (simp add: update_calls_def blind_def)
    qed (simp_all add: t' t0 trx update_transaction_def)
  qed
qed

end
