(* ===== verification/Lifecycle.thy ===== *)
theory Lifecycle
  imports CallTree
begin

section \<open>The tracer as a state machine\<close>

text \<open>
  The hooks as data, so that what a chain implementation does to one tracer is a list of hooks.
  \<open>OnGenesisBlock\<close> and \<open>OnSkippedBlock\<close> are sequences of other hooks (\<open>genesis_is_run\<close>,
  \<open>skipped_is_run\<close>), so that invariants need only be proved for the hooks listed here.
\<close>

datatype hook =
    HBlockStart BlockEvent
  | HBlockEnd "go_error option"
  | HSnapshot
  | HTxStart TxEvent "StateReader option"
  | HTxEnd "ReceiptData option" "go_error option"
  | HTxReset
  | HCallEnter int byte bytes bytes bytes u64 "int option"
  | HCallExit int bytes u64 "go_error option" bool
  | HOpcode u64 byte u64 u64 bytes int "go_error option"
  | HOpcodeFault u64 byte u64 u64 int "go_error option"
  | HKeccakPreimage bytes bytes
  | HBalanceChange bytes "int option" "int option" BalanceChange_Reason
  | HNonceChange bytes u64 u64
  | HCodeChange bytes bytes bytes bytes bytes
  | HStorageChange bytes bytes bytes bytes
  | HLog bytes "bytes list" bytes u32
  | HSystemCallStart
  | HSystemCallEnd

primrec apply_hook :: "Crypto \<Rightarrow> hook \<Rightarrow> tracer \<Rightarrow> go_panic + tracer" where
  "apply_hook cr (HBlockStart event) t = OnBlockStart event t"
| "apply_hook cr (HBlockEnd err) t = OnBlockEnd err t"
| "apply_hook cr HSnapshot t = SnapshotFlashBlockForNextIteration t"
| "apply_hook cr (HTxStart event reader) t = OnTxStart cr event reader t"
| "apply_hook cr (HTxEnd receipt err) t = OnTxEnd receipt err t"
| "apply_hook cr HTxReset t = OnTxReset t"
| "apply_hook cr (HCallEnter depth typ caller target input gas value) t =
     OnCallEnter depth typ caller target input gas value t"
| "apply_hook cr (HCallExit depth output gasUsed err reverted1) t =
     OnCallExit depth output gasUsed err reverted1 t"
| "apply_hook cr (HOpcode pc op1 gas cost rData depth err) t = OnOpcode pc op1 gas cost rData depth err t"
| "apply_hook cr (HOpcodeFault pc op1 gas cost depth err) t = OnOpcodeFault pc op1 gas cost depth err t"
| "apply_hook cr (HKeccakPreimage hash preimage) t = OnKeccakPreimage hash preimage t"
| "apply_hook cr (HBalanceChange addr old new reason) t = OnBalanceChange addr old new reason t"
| "apply_hook cr (HNonceChange addr old new) t = OnNonceChange addr old new t"
| "apply_hook cr (HCodeChange addr prevHash newHash old new) t = OnCodeChange addr prevHash newHash old new t"
| "apply_hook cr (HStorageChange addr slot old new) t = OnStorageChange addr slot old new t"
| "apply_hook cr (HLog addr topics data idx) t = OnLog addr topics data idx t"
| "apply_hook cr HSystemCallStart t = OnSystemCallStart t"
| "apply_hook cr HSystemCallEnd t = OnSystemCallEnd t"

definition run_hooks :: "Crypto \<Rightarrow> hook list \<Rightarrow> tracer \<Rightarrow> go_panic + tracer" where
  "run_hooks cr hs t = foldR (apply_hook cr) hs t"

lemma run_hooks_eq: "run_hooks cr = foldR (apply_hook cr)"
  by (simp add: run_hooks_def fun_eq_iff)

lemma run_hooks_simps [simp]:
  "run_hooks cr [] = Inr"
  "run_hooks cr (h # hs) = (\<lambda>t. bindR (apply_hook cr h t) (run_hooks cr hs))"
  by (simp_all add: run_hooks_eq fun_eq_iff)

lemma run_hooks_append: "run_hooks cr (hs @ hs') = (\<lambda>t. bindR (run_hooks cr hs t) (run_hooks cr hs'))"
  by (simp add: run_hooks_eq foldR_append fun_eq_iff)

lemma bindR_Inr_id [simp]: "bindR m Inr = m"
  by (cases m) auto

lemma bindR_assoc: "bindR (bindR m f) g = bindR m (\<lambda>x. bindR (f x) g)"
  by (cases m) auto

subsection \<open>Composite hooks are runs\<close>

lemma skipped_is_run:
  "t_transaction t = None \<Longrightarrow>
     OnSkippedBlock event t = run_hooks cr [HBlockStart event, HBlockEnd None] t"
  by (simp add: OnSkippedBlock_def check_def)

definition account_hooks :: "Crypto \<Rightarrow> bytes \<Rightarrow> GenesisAccount \<Rightarrow> hook list" where
  "account_hooks cr addr account =
     (case ga_Balance account of
        None \<Rightarrow> []
      | Some b \<Rightarrow> if sgn b \<noteq> 0
                  then [HBalanceChange addr (Some 0) (Some b) REASON_GENESIS_BALANCE] else [])
     @ (if length (ga_Code account) > 0
        then [HCodeChange addr EmptyHash (hashBytes cr (ga_Code account)) [] (ga_Code account)] else [])
     @ (if ga_Nonce account > 0 then [HNonceChange addr 0 (ga_Nonce account)] else [])
     @ map (\<lambda>key. HStorageChange addr key EmptyHash (map_get (ga_Storage account) EmptyHash key))
         (sortedStorageKeys (ga_Storage account))"

definition alloc_hooks :: "Crypto \<Rightarrow> GenesisAlloc \<Rightarrow> hook list" where
  "alloc_hooks cr alloc = concat (map (\<lambda>addr. account_hooks cr addr (map_get alloc no_account addr))
     (sortedGenesisAddresses alloc))"

definition genesis_hooks :: "Crypto \<Rightarrow> BlockEvent \<Rightarrow> GenesisAlloc \<Rightarrow> hook list" where
  "genesis_hooks cr event alloc =
     [HBlockStart event, HTxStart genesis_event None,
      HCallEnter 0 CallTypeCall (replicate 20 0) (replicate 20 0) [] 0 None]
     @ alloc_hooks cr alloc
     @ [HCallExit 0 [] 0 None False, HTxEnd (Some (genesis_receipt event)) None, HBlockEnd None]"

lemma storage_hooks_run:
  "foldR (\<lambda>key. OnStorageChange addr key z (g key)) ks t
   = run_hooks cr (map (\<lambda>key. HStorageChange addr key z (g key)) ks) t"
proof (induction ks arbitrary: t)
  case Nil
  then show ?case by simp
next
  case (Cons k ks)
  then show ?case by (cases "OnStorageChange addr k z (g k) t") simp_all
qed

lemma account_hooks_run:
  "genesis_account cr alloc addr t
   = run_hooks cr (account_hooks cr addr (map_get alloc no_account addr)) t"
proof -
  have storage: "genesis_storage addr account = run_hooks cr (map (\<lambda>key.
      HStorageChange addr key EmptyHash (map_get (ga_Storage account) EmptyHash key))
         (sortedStorageKeys (ga_Storage account)))" for account
    by (rule ext) (simp add: genesis_storage_def storage_hooks_run)
  show ?thesis
    by (simp add: genesis_account_def account_hooks_def Let_def run_hooks_append storage
        genesis_balance_def genesis_code_def genesis_nonce_def split: option.split)
qed

lemma alloc_hooks_run:
  "foldR (genesis_account cr alloc) (sortedGenesisAddresses alloc) t = run_hooks cr (alloc_hooks cr alloc) t"
proof -
  have "foldR (genesis_account cr alloc) as t = run_hooks cr (concat (map
      (\<lambda>addr. account_hooks cr addr (map_get alloc no_account addr)) as)) t" for as
  proof (induction as arbitrary: t)
    case Nil
    then show ?case by simp
  next
    case (Cons a as)
    have "foldR (genesis_account cr alloc) as = run_hooks cr (concat (map
      (\<lambda>addr. account_hooks cr addr (map_get alloc no_account addr)) as))"
      by (rule ext) (rule Cons.IH)
    then show ?case by (simp add: account_hooks_run [of cr alloc a t] run_hooks_append)
  qed
  then show ?thesis by (simp add: alloc_hooks_def)
qed

lemma genesis_is_run:
  assumes "\<not> cfg_IgnoreGenesisBlock (t_config t)" and "t_chainConfig t \<noteq> None"
  shows "OnGenesisBlock cr event alloc t
    = run_hooks cr (genesis_hooks cr event alloc) (t\<lparr>t_blockIsGenesis := True\<rparr>)"
proof -
  have "foldR (genesis_account cr alloc) (sortedGenesisAddresses alloc) = run_hooks cr (alloc_hooks cr alloc)"
    by (rule ext) (rule alloc_hooks_run)
  with assms show ?thesis
    by (simp add: OnGenesisBlock_def genesis_hooks_def run_hooks_append hook_simps ensureBlockChainInit_def
        check_def)
qed

end
