(* ===== verification/TreeInv.thy ===== *)
theory TreeInv
  imports Lifecycle
begin

section \<open>Every reachable call tree is well numbered\<close>

text \<open>
  The invariant: the indexes of the active and the recorded calls of a transaction are exactly 1 to
  the call counter, and each call's parent has a smaller index. It holds for the transaction being
  traced and for the one a system call set aside. Every hook preserves it, as long as the 32-bit
  call counter does not wrap.
\<close>

definition shape :: "Call \<Rightarrow> nat \<times> nat" where
  "shape c = (unat (call_Index c), unat (call_ParentIndex c))"

definition recorded_calls :: "TransactionTrace option \<Rightarrow> Call list" where
  "recorded_calls trx = (case trx of None \<Rightarrow> [] | Some x \<Rightarrow> trx_Calls x)"

lemma recorded_calls_simps [simp]:
  "recorded_calls None = []" "recorded_calls (Some x) = trx_Calls x"
  by (simp_all add: recorded_calls_def)

definition tree_shapes :: "CallStack \<Rightarrow> TransactionTrace option \<Rightarrow> (nat \<times> nat) multiset" where
  "tree_shapes cs trx = mset (map shape (cs_stack cs)) + mset (map shape (recorded_calls trx))"

definition shapes_ok :: "(nat \<times> nat) multiset \<Rightarrow> nat \<Rightarrow> bool" where
  "shapes_ok S n \<longleftrightarrow> image_mset fst S = mset [1..<Suc n] \<and> (\<forall>(i, p) \<in># S. p < i)"

definition well_numbered :: "CallStack \<Rightarrow> TransactionTrace option \<Rightarrow> bool" where
  "well_numbered cs trx \<longleftrightarrow> shapes_ok (tree_shapes cs trx) (unat (cs_index cs))"

definition tree_ok :: "tracer \<Rightarrow> bool" where
  "tree_ok t \<longleftrightarrow> well_numbered (t_callStack t) (t_transaction t)
     \<and> (case t_interruptedTransaction t of
          None \<Rightarrow> True
        | Some s \<Rightarrow> well_numbered (it_callStack s) (it_transaction s))"

subsection \<open>What the invariant looks at\<close>

definition tree_data :: "tracer \<Rightarrow> (nat \<times> nat) multiset \<times> u32 \<times> interruptedTransactionState option" where
  "tree_data t = (tree_shapes (t_callStack t) (t_transaction t), cs_index (t_callStack t),
     t_interruptedTransaction t)"

lemma tree_ok_data: "tree_data t' = tree_data t \<Longrightarrow> tree_ok t \<Longrightarrow> tree_ok t'"
  by (simp add: tree_data_def tree_ok_def well_numbered_def)

lemma well_numbered_New [simp]:
  "well_numbered NewCallStack None" "well_numbered NewCallStack (Some empty_Trace)"
  by (simp_all add: well_numbered_def tree_shapes_def shapes_ok_def empty_Trace_def)

lemma shape_update_last:
  "(\<And>c. shape (f c) = shape c) \<Longrightarrow> map shape (update_last f cs) = map shape cs"
  by (rule map_update_last)

lemma tree_shapes_update_top:
  "(\<And>c. shape (f c) = shape c) \<Longrightarrow> tree_shapes (cs_update_top f cs) trx = tree_shapes cs trx"
  by (simp add: tree_shapes_def shape_update_last)

lemma tree_data_update_active:
  "(\<And>c. shape (f c) = shape c) \<Longrightarrow> tree_data (update_active f t) = tree_data t"
  by (simp add: tree_data_def update_active_def tree_shapes_update_top)

lemma tree_data_other [simp]:
  "tree_data (update_deferred g t) = tree_data t"
  "tree_data (update_block h t) = tree_data t"
  "tree_data (emit x t) = tree_data t"
  "tree_data (t\<lparr>t_blockOrdinal := o1\<rparr>) = tree_data t"
  "tree_data (t\<lparr>t_transactionLogIndex := l\<rparr>) = tree_data t"
  "tree_data (t\<lparr>t_transactionKeccakPreimages := k\<rparr>) = tree_data t"
  "tree_data (t\<lparr>t_latestCallEnterSuicided := b\<rparr>) = tree_data t"
  "tree_data (t\<lparr>t_latestCallEnterSuicidedDepth := n\<rparr>) = tree_data t"
  "tree_data (t\<lparr>t_deferredCallState := d\<rparr>) = tree_data t"
  "tree_data (t\<lparr>t_transactionTransient := x'\<rparr>) = tree_data t"
  "tree_data (t\<lparr>t_transactionDropped := b\<rparr>) = tree_data t"
  "tree_data (t\<lparr>t_snapshotForNextFlashBlock := s\<rparr>) = tree_data t"
  by (simp_all add: tree_data_def update_defs)

lemma shape_adds [simp]:
  "shape (call_add_balance c x) = shape x"
  "shape (call_add_nonce n x) = shape x"
  "shape (call_add_code d x) = shape x"
  "shape (call_add_storage s x) = shape x"
  "shape (call_add_log l x) = shape x"
  "shape (x\<lparr>call_ExecutedCode := b\<rparr>) = shape x"
  "shape (x\<lparr>call_Suicide := b\<rparr>) = shape x"
  by (simp_all add: shape_def call_add_defs)

subsection \<open>Hooks that leave the tree alone\<close>

lemmas change_hook_defs = OnBalanceChange_def OnNonceChange_def OnCodeChange_def OnStorageChange_def
  OnLog_def newCodeChange_def

lemma change_hooks_tree:
  "OnBalanceChange addr old new reason t = Inr t' \<Longrightarrow> tree_data t' = tree_data t"
  "OnNonceChange addr n n' t = Inr t' \<Longrightarrow> tree_data t' = tree_data t"
  "OnCodeChange addr ph nh oc nc t = Inr t' \<Longrightarrow> tree_data t' = tree_data t"
  "OnStorageChange addr slot ov nv t = Inr t' \<Longrightarrow> tree_data t' = tree_data t"
  "OnLog addr topics data bi t = Inr t' \<Longrightarrow> tree_data t' = tree_data t"
  by (auto simp: change_hook_defs guard_Inr_iff tree_data_update_active Let_def
      split: if_splits option.splits)

lemma opcode_hooks_tree:
  "OnOpcode pc op1 gas cost rd depth err t = Inr t' \<Longrightarrow> tree_data t' = tree_data t"
  "OnOpcodeFault pc op1 gas cost depth err t = Inr t' \<Longrightarrow> tree_data t' = tree_data t"
  "OnKeccakPreimage h p t = Inr t' \<Longrightarrow> tree_data t' = tree_data t"
  by (auto simp: OnOpcode_def OnOpcodeFault_def OnKeccakPreimage_def guard_Inr_iff
      tree_data_update_active Let_def split: if_splits option.splits)

subsection \<open>Inversion of the hooks that build the tree\<close>

lemma OnTxStart_elim:
  assumes "OnTxStart cr event reader t = Inr t'"
  obtains trx where "t_transaction t = None" and "cs_stack (t_callStack t) = []"
    and "t_block t \<noteq> None"
    and "t' = t\<lparr>t_transactionStateReader := reader,
        t_blockOrdinal := snd (ordinal_Next (t_blockOrdinal t)), t_transaction := Some trx\<rparr>"
    and "trx_Calls trx = []" and "trx_BeginOrdinal trx = ord_value (t_blockOrdinal t) + 1"
    and "trx_EndOrdinal trx = 0" and "trx_Receipt trx = None"
proof -
  let ?t1 = "t\<lparr>t_transactionStateReader := reader,
    t_blockOrdinal := snd (ordinal_Next (t_blockOrdinal t))\<rparr>"
  have ok: "ensureInBlockAndNotInTrxAndNotInCall t = None"
    using assms by (simp add: OnTxStart_def guard_Inr_iff)
  let ?trx0 = "new_trace event (computeEffectiveGasPrice event (t_blockBaseFee t))
    (ord_value (t_blockOrdinal t) + 1)"
  let ?auths = "\<lambda>trx0. if length (te_SetCodeAuthorizations event) > 0
    then bindR (authorizations_to_proto (recovery_func cr ?t1) (te_SetCodeAuthorizations event))
           (\<lambda>auths. Inr (trx0\<lparr>trx_SetCodeAuthorizations := auths\<rparr>))
    else Inr trx0"
  have "bindR (to_address cr event reader) (\<lambda>addr. bindR (?auths (?trx0 addr))
      (\<lambda>trx. Inr (?t1\<lparr>t_transaction := Some trx\<rparr>))) = Inr t'"
    using assms ok by (simp add: OnTxStart_def Let_def cong: if_cong)
  then obtain addr where "bindR (?auths (?trx0 addr)) (\<lambda>trx. Inr (?t1\<lparr>t_transaction := Some trx\<rparr>)) = Inr t'"
    by (auto simp only: bindR_Inr_iff)
  then obtain trx where trx: "?auths (?trx0 addr) = Inr trx" and t': "t' = ?t1\<lparr>t_transaction := Some trx\<rparr>"
    by (auto simp only: bindR_Inr_iff sum.inject)
  define trx0 where "trx0 = ?trx0 addr"
  note trx = trx [folded trx0_def]
  have "trx_Calls trx = trx_Calls trx0 \<and> trx_BeginOrdinal trx = trx_BeginOrdinal trx0
      \<and> trx_EndOrdinal trx = trx_EndOrdinal trx0 \<and> trx_Receipt trx = trx_Receipt trx0"
    using trx by (auto simp: bindR_Inr_iff split: if_splits)
  with that [of trx] ok t' show ?thesis by (simp add: ensure_None_iff trx0_def)
qed

definition entered_call :: "Call \<Rightarrow> tracer \<Rightarrow> bool" where
  "entered_call c t \<longleftrightarrow> call_ParentIndex c = 0 \<and> call_BeginOrdinal c = ord_value (t_blockOrdinal t) + 1
     \<and> call_EndOrdinal c = 0 \<and> change_ordinals c = [[], [], [], [], []]"

lemma OnCallEnter_elim:
  assumes "OnCallEnter depth typ caller target input gas value t = Inr t'"
  obtains "typ = CallTypeSelfDestruct" and "t' = t\<lparr>t_latestCallEnterSuicided := True,
      t_latestCallEnterSuicidedDepth := depth\<rparr>"
  | c where "entered_call c t" and "callTypeToProto typ \<noteq> UNSPECIFIED"
      and "depth = 0" and "t' = t\<lparr>t_blockOrdinal := snd (ordinal_Next (t_blockOrdinal t)),
        t_deferredCallState := NewDeferredCallState,
        t_callStack := cs_Push (prepend_deferred (t_deferredCallState t) c) (t_callStack t)\<rparr>"
  | c where "entered_call c t" and "callTypeToProto typ \<noteq> UNSPECIFIED"
      and "depth \<noteq> 0" and "t' = t\<lparr>t_blockOrdinal := snd (ordinal_Next (t_blockOrdinal t)),
        t_callStack := cs_Push c (t_callStack t)\<rparr>"
proof -
  note elims = that
  show ?thesis
  proof (cases "typ = CallTypeSelfDestruct")
    case True
    then show ?thesis using assms elims(1) by (simp add: OnCallEnter_def)
  next
    case False
    show ?thesis
    proof (cases "depth = 0")
      case True
      with False assms show ?thesis
        by (auto simp: OnCallEnter_def guard_Inr_iff check_None_iff Let_def populate_enter
            entered_call_def empty_Call_def change_ordinals_def intro!: elims(2))
    next
      case nz: False
      with False assms show ?thesis
        by (auto simp: OnCallEnter_def guard_Inr_iff check_None_iff Let_def
            entered_call_def empty_Call_def change_ordinals_def intro!: elims(3))
    qed
  qed
qed

definition exited_call :: "Call \<Rightarrow> Call \<Rightarrow> u64 \<Rightarrow> bool" where
  "exited_call c' c ordinal \<longleftrightarrow> shape c' = shape c \<and> call_BeginOrdinal c' = call_BeginOrdinal c
     \<and> call_EndOrdinal c' = ordinal \<and> change_ordinals c' = change_ordinals c"

lemma OnCallExit_elim:
  assumes "OnCallExit depth output gasUsed err reverted1 t = Inr t'"
  obtains "t_latestCallEnterSuicided t" and "t' = t\<lparr>t_latestCallEnterSuicided := False\<rparr>"
  | c c' trx where "cs_Peek (t_callStack t) = Some c" and "t_transaction t = Some trx"
      and "t_block t \<noteq> None"
      and "exited_call c' c (ord_value (t_blockOrdinal t) + 1)"
      and "t' = update_transaction (\<lambda>trx. trx\<lparr>trx_Calls := trx_Calls trx @ [c']\<rparr>)
        (t\<lparr>t_callStack := snd (cs_Pop (t_callStack t)),
           t_blockOrdinal := snd (ordinal_Next (t_blockOrdinal t))\<rparr>)"
proof -
  note elims = that
  show ?thesis
  proof (cases "t_latestCallEnterSuicided t")
    case True
    then show ?thesis using assms elims(1) by (simp add: OnCallExit_def)
  next
    case False
    obtain p cs where pop: "cs_Pop (t_callStack t) = (p, cs)" by (cases "cs_Pop (t_callStack t)")
    with False assms obtain c where p: "p = Some c" and ok: "ensureInBlockAndInTrxAndInCall t = None"
      by (auto simp: OnCallExit_def guard_Inr_iff split: option.splits)
    have "cs_Peek (t_callStack t) = Some c" using cs_Pop_fst [of "t_callStack t"] pop p by simp
    moreover obtain trx where "t_transaction t = Some trx" "t_block t \<noteq> None"
      using ok by (auto simp: ensure_None_iff)
    moreover have "exited_call ((exit_call output gasUsed err reverted1 c)\<lparr>call_EndOrdinal :=
        ord_value (t_blockOrdinal t) + 1\<rparr>) c (ord_value (t_blockOrdinal t) + 1)"
      by (simp add: exited_call_def shape_def change_ordinals_def)
    ultimately show ?thesis
      using assms False ok pop p by (intro elims(2)) (auto simp: OnCallExit_def Let_def)
  qed
qed

lemma OnTxEnd_elim:
  assumes "OnTxEnd receipt err t = Inr t'"
  obtains "receipt = None" and "t_transactionIsolated t" and "t' = t\<lparr>t_transactionDropped := True\<rparr>"
  | "receipt = None" and "\<not> t_transactionIsolated t" and "t' = resetTransaction t"
  | t1 trx where "completeTransaction receipt err t = Inr t1" and "t_transaction t1 = Some trx"
      and "t_transactionIsolated t1" and "t' = t1\<lparr>t_transactionTransient := Some trx\<rparr>"
  | t1 trx where "completeTransaction receipt err t = Inr t1" and "t_transaction t1 = Some trx"
      and "\<not> t_transactionIsolated t1"
      and "t' = resetTransaction (update_block
        (\<lambda>b. b\<lparr>blk_TransactionTraces := blk_TransactionTraces b @ [trx]\<rparr>) t1)"
proof -
  note elims = that
  have ok: "ensureInBlockAndInTrx t = None" using assms by (simp add: OnTxEnd_def guard_Inr_iff)
  show ?thesis
  proof (cases "receipt = None \<and> cfg_DropTransactionsWithoutReceipt (t_config t)")
    case True
    with assms ok elims(1,2) show ?thesis by (auto simp: OnTxEnd_def split: if_splits)
  next
    case False
    with assms ok obtain t1 where c: "completeTransaction receipt err t = Inr t1"
      and r: "(case t_transaction t1 of None \<Rightarrow> Inl NilDereference
        | Some trxTrace \<Rightarrow> if t_transactionIsolated t1
             then Inr (t1\<lparr>t_transactionTransient := Some trxTrace\<rparr>)
             else Inr (resetTransaction (update_block
                (\<lambda>b. b\<lparr>blk_TransactionTraces := blk_TransactionTraces b @ [trxTrace]\<rparr>) t1))) = Inr t'"
      by (auto simp: OnTxEnd_def bindR_Inr_iff)
    then show ?thesis using elims(3,4) [OF c] by (auto split: option.splits if_splits)
  qed
qed

lemma OnSystemCallStart_elim:
  assumes "OnSystemCallStart t = Inr t'"
  obtains "t_transaction t = None" and "t_block t \<noteq> None"
      and "t' = t\<lparr>t_inSystemCall := True, t_transaction := Some empty_Trace\<rparr>"
  | "t_transaction t \<noteq> None" and "\<not> t_inSystemCall t" and "t_block t \<noteq> None"
      and "t' = (interruptTransaction t)\<lparr>t_inSystemCall := True, t_transaction := Some empty_Trace\<rparr>"
  using assms
  by (auto simp: OnSystemCallStart_def guard_Inr_iff bindR_Inr_iff ensure_None_iff check_None_iff
      split: if_splits)

lemma OnSystemCallEnd_elim:
  assumes "OnSystemCallEnd t = Inr t'"
  obtains trx t1 where "t_transaction t = Some trx" and "t_inSystemCall t" and "t_block t \<noteq> None"
    and "\<not> df_HasCallOnlyChanges (t_deferredCallState t)"
    and "t1 = resetTransaction (update_block (\<lambda>b. b\<lparr>blk_SystemCalls := blk_SystemCalls b @
        attachStorageSlotPreimages (trx_Calls trx) (t_transactionKeccakPreimages t)\<rparr>) t)"
    and "t' = (case t_interruptedTransaction t of None \<Rightarrow> t1 | Some s \<Rightarrow> resumeTransaction s t1)"
proof -
  note elim = that
  show ?thesis
    using assms
    by (auto simp: OnSystemCallEnd_def guard_Inr_iff ensure_None_iff check_None_iff Let_def
        update_block_def intro!: elim split: option.splits)
qed

lemma OnBlockEnd_elim:
  assumes "OnBlockEnd err t = Inr t'"
  obtains t1 where "t' = resetTransaction (resetBlock (freeze_snapshot t1))"
    and "err = None \<Longrightarrow> (\<exists>x. t1 = emit x (before_flush t)) \<and> t_transaction t = None \<and> t_block t \<noteq> None"
    and "err \<noteq> None \<Longrightarrow> t1 = t \<or> t1 = t\<lparr>t_snapshotForNextFlashBlock := None\<rparr>"
proof (cases err)
  case None
  have bf: "t_transaction (before_flush t) = t_transaction t" "t_block (before_flush t) = None \<longleftrightarrow> t_block t = None"
    by (auto simp: before_flush_def update_block_def split: option.split)
  have re: "(if b then reorderIsolatedTransactionsAndOrdinals x else x) = x" for b x
    by (simp add: reorderIsolatedTransactionsAndOrdinals_def)
  from None assms obtain x where "t' = resetTransaction (resetBlock (freeze_snapshot (emit x (before_flush t))))"
    and "t_transaction (before_flush t) = None" and "t_block (before_flush t) \<noteq> None"
    by (auto simp: OnBlockEnd_def guard_Inr_iff bindR_Inr_iff ensure_None_iff Let_def re
        split: option.splits)
  with None bf that [of "emit x (before_flush t)"] show ?thesis by auto
next
  case (Some e)
  with assms show ?thesis
    by (auto simp: OnBlockEnd_def guard_Inr_iff bindR_Inr_iff split: if_splits intro!: that)
qed

subsection \<open>Every hook preserves the invariant\<close>

lemma well_numbered_push:
  assumes "well_numbered cs trx" and "unat (cs_index cs) + 1 < 2 ^ 32" and "call_ParentIndex c = 0"
  shows "well_numbered (cs_Push c cs) trx"
proof -
  let ?n = "unat (cs_index cs)"
  have n: "unat (cs_index cs + 1) = ?n + 1" using assms(2) by (simp add: unat_add_one)
  have S: "image_mset fst (tree_shapes cs trx) = mset [1..<Suc ?n]"
    using assms(1) by (simp add: well_numbered_def shapes_ok_def)
  have "unat (call_ParentIndex (cs_stamp cs c)) < ?n + 1"
  proof (cases "cs_Peek cs")
    case None
    have "call_ParentIndex (cs_stamp cs c) = 0" by (simp add: cs_stamp_def None assms(3) del: cs_Peek_None_iff)
    then show ?thesis by simp
  next
    case (Some p)
    then have "shape p \<in># tree_shapes cs trx"
      by (auto simp: cs_Peek_Some_iff tree_shapes_def)
    then have "fst (shape p) \<in># mset [1..<Suc ?n]" using S by (metis image_mset_def imageI set_image_mset)
    then show ?thesis using Some by (auto simp: cs_stamp_def shape_def)
  qed
  then have p: "snd (shape (cs_stamp cs c)) < fst (shape (cs_stamp cs c))"
    by (simp add: shape_def n)
  have "tree_shapes (cs_Push c cs) trx = add_mset (shape (cs_stamp cs c)) (tree_shapes cs trx)"
    by (simp add: tree_shapes_def)
  with assms(1) p n S show ?thesis
    by (auto simp: well_numbered_def shapes_ok_def shape_def)
qed

lemma tree_shapes_exit:
  assumes "cs_Peek cs = Some c" and "shape c' = shape c"
  shows "tree_shapes (snd (cs_Pop cs)) (Some (trx\<lparr>trx_Calls := trx_Calls trx @ [c']\<rparr>))
    = tree_shapes cs (Some trx)"
  using assms by (cases "cs_stack cs" rule: rev_cases) (auto simp: tree_shapes_def cs_Peek_def)

lemma shape_blind: "blind shape"
  by (simp add: blind_def shape_def)

lemma shape_append_deferred [simp]: "shape (append_deferred d c) = shape c"
  by (simp add: shape_def)

lemma shape_prepend_deferred [simp]: "shape (prepend_deferred d c) = shape c"
  by (simp add: shape_def)

lemma settled_shapes: "mset (map shape (settled_calls d calls)) = mset (map shape calls)"
proof -
  let ?s = "SortFunc call_compare calls"
  have "map shape (?s[0 := append_deferred d (?s ! 0)]) = map shape ?s"
    by (cases ?s) simp_all
  then show ?thesis by (simp add: settled_calls_def Let_def call_sort.mset_srt)
qed

lemma completeTransaction_shapes:
  assumes "completeTransaction receipt err t = Inr t'"
  shows "tree_data t' = tree_data t"
proof -
  obtain trx trx' where trx: "t_transaction t = Some trx"
    and t': "t' = t\<lparr>t_blockOrdinal := snd (ordinal_Next (t_blockOrdinal t)),
        t_transaction := Some trx', t_transactionTransient := t_transactionTransient t',
        t_deferredCallState := t_deferredCallState t',
        t_transactionKeccakPreimages := t_transactionKeccakPreimages t'\<rparr>"
    and calls: "trx_Calls trx = [] \<and> trx_Calls trx' = [] \<and> t_deferredCallState t' = t_deferredCallState t
      \<or> trx_Calls trx \<noteq> [] \<and> t_deferredCallState t' = NewDeferredCallState
        \<and> (\<forall>f :: Call \<Rightarrow> nat \<times> nat. blind f \<longrightarrow>
             map f (trx_Calls trx') = map f (settled_calls (t_deferredCallState t) (trx_Calls trx)))"
    using completeTransaction_elim [OF assms] by metis
  have "mset (map shape (trx_Calls trx')) = mset (map shape (trx_Calls trx))"
    using calls shape_blind settled_shapes by (metis list.map(1))
  moreover have "t_transaction t' = Some trx'" "t_callStack t' = t_callStack t"
    "t_interruptedTransaction t' = t_interruptedTransaction t"
    by (subst t', simp)+
  ultimately show ?thesis by (simp add: tree_data_def tree_shapes_def trx)
qed

lemma system_hooks_tree:
  "OnSystemCallStart t = Inr t' \<Longrightarrow> tree_ok t \<Longrightarrow> tree_ok t'"
  "OnSystemCallEnd t = Inr t' \<Longrightarrow> tree_ok t \<Longrightarrow> tree_ok t'"
proof -
  assume start: "OnSystemCallStart t = Inr t'" and "tree_ok t"
  then show "tree_ok t'"
    by (elim OnSystemCallStart_elim)
       (auto simp: tree_ok_def interruptTransaction_def resetTransaction_def well_numbered_def
          tree_shapes_def empty_Trace_def shapes_ok_def)
next
  assume stop: "OnSystemCallEnd t = Inr t'" and "tree_ok t"
  then show "tree_ok t'"
    by (elim OnSystemCallEnd_elim)
       (auto simp: tree_ok_def resumeTransaction_def update_block_def split: option.splits)
qed

lemma block_hooks_tree:
  "OnBlockStart event t = Inr t' \<Longrightarrow> tree_data t' = tree_data t"
  "OnBlockEnd err t = Inr t' \<Longrightarrow> tree_ok t'"
  "SnapshotFlashBlockForNextIteration t = Inr t' \<Longrightarrow> tree_data t' = tree_data t"
proof -
  assume "OnBlockStart event t = Inr t'"
  from OnBlockStart_trx_state [OF this] show "tree_data t' = tree_data t"
    by (simp add: tree_data_def trx_state_def)
next
  assume "OnBlockEnd err t = Inr t'"
  then show "tree_ok t'" by (elim OnBlockEnd_elim) (simp add: tree_ok_def)
next
  assume "SnapshotFlashBlockForNextIteration t = Inr t'"
  then show "tree_data t' = tree_data t"
    by (auto simp: SnapshotFlashBlockForNextIteration_def split: option.splits)
qed

lemma transaction_hooks_tree:
  "OnTxStart cr event reader t = Inr t' \<Longrightarrow> tree_data t' = tree_data t"
  "OnTxEnd receipt err t = Inr t' \<Longrightarrow> tree_ok t \<Longrightarrow> tree_ok t'"
  "OnTxReset t = Inr t' \<Longrightarrow> tree_ok t \<Longrightarrow> tree_ok t'"
proof -
  assume "OnTxStart cr event reader t = Inr t'"
  then show "tree_data t' = tree_data t"
    by (elim OnTxStart_elim) (simp add: tree_data_def tree_shapes_def)
next
  assume e: "OnTxEnd receipt err t = Inr t'" and ok: "tree_ok t"
  from ok have reset: "tree_ok (resetTransaction x)"
    if "t_interruptedTransaction x = t_interruptedTransaction t" for x
    using that by (simp add: tree_ok_def)
  from e show "tree_ok t'"
  proof (cases rule: OnTxEnd_elim)
    case 1
    with ok show ?thesis by (auto intro: tree_ok_data)
  next
    case 2
    with reset show ?thesis by simp
  next
    case (3 t1 trx)
    from completeTransaction_shapes [OF 3(1)] 3(4) ok show ?thesis by (auto intro: tree_ok_data)
  next
    case (4 t1 trx)
    from completeTransaction_shapes [OF 4(1)]
    have "t_interruptedTransaction t1 = t_interruptedTransaction t" by (simp add: tree_data_def)
    with 4(4) reset show ?thesis by (simp add: update_block_def)
  qed
next
  assume "OnTxReset t = Inr t'" and "tree_ok t"
  then show "tree_ok t'" by (auto simp: OnTxReset_def guard_Inr_iff tree_ok_def)
qed

lemma call_hooks_tree:
  "OnCallEnter depth typ caller target input gas value t = Inr t' \<Longrightarrow>
     unat (cs_index (t_callStack t)) + 1 < 2 ^ 32 \<Longrightarrow> tree_ok t \<Longrightarrow> tree_ok t'"
  "OnCallExit depth output gasUsed err rev1 t = Inr t' \<Longrightarrow> tree_ok t \<Longrightarrow> tree_ok t'"
proof -
  assume e: "OnCallEnter depth typ caller target input gas value t = Inr t'"
    and room: "unat (cs_index (t_callStack t)) + 1 < 2 ^ 32" and ok: "tree_ok t"
  from e show "tree_ok t'"
  proof (cases rule: OnCallEnter_elim)
    case 1
    with ok show ?thesis by (auto simp: tree_ok_def)
  next
    case (2 c)
    then have "call_ParentIndex (prepend_deferred (t_deferredCallState t) c) = 0"
      by (simp add: entered_call_def)
    with 2 ok well_numbered_push [OF _ room] show ?thesis by (simp add: tree_ok_def)
  next
    case (3 c)
    with ok well_numbered_push [OF _ room, of _ c] show ?thesis
      by (simp add: tree_ok_def entered_call_def)
  qed
next
  assume e: "OnCallExit depth output gasUsed err rev1 t = Inr t'" and ok: "tree_ok t"
  from e show "tree_ok t'"
  proof (cases rule: OnCallExit_elim)
    case 1
    with ok show ?thesis by (auto simp: tree_ok_def)
  next
    case (2 c c' trx)
    then have "tree_data t' = tree_data t"
      by (simp add: tree_data_def update_transaction_def tree_shapes_exit exited_call_def)
    with ok show ?thesis by (simp add: tree_ok_data)
  qed
qed

lemmas tree_ok_hooks =
  block_hooks_tree(1) [THEN tree_ok_data] block_hooks_tree(2) block_hooks_tree(3) [THEN tree_ok_data]
  transaction_hooks_tree(1) [THEN tree_ok_data] transaction_hooks_tree(2,3) call_hooks_tree
  system_hooks_tree change_hooks_tree [THEN tree_ok_data] opcode_hooks_tree [THEN tree_ok_data]

lemma tree_ok_step:
  assumes "apply_hook cr h t = Inr t'" and "tree_ok t" and "unat (cs_index (t_callStack t)) + 1 < 2 ^ 32"
  shows "tree_ok t'"
  using assms(1) by (cases h) (auto intro: tree_ok_hooks assms(2,3))

subsection \<open>Reachable states\<close>

text \<open>
  The states a tracer goes through from \<open>t0\<close>, under any sequence of hooks that do not panic, each
  applied where the side condition \<open>fits\<close> holds.
\<close>

inductive reachable :: "Crypto \<Rightarrow> (hook \<Rightarrow> tracer \<Rightarrow> bool) \<Rightarrow> tracer \<Rightarrow> tracer \<Rightarrow> bool" for cr fits t0 where
  start: "reachable cr fits t0 t0"
| hook: "reachable cr fits t0 t \<Longrightarrow> fits h t \<Longrightarrow> apply_hook cr h t = Inr t' \<Longrightarrow> reachable cr fits t0 t'"

lemma reachable_run:
  "reachable cr fits t0 t \<Longrightarrow> run_hooks cr hs t = Inr t' \<Longrightarrow> (\<And>h s. h \<in> set hs \<Longrightarrow> fits h s)
    \<Longrightarrow> reachable cr fits t0 t'"
proof (induction hs arbitrary: t)
  case Nil
  then show ?case by simp
next
  case (Cons h hs)
  then obtain s where "apply_hook cr h t = Inr s" "run_hooks cr hs s = Inr t'"
    by (auto simp: bindR_Inr_iff)
  then show ?case
    using Cons.IH [of s] Cons.prems reachable.hook [of cr fits t0 t h s] by simp
qed

text \<open>The 32-bit call counter has room for one more call.\<close>

definition call_room :: "hook \<Rightarrow> tracer \<Rightarrow> bool" where
  "call_room h t \<longleftrightarrow> unat (cs_index (t_callStack t)) + 1 < 2 ^ 32"

text \<open>A tracer with no transaction yet: fresh from \<open>NewTracer\<close>, or just spawned.\<close>

definition blank :: "tracer \<Rightarrow> bool" where
  "blank t \<longleftrightarrow> t_transaction t = None \<and> t_callStack t = NewCallStack
     \<and> t_deferredCallState t = NewDeferredCallState \<and> t_interruptedTransaction t = None"

lemma blank_new [simp]:
  "blank (NewTracer config)" "blank (newIsolatedTransactionTracer t)"
  by (simp_all add: blank_def NewTracer_def newIsolatedTransactionTracer_def)

lemma tree_ok_blank: "blank t \<Longrightarrow> tree_ok t"
  by (simp add: blank_def tree_ok_def)

lemma tree_ok_reachable:
  assumes "reachable cr call_room t0 t" and "blank t0"
  shows "tree_ok t"
  using assms(1)
  by (induction rule: reachable.induct)
     (auto intro: tree_ok_step simp: call_room_def tree_ok_blank assms(2))

lemma numbered_shape:
  assumes eq: "map shape calls' = map shape calls"
  shows "numbered calls' \<longleftrightarrow> numbered calls"
proof -
  have "length calls' = length calls" using eq by (rule map_eq_imp_length_eq)
  moreover have "shape (calls' ! i) = shape (calls ! i)" if "i < length calls" for i
    using eq that calculation by (metis nth_map)
  ultimately show ?thesis by (simp add: numbered_def shape_def)
qed

lemma sorted_numbered:
  assumes "shapes_ok (mset (map shape calls)) n"
  shows "numbered (SortFunc call_compare calls)"
proof -
  let ?s = "SortFunc call_compare calls"
  let ?idx = "\<lambda>c. unat (call_Index c)"
  have "mset (map ?idx ?s) = image_mset fst (mset (map shape calls))"
    by (simp add: shape_def call_sort.mset_srt multiset.map_comp comp_def)
  then have m: "mset (map ?idx ?s) = mset [1..<Suc n]" using assms by (simp add: shapes_ok_def)
  have "sorted (map ?idx ?s)"
    using call_sort.sorted_srt [of calls] by (simp add: sorted_map word_le_nat_alt)
  with m have idx: "map ?idx ?s = [1..<Suc n]"
    by (metis properties_for_sort sorted_upt)
  then have len: "length ?s = n" by (metis length_map length_upt diff_Suc_1)
  have "?idx (?s ! i) = i + 1" if "i < n" for i
    using idx that len nth_map [of i ?s ?idx] by (simp add: nth_append del: upt_Suc)
  moreover have "snd (shape c) < fst (shape c)" if "c \<in> set ?s" for c
    using assms that by (auto simp: shapes_ok_def call_sort.set_srt)
  ultimately have "unat (call_Index (?s ! i)) = i + 1 \<and> unat (call_ParentIndex (?s ! i)) < i + 1"
    if "i < length ?s" for i
    using len that nth_mem [of i ?s] by (metis fst_conv shape_def snd_conv)
  then show ?thesis by (simp add: numbered_def less_Suc_eq_le)
qed

text \<open>
  C15. When a transaction ends with no active call, its calls sorted by index are numbered from 1 with no
  gap and every parent before its children, whatever hooks led there: in particular
  \<open>calls[call.ParentIndex-1]\<close> is the parent.
\<close>

theorem ended_calls_numbered:
  assumes "reachable cr call_room t0 t" and "blank t0"
    and "t_transaction t = Some trx" and "cs_stack (t_callStack t) = []"
  shows "numbered (SortFunc call_compare (trx_Calls trx))"
  using tree_ok_reachable [OF assms(1,2)] assms(3,4)
  by (intro sorted_numbered [of _ "unat (cs_index (t_callStack t))"])
     (simp add: tree_ok_def well_numbered_def tree_shapes_def)

subsection \<open>Ending a transaction\<close>

lemma assign_loop_panic: "assign_loop t i cl rl = Inl p \<Longrightarrow> \<exists>msg. p = panicInvalidState t msg"
  by (induction t i cl rl rule: assign_loop.induct)
     (auto simp: guard_Inl_iff bindR_Inl_iff check_Some_iff)

lemma finish_trace_populate:
  obtains g where "finish_trace t receipt trx = bindR (populateStateReverted (trx_Calls trx))
      (\<lambda>calls. assignOrdinalAndIndexToReceiptLogs t (g calls))"
    and "\<And>calls. trx_Calls (g calls) = removeLogBlockIndexOnStateRevertedCalls (t_config t) calls"
proof -
  define trx1 where "trx1 = (case receipt of None \<Rightarrow> trx | Some r \<Rightarrow> apply_receipt r trx)"
  define trx2 where "trx2 = (if call_StatusReverted (trx_Calls trx1 ! 0)
    then trx1\<lparr>trx_Status := REVERTED\<rparr> else trx1)\<lparr>trx_ReturnData := call_ReturnData (trx_Calls trx1 ! 0)\<rparr>"
  have calls: "trx_Calls trx2 = trx_Calls trx"
    by (simp add: trx2_def trx1_def split: option.split)
  show ?thesis
    by (rule that [of "\<lambda>calls. update_calls (removeLogBlockIndexOnStateRevertedCalls (t_config t))
          (trx2\<lparr>trx_Calls := calls\<rparr>)"])
       (simp only: finish_trace_def Let_def trx1_def [symmetric] trx2_def [symmetric] calls, simp)
qed

lemma finish_trace_in_range:
  assumes "numbered (trx_Calls trx)"
  shows "finish_trace t receipt trx \<noteq> Inl IndexOutOfRange"
proof -
  obtain g where g: "finish_trace t receipt trx = bindR (populateStateReverted (trx_Calls trx))
      (\<lambda>calls. assignOrdinalAndIndexToReceiptLogs t (g calls))"
    by (rule finish_trace_populate)
  have "assignOrdinalAndIndexToReceiptLogs t x \<noteq> Inl IndexOutOfRange" for x
    by (auto simp: assignOrdinalAndIndexToReceiptLogs_def Let_def bindR_Inl_iff panicInvalidState_def
        dest!: assign_loop_panic)
  then show ?thesis by (simp add: g populate_numbered [OF assms])
qed

lemma map_eq_nth: "map f xs = map f ys \<Longrightarrow> i < length xs \<Longrightarrow> f (ys ! i) = f (xs ! i)"
  by (metis map_eq_imp_length_eq nth_map)

lemma reverted_cong:
  assumes eq: "map (\<lambda>c. (call_StatusFailed c, call_ParentIndex c)) cs
    = map (\<lambda>c. (call_StatusFailed c, call_ParentIndex c)) ds"
  shows "reverted cs i \<Longrightarrow> reverted ds i"
proof (induction rule: reverted.induct)
  case (failed i)
  then show ?case
    using map_eq_nth [OF eq, of i] map_eq_imp_length_eq [OF eq] by (intro reverted.failed) auto
next
  case (parent i p)
  then show ?case
    using map_eq_nth [OF eq, of i] map_eq_imp_length_eq [OF eq]
    by (intro reverted.parent [of i ds p]) auto
qed

lemma finish_trace_marks:
  assumes "finish_trace t receipt trx = Inr trx'" and "numbered (trx_Calls trx)"
  shows "numbered (trx_Calls trx') \<and>
    (\<forall>i < length (trx_Calls trx'). call_StateReverted (trx_Calls trx' ! i) \<longleftrightarrow> reverted (trx_Calls trx') i)"
proof -
  let ?f = "\<lambda>c. (call_StatusFailed c, call_ParentIndex c)"
  have f: "blind ?f" and s: "blind shape" by (simp_all add: blind_def shape_def)
  obtain g where g: "finish_trace t receipt trx = bindR (populateStateReverted (trx_Calls trx))
      (\<lambda>calls. assignOrdinalAndIndexToReceiptLogs t (g calls))"
    and gc: "\<And>calls. trx_Calls (g calls) = removeLogBlockIndexOnStateRevertedCalls (t_config t) calls"
    using finish_trace_populate [of t receipt trx] by blast
  have keep: "map ?f (trx_Calls trx') = map ?f (trx_Calls trx)"
    "map shape (trx_Calls trx') = map shape (trx_Calls trx)"
    using finish_trace_keeps [OF assms(1) f] finish_trace_keeps [OF assms(1) s] by auto
  have len: "length (trx_Calls trx') = length (trx_Calls trx)" by (rule map_eq_imp_length_eq [OF keep(1)])
  have "assignOrdinalAndIndexToReceiptLogs t (g (marked_upto (trx_Calls trx) (length (trx_Calls trx))))
      = Inr trx'"
    using assms(1) by (simp add: g populate_numbered [OF assms(2)])
  then have "trx_Calls trx' = removeLogBlockIndexOnStateRevertedCalls (t_config t)
      (marked_upto (trx_Calls trx) (length (trx_Calls trx)))"
    using assign_keeps_trx gc by metis
  then have "call_StateReverted (trx_Calls trx' ! i) = reverted (trx_Calls trx) i"
    if "i < length (trx_Calls trx)" for i
    using that by (simp add: removeLogBlockIndexOnStateRevertedCalls_def)
  moreover have "reverted (trx_Calls trx') = reverted (trx_Calls trx)"
    using reverted_cong [OF keep(1)] reverted_cong [OF keep(1) [symmetric]] by blast
  ultimately show ?thesis using len numbered_shape [OF keep(2)] assms(2) by simp
qed

lemma completeTransaction_finish:
  assumes "t_transaction t = Some trx" and "trx_Calls trx \<noteq> []"
  obtains t0 trx1 where "map shape (trx_Calls trx1) = map shape (SortFunc call_compare (trx_Calls trx))"
    and "completeTransaction receipt err t = bindR (finish_trace t0 receipt trx1)
      (\<lambda>trx2. Inr (update_transaction
        (\<lambda>_. trx2\<lparr>trx_EndOrdinal := ord_value (t_blockOrdinal t0) + 1\<rparr>)
        (t0\<lparr>t_blockOrdinal := snd (ordinal_Next (t_blockOrdinal t0))\<rparr>)))"
    and "t_transaction t0 = Some trx"
proof -
  let ?t0 = "t\<lparr>t_deferredCallState := NewDeferredCallState, t_transactionKeccakPreimages := []\<rparr>"
  let ?trx1 = "update_calls (\<lambda>calls. attachStorageSlotPreimages calls (t_transactionKeccakPreimages t))
     (update_calls (\<lambda>calls. calls[0 := append_deferred (t_deferredCallState t) (calls ! 0)])
        (discardUncommittedSetCodeAuthorizations (SortFunc call_compare (trx_Calls trx) ! 0)
          (update_calls (SortFunc call_compare) trx)))"
  have "map shape (xs[0 := append_deferred d (xs ! 0)]) = map shape xs" for xs d
    by (cases xs) simp_all
  moreover have "map shape (attachStorageSlotPreimages cs rs) = map shape cs" for cs rs
    by (rule attach_keeps) (simp add: shape_def)
  ultimately have "map shape (trx_Calls ?trx1) = map shape (SortFunc call_compare (trx_Calls trx))"
    by simp
  moreover have "completeTransaction receipt err t = bindR (finish_trace ?t0 receipt ?trx1)
      (\<lambda>trx2. Inr (update_transaction
        (\<lambda>_. trx2\<lparr>trx_EndOrdinal := ord_value (t_blockOrdinal ?t0) + 1\<rparr>)
        (?t0\<lparr>t_blockOrdinal := snd (ordinal_Next (t_blockOrdinal ?t0))\<rparr>)))"
    using assms by (simp add: completeTransaction_def populate_root_step Let_def)
  ultimately show ?thesis using that [of ?trx1 ?t0] assms(1) by simp
qed

text \<open>
  C9. A transaction that ends with no active call, after any hooks, never makes \<open>completeTransaction\<close>
  index out of range, and in the trace it returns a call is marked \<open>StateReverted\<close> exactly when it or
  one of its ancestors failed.
\<close>

theorem ended_transaction_marks:
  assumes "reachable cr call_room t0 t" and "blank t0" and "cs_stack (t_callStack t) = []"
  shows "case completeTransaction receipt err t of
      Inl p \<Rightarrow> p \<noteq> IndexOutOfRange
    | Inr t' \<Rightarrow> (\<exists>trx. t_transaction t' = Some trx
        \<and> (\<forall>i < length (trx_Calls trx).
             call_StateReverted (trx_Calls trx ! i) \<longleftrightarrow> reverted (trx_Calls trx) i))"
proof (cases "t_transaction t")
  case None
  then show ?thesis by (simp add: completeTransaction_def)
next
  case (Some trx)
  have ok: "tree_ok t" by (rule tree_ok_reachable [OF assms(1,2)])
  show ?thesis
  proof (cases "trx_Calls trx = []")
    case True
    with Some show ?thesis
      by (cases "df_HasCallOnlyChanges (t_deferredCallState t)")
         (simp_all add: completeTransaction_def check_def update_transaction_def panicInvalidState_def)
  next
    case False
    obtain s trx1 where sh: "map shape (trx_Calls trx1) = map shape (SortFunc call_compare (trx_Calls trx))"
      and c: "completeTransaction receipt err t = bindR (finish_trace s receipt trx1)
        (\<lambda>trx2. Inr (update_transaction
          (\<lambda>_. trx2\<lparr>trx_EndOrdinal := ord_value (t_blockOrdinal s) + 1\<rparr>)
          (s\<lparr>t_blockOrdinal := snd (ordinal_Next (t_blockOrdinal s))\<rparr>)))"
      and st: "t_transaction s = Some trx"
      using completeTransaction_finish [OF Some False] by blast
    have "numbered (SortFunc call_compare (trx_Calls trx))"
      using ok assms(3) Some
      by (intro sorted_numbered [of _ "unat (cs_index (t_callStack t))"])
         (simp add: tree_ok_def well_numbered_def tree_shapes_def)
    then have n: "numbered (trx_Calls trx1)" using numbered_shape [OF sh] by simp
    show ?thesis
    proof (cases "finish_trace s receipt trx1")
      case (Inl p)
      then show ?thesis using finish_trace_in_range [OF n, of s receipt] by (simp add: c)
    next
      case (Inr trx2)
      from finish_trace_marks [OF Inr n] show ?thesis
        by (simp add: c Inr update_transaction_def st)
    qed
  qed
qed

end
