(* ===== verification/OrdinalInv.thy ===== *)
theory OrdinalInv
  imports TreeInv
begin

section \<open>Every event of a block has its own ordinal\<close>

text \<open>
  The ordinals recorded in a tracer's state: in the block, in the transaction being traced, in the
  calls still active, in the deferred state, and in the transaction a system call set aside. 0 stands
  for an ordinal not taken yet. The invariant says that no other ordinal occurs twice and that none
  is above the counter; every hook preserves it as long as the 64-bit counter does not wrap.
\<close>

type_synonym ordinals = "u64 multiset"

definition call_mset :: "Call \<Rightarrow> ordinals" where
  "call_mset c = {#call_BeginOrdinal c, call_EndOrdinal c#} + mset (concat (change_ordinals c))"

definition calls_mset :: "Call list \<Rightarrow> ordinals" where
  "calls_mset cs = sum_list (map call_mset cs)"

definition trx_mset :: "TransactionTrace \<Rightarrow> ordinals" where
  "trx_mset x = {#trx_BeginOrdinal x, trx_EndOrdinal x#} + calls_mset (trx_Calls x)"

definition block_mset :: "Block \<Rightarrow> ordinals" where
  "block_mset b = mset (map bc_Ordinal (blk_BalanceChanges b)) + mset (map cc_Ordinal (blk_CodeChanges b))
     + calls_mset (blk_SystemCalls b) + sum_list (map trx_mset (blk_TransactionTraces b))"

definition live_mset :: "TransactionTrace option \<Rightarrow> CallStack \<Rightarrow> DeferredCallState \<Rightarrow> ordinals" where
  "live_mset trx cs d = (case trx of None \<Rightarrow> {#} | Some x \<Rightarrow> trx_mset x)
     + calls_mset (cs_stack cs) + mset (concat (deferred_ordinals d))"

text \<open>An isolated tracer's block belongs to its coordinator.\<close>

definition own_block_mset :: "tracer \<Rightarrow> ordinals" where
  "own_block_mset t = (if t_transactionIsolated t then {#}
     else case t_block t of None \<Rightarrow> {#} | Some b \<Rightarrow> block_mset b)"

definition state_mset :: "tracer \<Rightarrow> ordinals" where
  "state_mset t = own_block_mset t
     + live_mset (t_transaction t) (t_callStack t) (t_deferredCallState t)
     + (case t_interruptedTransaction t of None \<Rightarrow> {#}
        | Some s \<Rightarrow> live_mset (it_transaction s) (it_callStack s) (it_deferredCallState s))"

definition taken :: "ordinals \<Rightarrow> ordinals" where
  "taken M = filter_mset (\<lambda>x. x \<noteq> 0) M"

definition unique_upto :: "ordinals \<Rightarrow> u64 \<Rightarrow> bool" where
  "unique_upto M k \<longleftrightarrow> (\<forall>x \<in># taken M. count M x = 1 \<and> x \<le> k)"

lemma taken_simps [simp]:
  "taken {#} = {#}" "taken (A + B) = taken A + taken B"
  "taken (add_mset x A) = (if x = 0 then taken A else add_mset x (taken A))"
  by (simp_all add: taken_def)

lemma calls_mset_simps [simp]:
  "calls_mset [] = {#}" "calls_mset (c # cs) = call_mset c + calls_mset cs"
  "calls_mset (xs @ ys) = calls_mset xs + calls_mset ys"
  by (simp_all add: calls_mset_def)

lemma calls_mset_perm: "mset xs = mset ys \<Longrightarrow> calls_mset xs = calls_mset ys"
  unfolding calls_mset_def by (metis mset_map sum_mset_sum_list)

lemma calls_mset_map: "map call_mset xs = map call_mset ys \<Longrightarrow> calls_mset xs = calls_mset ys"
  by (simp add: calls_mset_def)

subsection \<open>Unique ordinals: dropping some, taking the next\<close>

lemma count_taken: "x \<noteq> 0 \<Longrightarrow> count (taken M) x = count M x"
  by (simp add: taken_def)

lemma unique_upto_taken: "unique_upto M k \<longleftrightarrow> (\<forall>x. x \<noteq> 0 \<longrightarrow> count M x \<le> 1 \<and> (x \<in># M \<longrightarrow> x \<le> k))"
proof -
  have "x \<in># taken M \<longleftrightarrow> x \<noteq> 0 \<and> x \<in># M" for x by (auto simp: taken_def)
  moreover have "x \<in># M \<Longrightarrow> count M x = 1 \<longleftrightarrow> count M x \<le> 1" for x
    using count_greater_zero_iff [of M x] by linarith
  moreover have "x \<notin># M \<Longrightarrow> count M x \<le> 1" for x by (simp add: not_in_iff)
  ultimately show ?thesis unfolding unique_upto_def by blast
qed

lemma unique_upto_subset:
  assumes "unique_upto M k" and "taken M' \<subseteq># taken M" and "k \<le> k'"
  shows "unique_upto M' k'"
  unfolding unique_upto_taken
proof (intro allI impI)
  fix x :: u64
  assume x: "x \<noteq> 0"
  have "count M' x \<le> count M x"
    using mset_subset_eq_count [OF assms(2), of x] x by (simp add: count_taken)
  with assms(1,3) x show "count M' x \<le> 1 \<and> (x \<in># M' \<longrightarrow> x \<le> k')"
    unfolding unique_upto_taken
    by (metis count_greater_zero_iff gr_zeroI le_trans not_less order.trans order_less_le_trans)
qed

lemma unique_upto_next:
  assumes "unique_upto M k" and "taken M' \<subseteq># taken (add_mset (k + 1) M)" and "unat k + 1 < 2 ^ 64"
  shows "unique_upto M' (k + 1)"
proof -
  have n: "unat (k + 1) = unat k + 1" using assms(3) by (simp add: unat_add_one)
  then have lt: "k < k + 1" by (simp add: word_less_nat_alt)
  then have fresh: "k + 1 \<notin># M"
    using assms(1) n unfolding unique_upto_taken by (metis leD unat_0 add_is_0 zero_neq_one)
  have "unique_upto (add_mset (k + 1) M) (k + 1)"
    unfolding unique_upto_taken
  proof (intro allI impI)
    fix x :: u64
    assume "x \<noteq> 0"
    then show "count (add_mset (k + 1) M) x \<le> 1 \<and> (x \<in># add_mset (k + 1) M \<longrightarrow> x \<le> k + 1)"
      using assms(1) fresh lt unfolding unique_upto_taken
      by (auto simp: not_in_iff)
  qed
  then show ?thesis using assms(2) by (rule unique_upto_subset) simp
qed

text \<open>One hook takes at most one ordinal and records it at most once.\<close>

definition advances :: "tracer \<Rightarrow> tracer \<Rightarrow> bool" where
  "advances t t' \<longleftrightarrow>
     ord_value (t_blockOrdinal t') = ord_value (t_blockOrdinal t)
       \<and> taken (state_mset t') \<subseteq># taken (state_mset t)
     \<or> ord_value (t_blockOrdinal t') = ord_value (t_blockOrdinal t) + 1
       \<and> taken (state_mset t') \<subseteq># taken (add_mset (ord_value (t_blockOrdinal t) + 1) (state_mset t))"

definition ordinals_ok :: "tracer \<Rightarrow> bool" where
  "ordinals_ok t \<longleftrightarrow> unique_upto (state_mset t) (ord_value (t_blockOrdinal t))"

lemma advances_ok:
  assumes "advances t t'" and "ordinals_ok t" and "unat (ord_value (t_blockOrdinal t)) + 1 < 2 ^ 64"
  shows "ordinals_ok t'"
  using assms unique_upto_subset unique_upto_next
  unfolding advances_def ordinals_ok_def by (metis order_refl)

subsection \<open>Recording one ordinal\<close>

lemma call_mset_adds [simp]:
  "call_mset (call_add_balance b c) = add_mset (bc_Ordinal b) (call_mset c)"
  "call_mset (call_add_nonce n c) = add_mset (nc_Ordinal n) (call_mset c)"
  "call_mset (call_add_code d c) = add_mset (cc_Ordinal d) (call_mset c)"
  "call_mset (call_add_storage s c) = add_mset (sc_Ordinal s) (call_mset c)"
  "call_mset (call_add_log l c) = add_mset (log_Ordinal l) (call_mset c)"
  "call_mset (c\<lparr>call_ExecutedCode := e\<rparr>) = call_mset c"
  "call_mset (c\<lparr>call_Suicide := e\<rparr>) = call_mset c"
  by (simp_all add: call_mset_def change_ordinals_def call_add_defs)

lemma deferred_mset_adds [simp]:
  "mset (concat (deferred_ordinals (df_AddBalanceChange b d)))
     = add_mset (bc_Ordinal b) (mset (concat (deferred_ordinals d)))"
  "mset (concat (deferred_ordinals (df_AddNonceChange n d)))
     = add_mset (nc_Ordinal n) (mset (concat (deferred_ordinals d)))"
  "mset (concat (deferred_ordinals (df_AddCodeChange c d)))
     = add_mset (cc_Ordinal c) (mset (concat (deferred_ordinals d)))"
  "mset (concat (deferred_ordinals (df_AddStorageChange s d)))
     = add_mset (sc_Ordinal s) (mset (concat (deferred_ordinals d)))"
  "mset (concat (deferred_ordinals (df_AddLog l d)))
     = add_mset (log_Ordinal l) (mset (concat (deferred_ordinals d)))"
  "deferred_ordinals NewDeferredCallState = [[], [], [], [], []]"
  by (simp_all add: deferred_ordinals_def df_add_defs)

lemma calls_mset_update_last:
  assumes "cs \<noteq> []" and "\<And>c. call_mset (f c) = call_mset c + A"
  shows "calls_mset (update_last f cs) = calls_mset cs + A"
  using assms by (cases cs rule: rev_cases) (simp_all add: ac_simps)

lemma state_mset_update_active:
  assumes "cs_stack (t_callStack t) \<noteq> []" and "\<And>c. call_mset (f c) = call_mset c + A"
  shows "state_mset (update_active f t) = state_mset t + A"
  using calls_mset_update_last [OF assms]
  by (simp add: state_mset_def live_mset_def own_block_mset_def update_active_def)

lemma state_mset_update_deferred:
  assumes "mset (concat (deferred_ordinals (g (t_deferredCallState t))))
    = add_mset o1 (mset (concat (deferred_ordinals (t_deferredCallState t))))"
  shows "state_mset (update_deferred g t) = add_mset o1 (state_mset t)"
  using assms by (simp add: state_mset_def live_mset_def own_block_mset_def update_deferred_def)

lemma state_mset_update_block:
  assumes "\<And>b. block_mset (g b) = add_mset o1 (block_mset b)"
  shows "taken (state_mset (update_block g t)) \<subseteq># taken (add_mset o1 (state_mset t))"
  using assms
  by (auto simp: state_mset_def own_block_mset_def update_block_def split: option.split)

lemma state_mset_other [simp]:
  "state_mset (t\<lparr>t_blockOrdinal := o1\<rparr>) = state_mset t"
  "state_mset (t\<lparr>t_transactionLogIndex := l\<rparr>) = state_mset t"
  "state_mset (t\<lparr>t_transactionKeccakPreimages := k\<rparr>) = state_mset t"
  "state_mset (t\<lparr>t_latestCallEnterSuicided := b\<rparr>) = state_mset t"
  "state_mset (t\<lparr>t_latestCallEnterSuicidedDepth := n\<rparr>) = state_mset t"
  "state_mset (t\<lparr>t_transactionTransient := x\<rparr>) = state_mset t"
  "state_mset (t\<lparr>t_transactionDropped := b\<rparr>) = state_mset t"
  "state_mset (t\<lparr>t_snapshotForNextFlashBlock := s\<rparr>) = state_mset t"
  "state_mset (t\<lparr>t_transactionStateReader := r\<rparr>) = state_mset t"
  "state_mset (t\<lparr>t_inSystemCall := b\<rparr>) = state_mset t"
  "state_mset (emit y t) = state_mset t"
  by (simp_all add: state_mset_def own_block_mset_def emit_def)

lemma counter_update [simp]:
  "t_blockOrdinal (update_active f t) = t_blockOrdinal t"
  "t_blockOrdinal (update_deferred g t) = t_blockOrdinal t"
  "t_blockOrdinal (update_block h t) = t_blockOrdinal t"
  "t_blockOrdinal (update_transaction k t) = t_blockOrdinal t"
  "t_callStack (t\<lparr>t_blockOrdinal := o1\<rparr>) = t_callStack t"
  by (simp_all add: update_defs)

lemma advances_refl [simp]: "advances t t"
  by (simp add: advances_def)

lemma advances_same:
  "state_mset t' = state_mset t \<Longrightarrow> t_blockOrdinal t' = t_blockOrdinal t \<Longrightarrow> advances t t'"
  by (simp add: advances_def)

lemma advances_take:
  "taken (state_mset t') \<subseteq># taken (add_mset (ord_value (t_blockOrdinal t) + 1) (state_mset t)) \<Longrightarrow>
     ord_value (t_blockOrdinal t') = ord_value (t_blockOrdinal t) + 1 \<Longrightarrow> advances t t'"
  by (simp add: advances_def)

subsection \<open>The change hooks\<close>

lemma block_mset_adds [simp]:
  "block_mset (b\<lparr>blk_BalanceChanges := blk_BalanceChanges b @ [c]\<rparr>) = add_mset (bc_Ordinal c) (block_mset b)"
  "block_mset (b\<lparr>blk_CodeChanges := blk_CodeChanges b @ [d]\<rparr>) = add_mset (cc_Ordinal d) (block_mset b)"
  "block_mset (b\<lparr>blk_TransactionTraces := blk_TransactionTraces b @ [x]\<rparr>) = trx_mset x + block_mset b"
  "block_mset (b\<lparr>blk_SystemCalls := blk_SystemCalls b @ cs\<rparr>) = calls_mset cs + block_mset b"
  by (simp_all add: block_mset_def ac_simps)

lemma active_add:
  assumes "cs_Peek (t_callStack t) = Some c0" and "\<And>c. call_mset (f c) = add_mset o1 (call_mset c)"
  shows "state_mset (update_active f t) = add_mset o1 (state_mset t)"
  using state_mset_update_active [of t f "{#o1#}"] assms by (simp add: cs_Peek_Some_iff)

lemma active_neutral:
  assumes "\<And>c. call_mset (f c) = call_mset c"
  shows "state_mset (update_active f t) = state_mset t"
proof (cases "cs_stack (t_callStack t) = []")
  case True
  then have "update_active f t = t" by (cases t) (simp add: update_active_def cs_update_top_def)
  then show ?thesis by simp
next
  case False
  then show ?thesis using state_mset_update_active [OF False, of f "{#}"] assms by simp
qed

lemma advances_block:
  assumes "\<And>b. block_mset (g b) = add_mset (ord_value (t_blockOrdinal t) + 1) (block_mset b)"
  shows "advances t (update_block g (t\<lparr>t_blockOrdinal := snd (ordinal_Next (t_blockOrdinal t))\<rparr>))"
  using state_mset_update_block [of g _ "t\<lparr>t_blockOrdinal := snd (ordinal_Next (t_blockOrdinal t))\<rparr>", OF assms]
  by (intro advances_take) simp_all

lemmas record_one = active_add state_mset_update_deferred

lemma change_hooks_advance:
  "OnBalanceChange addr old new reason t = Inr t' \<Longrightarrow> advances t t'"
  "OnNonceChange addr n n' t = Inr t' \<Longrightarrow> advances t t'"
  "OnCodeChange addr ph nh oc nc t = Inr t' \<Longrightarrow> advances t t'"
  "OnStorageChange addr slot ov nv t = Inr t' \<Longrightarrow> advances t t'"
  "OnLog addr topics data bi t = Inr t' \<Longrightarrow> advances t t'"
  by (auto simp: change_hook_defs guard_Inr_iff Let_def record_one active_call_def
      intro!: advances_block advances_take split: if_splits option.splits simp del: taken_simps(3))

lemma opcode_hooks_advance:
  "OnOpcode pc op1 gas cost rd depth err t = Inr t' \<Longrightarrow> advances t t'"
  "OnOpcodeFault pc op1 gas cost depth err t = Inr t' \<Longrightarrow> advances t t'"
  "OnKeccakPreimage h p t = Inr t' \<Longrightarrow> advances t t'"
  by (auto simp: OnOpcode_def OnOpcodeFault_def OnKeccakPreimage_def guard_Inr_iff active_neutral Let_def
      intro!: advances_same split: if_splits option.splits)

subsection \<open>The call hooks\<close>

lemma call_mset_stamp [simp]: "call_mset (cs_stamp cs c) = call_mset c"
  by (simp add: call_mset_def change_ordinals_def)

lemma call_mset_prepend [simp]:
  "call_mset (prepend_deferred d c) = mset (concat (deferred_ordinals d)) + call_mset c"
  by (simp add: call_mset_def change_ordinals_def deferred_ordinals_def prepend_deferred_def)

lemma call_mset_append [simp]:
  "call_mset (append_deferred d c) = mset (concat (deferred_ordinals d)) + call_mset c"
  by (simp add: call_mset_def change_ordinals_def deferred_ordinals_def append_deferred_def)

lemma entered_call_mset: "entered_call c t \<Longrightarrow> call_mset c = {#ord_value (t_blockOrdinal t) + 1, 0#}"
  by (simp add: entered_call_def call_mset_def)

lemma exited_call_mset:
  "exited_call c' c o1 \<Longrightarrow> taken (call_mset c') \<subseteq># taken (add_mset o1 (call_mset c))"
  by (auto simp: exited_call_def call_mset_def subset_mset.add_increasing2)

lemma calls_mset_pop:
  "cs_Peek cs = Some c \<Longrightarrow> calls_mset (cs_stack cs) = calls_mset (cs_stack (snd (cs_Pop cs))) + call_mset c"
  by (cases "cs_stack cs" rule: rev_cases) (auto simp: cs_Peek_def)

lemma call_hooks_advance:
  "OnCallEnter depth typ caller target input gas value t = Inr t' \<Longrightarrow> advances t t'"
  "OnCallExit depth output gasUsed err rev1 t = Inr t' \<Longrightarrow> advances t t'"
proof -
  assume e: "OnCallEnter depth typ caller target input gas value t = Inr t'"
  from e show "advances t t'"
  proof (cases rule: OnCallEnter_elim)
    case 1
    then show ?thesis by (simp add: advances_def)
  next
    case (2 c)
    then show ?thesis
      by (intro advances_take)
         (simp_all add: state_mset_def live_mset_def own_block_mset_def entered_call_mset)
  next
    case (3 c)
    then show ?thesis
      by (intro advances_take)
         (simp_all add: state_mset_def live_mset_def own_block_mset_def entered_call_mset)
  qed
next
  assume e: "OnCallExit depth output gasUsed err rev1 t = Inr t'"
  from e show "advances t t'"
  proof (cases rule: OnCallExit_elim)
    case 1
    then show ?thesis by (simp add: advances_def)
  next
    case (2 c c' trx)
    let ?o = "ord_value (t_blockOrdinal t) + 1"
    have "taken (call_mset c') \<subseteq># taken (add_mset ?o (call_mset c))"
      by (rule exited_call_mset [OF 2(4)])
    moreover have "state_mset t' + call_mset c = state_mset t + call_mset c'"
      using 2 calls_mset_pop [OF 2(1)]
      by (simp add: state_mset_def live_mset_def own_block_mset_def trx_mset_def update_transaction_def)
    then have "taken (state_mset t') + taken (call_mset c) = taken (state_mset t) + taken (call_mset c')"
      by (metis taken_simps(2))
    ultimately have "taken (state_mset t') + taken (call_mset c)
        \<subseteq># taken (state_mset t) + taken (add_mset ?o (call_mset c))" by simp
    then have "taken (state_mset t') \<subseteq># taken (add_mset ?o (state_mset t))"
      by (auto split: if_splits)
    then show ?thesis using 2(5) by (intro advances_take) (simp_all add: update_transaction_def)
  qed
qed

subsection \<open>The transaction and system call hooks\<close>

lemma call_mset_blind: "blind call_mset"
  by (auto simp: blind_def call_mset_def change_ordinals_def)

lemma settled_mset:
  "calls \<noteq> [] \<Longrightarrow> calls_mset (settled_calls d calls) = mset (concat (deferred_ordinals d)) + calls_mset calls"
proof -
  assume "calls \<noteq> []"
  then have ne: "SortFunc call_compare calls \<noteq> []"
    using call_sort.mset_srt [of calls] by auto
  have "calls_mset (xs[0 := append_deferred d (xs ! 0)]) = mset (concat (deferred_ordinals d)) + calls_mset xs"
    if "xs \<noteq> []" for xs using that by (cases xs) simp_all
  from this [OF ne] show ?thesis
    using calls_mset_perm [OF call_sort.mset_srt [of calls]] by (simp add: settled_calls_def Let_def)
qed

lemma completeTransaction_mset:
  assumes "completeTransaction receipt err t = Inr t'"
  shows "taken (state_mset t') \<subseteq># taken (add_mset (ord_value (t_blockOrdinal t) + 1) (state_mset t))
    \<and> ord_value (t_blockOrdinal t') = ord_value (t_blockOrdinal t) + 1
    \<and> t_transactionIsolated t' = t_transactionIsolated t \<and> t_block t' = t_block t
    \<and> t_interruptedTransaction t' = t_interruptedTransaction t
    \<and> t_snapshotForNextFlashBlock t' = t_snapshotForNextFlashBlock t"
proof -
  let ?o = "ord_value (t_blockOrdinal t) + 1"
  obtain trx trx' where trx: "t_transaction t = Some trx"
    and t': "t' = t\<lparr>t_blockOrdinal := snd (ordinal_Next (t_blockOrdinal t)),
        t_transaction := Some trx', t_transactionTransient := t_transactionTransient t',
        t_deferredCallState := t_deferredCallState t',
        t_transactionKeccakPreimages := t_transactionKeccakPreimages t'\<rparr>"
    and be: "trx_BeginOrdinal trx' = trx_BeginOrdinal trx" "trx_EndOrdinal trx' = ?o"
    and calls: "trx_Calls trx = [] \<and> trx_Calls trx' = [] \<and> t_deferredCallState t' = t_deferredCallState t
      \<or> trx_Calls trx \<noteq> [] \<and> t_deferredCallState t' = NewDeferredCallState
        \<and> (\<forall>f :: Call \<Rightarrow> ordinals. blind f \<longrightarrow>
             map f (trx_Calls trx') = map f (settled_calls (t_deferredCallState t) (trx_Calls trx)))"
    using completeTransaction_elim [OF assms] by metis
  have "calls_mset (trx_Calls trx') + mset (concat (deferred_ordinals (t_deferredCallState t')))
      = calls_mset (trx_Calls trx) + mset (concat (deferred_ordinals (t_deferredCallState t)))"
    using calls
  proof (elim disjE conjE)
    assume "trx_Calls trx \<noteq> []" and d: "t_deferredCallState t' = NewDeferredCallState"
      and f: "\<forall>f :: Call \<Rightarrow> ordinals. blind f \<longrightarrow>
             map f (trx_Calls trx') = map f (settled_calls (t_deferredCallState t) (trx_Calls trx))"
    then have "calls_mset (trx_Calls trx') = calls_mset (settled_calls (t_deferredCallState t) (trx_Calls trx))"
      using call_mset_blind by (intro calls_mset_map) blast
    then show ?thesis using settled_mset [OF \<open>trx_Calls trx \<noteq> []\<close>] d by (simp add: ac_simps)
  qed simp
  then have live: "live_mset (Some trx') (t_callStack t) (t_deferredCallState t') + {#trx_EndOrdinal trx#}
      = add_mset ?o (live_mset (Some trx) (t_callStack t) (t_deferredCallState t))"
    by (simp add: live_mset_def trx_mset_def be ac_simps)
  have frame: "t_blockOrdinal t' = snd (ordinal_Next (t_blockOrdinal t))" "t_transaction t' = Some trx'"
    "t_callStack t' = t_callStack t" "t_block t' = t_block t"
    "t_transactionIsolated t' = t_transactionIsolated t"
    "t_interruptedTransaction t' = t_interruptedTransaction t"
    "t_snapshotForNextFlashBlock t' = t_snapshotForNextFlashBlock t"
    by (subst t', simp)+
  have "state_mset t' + {#trx_EndOrdinal trx#} = add_mset ?o (state_mset t)"
    using live frame trx by (simp add: state_mset_def own_block_mset_def)
  then have "taken (add_mset ?o (state_mset t)) = taken (state_mset t') + taken {#trx_EndOrdinal trx#}"
    by (metis taken_simps(2))
  with frame show ?thesis by simp
qed

lemma live_mset_idle [simp]:
  "live_mset None NewCallStack NewDeferredCallState = {#}"
  "live_mset (Some empty_Trace) NewCallStack NewDeferredCallState = {#0, 0#}"
  by (simp_all add: live_mset_def trx_mset_def empty_Trace_def)

lemma transaction_hooks_advance:
  "OnTxStart cr event reader t = Inr t' \<Longrightarrow> advances t t'"
  "OnTxEnd receipt err t = Inr t' \<Longrightarrow> advances t t'"
proof -
  assume "OnTxStart cr event reader t = Inr t'"
  then show "advances t t'"
    by (elim OnTxStart_elim)
       (auto intro!: advances_take simp: state_mset_def live_mset_def own_block_mset_def trx_mset_def)
next
  assume e: "OnTxEnd receipt err t = Inr t'"
  have reset: "taken (state_mset (resetTransaction x)) \<subseteq># taken (state_mset x)" for x
    by (simp add: state_mset_def own_block_mset_def)
  from e show "advances t t'"
  proof (cases rule: OnTxEnd_elim)
    case 1
    then show ?thesis by (simp add: advances_def)
  next
    case 2
    then show ?thesis using reset by (simp add: advances_def)
  next
    case (3 t1 trx)
    then show ?thesis using completeTransaction_mset [OF 3(1)] by (simp add: advances_def)
  next
    case (4 t1 trx)
    have "taken (state_mset t') \<subseteq># taken (state_mset t1)"
      using 4 by (auto simp: state_mset_def own_block_mset_def live_mset_def update_block_def
          subset_mset.add_increasing2 split: option.split)
    with completeTransaction_mset [OF 4(1)] 4(4) show ?thesis
      by (auto simp: advances_def intro: subset_mset.order_trans)
  qed
qed

lemma own_block_reset: "own_block_mset (resetTransaction t) = own_block_mset t"
  by (simp add: own_block_mset_def)

lemma system_hooks_advance:
  "OnSystemCallStart t = Inr t' \<Longrightarrow> advances t t'"
  "OnSystemCallEnd t = Inr t' \<Longrightarrow> advances t t'"
proof -
  assume "OnSystemCallStart t = Inr t'"
  then show "advances t t'"
    by (elim OnSystemCallStart_elim)
       (auto simp: advances_def state_mset_def own_block_mset_def interruptTransaction_def
          resetTransaction_def live_mset_def trx_mset_def empty_Trace_def
          subset_mset.add_increasing2 split: option.split)
next
  assume "OnSystemCallEnd t = Inr t'"
  then obtain trx t1 where trx: "t_transaction t = Some trx"
    and t1: "t1 = resetTransaction (update_block (\<lambda>b. b\<lparr>blk_SystemCalls := blk_SystemCalls b @
        attachStorageSlotPreimages (trx_Calls trx) (t_transactionKeccakPreimages t)\<rparr>) t)"
    and t': "t' = (case t_interruptedTransaction t of None \<Rightarrow> t1 | Some s \<Rightarrow> resumeTransaction s t1)"
    by (elim OnSystemCallEnd_elim)
  let ?add = "\<lambda>b. b\<lparr>blk_SystemCalls := blk_SystemCalls b @
    attachStorageSlotPreimages (trx_Calls trx) (t_transactionKeccakPreimages t)\<rparr>"
  have "calls_mset (attachStorageSlotPreimages cs rs) = calls_mset cs" for cs rs
    by (intro calls_mset_map attach_keeps) (simp add: call_mset_def change_ordinals_def)
  then have "own_block_mset (update_block ?add t) \<subseteq># own_block_mset t + calls_mset (trx_Calls trx)"
    by (simp add: own_block_mset_def update_block_def ac_simps split: option.split)
  also have "\<dots> \<subseteq># own_block_mset t + live_mset (t_transaction t) (t_callStack t) (t_deferredCallState t)"
    by (simp add: live_mset_def trx trx_mset_def ac_simps)
  finally have own: "own_block_mset t1 \<subseteq># own_block_mset t
      + live_mset (t_transaction t) (t_callStack t) (t_deferredCallState t)"
    unfolding t1 own_block_reset .
  have "state_mset t' \<subseteq># state_mset t"
  proof (cases "t_interruptedTransaction t")
    case None
    then have "state_mset t' = own_block_mset t1"
      by (simp add: t' t1 state_mset_def update_block_def)
    with own None show ?thesis by (simp add: state_mset_def)
  next
    case (Some s)
    then have "state_mset t' = own_block_mset t1
        + live_mset (it_transaction s) (it_callStack s) (it_deferredCallState s)"
      by (simp add: t' state_mset_def resumeTransaction_def own_block_mset_def)
    with own Some show ?thesis by (simp add: state_mset_def subset_mset.add_right_mono)
  qed
  then have "taken (state_mset t') \<subseteq># taken (state_mset t)"
    unfolding taken_def by (rule multiset_filter_mono)
  moreover have "t_blockOrdinal t' = t_blockOrdinal t"
    by (simp add: t' t1 resumeTransaction_def split: option.split)
  ultimately show "advances t t'" by (simp add: advances_def)
qed

subsection \<open>Flash block snapshots\<close>

text \<open>The ordinals a snapshot would restore, and what must hold of it until the next flash block.\<close>

definition snapshot_mset :: "flashBlockSnapshot \<Rightarrow> Block \<Rightarrow> ordinals" where
  "snapshot_mset s b = mset (map bc_Ordinal (take (sn_balanceChangesLen s) (blk_BalanceChanges b)))
     + mset (map cc_Ordinal (take (sn_codeChangesLen s) (blk_CodeChanges b)))
     + calls_mset (take (sn_systemCallsLen s) (blk_SystemCalls b))
     + sum_list (map trx_mset (take (sn_txTracesLen s) (blk_TransactionTraces b)))"

definition snapshot_fits :: "flashBlockSnapshot \<Rightarrow> Block \<Rightarrow> bool" where
  "snapshot_fits s b \<longleftrightarrow> sn_txTracesLen s \<le> length (blk_TransactionTraces b)
     \<and> sn_systemCallsLen s \<le> length (blk_SystemCalls b)
     \<and> sn_balanceChangesLen s \<le> length (blk_BalanceChanges b)
     \<and> sn_codeChangesLen s \<le> length (blk_CodeChanges b)
     \<and> unique_upto (snapshot_mset s b) (sn_ordinal s)"

definition snapshot_ok :: "tracer \<Rightarrow> bool" where
  "snapshot_ok t \<longleftrightarrow> (case t_snapshotForNextFlashBlock t of
       None \<Rightarrow> True
     | Some s \<Rightarrow> (case snapshot_block t s of None \<Rightarrow> False | Some b \<Rightarrow> snapshot_fits s b))"

text \<open>A block that only grew.\<close>

definition block_grew :: "Block \<Rightarrow> Block \<Rightarrow> bool" where
  "block_grew b b' \<longleftrightarrow> (\<exists>ts cs bs ks. blk_TransactionTraces b' = blk_TransactionTraces b @ ts
     \<and> blk_SystemCalls b' = blk_SystemCalls b @ cs \<and> blk_BalanceChanges b' = blk_BalanceChanges b @ bs
     \<and> blk_CodeChanges b' = blk_CodeChanges b @ ks) \<and> blk_Number b' = blk_Number b"

lemma block_grew_refl [simp]: "block_grew b b"
  by (simp add: block_grew_def)

lemma block_grew_adds [simp]:
  "block_grew b (b\<lparr>blk_BalanceChanges := blk_BalanceChanges b @ bs\<rparr>)"
  "block_grew b (b\<lparr>blk_CodeChanges := blk_CodeChanges b @ ks\<rparr>)"
  "block_grew b (b\<lparr>blk_SystemCalls := blk_SystemCalls b @ cs\<rparr>)"
  "block_grew b (b\<lparr>blk_TransactionTraces := blk_TransactionTraces b @ ts\<rparr>)"
  by (auto simp: block_grew_def)

lemma snapshot_fits_grew: "snapshot_fits s b \<Longrightarrow> block_grew b b' \<Longrightarrow> snapshot_fits s b'"
  by (auto simp: snapshot_fits_def block_grew_def snapshot_mset_def)

text \<open>The hooks of a transaction keep the snapshot and let the block only grow.\<close>

definition keeps_block :: "tracer \<Rightarrow> tracer \<Rightarrow> bool" where
  "keeps_block t t' \<longleftrightarrow> t_snapshotForNextFlashBlock t' = t_snapshotForNextFlashBlock t
     \<and> t_transactionIsolated t' = t_transactionIsolated t \<and> t_config t' = t_config t
     \<and> (case t_block t of None \<Rightarrow> t_block t' = None
        | Some b \<Rightarrow> (case t_block t' of None \<Rightarrow> False | Some b' \<Rightarrow> block_grew b b'))"

lemma snapshot_ok_keeps: "keeps_block t t' \<Longrightarrow> snapshot_ok t \<Longrightarrow> snapshot_ok t'"
  by (auto simp: keeps_block_def snapshot_ok_def snapshot_block_def
      split: option.splits dest: snapshot_fits_grew)

lemma keeps_block_simps [simp]:
  "keeps_block t t"
  "keeps_block t (update_active f s) = keeps_block t s"
  "keeps_block t (update_deferred g s) = keeps_block t s"
  "keeps_block t (s\<lparr>t_blockOrdinal := o1\<rparr>) = keeps_block t s"
  "keeps_block t (s\<lparr>t_transactionLogIndex := l\<rparr>) = keeps_block t s"
  "keeps_block t (s\<lparr>t_transactionKeccakPreimages := k\<rparr>) = keeps_block t s"
  "keeps_block t (s\<lparr>t_latestCallEnterSuicided := b\<rparr>) = keeps_block t s"
  "keeps_block t (s\<lparr>t_latestCallEnterSuicidedDepth := n\<rparr>) = keeps_block t s"
  "keeps_block t (s\<lparr>t_callStack := cs\<rparr>) = keeps_block t s"
  "keeps_block t (s\<lparr>t_deferredCallState := d\<rparr>) = keeps_block t s"
  "keeps_block t (s\<lparr>t_transaction := x\<rparr>) = keeps_block t s"
  "keeps_block t (s\<lparr>t_transactionTransient := x\<rparr>) = keeps_block t s"
  "keeps_block t (s\<lparr>t_transactionDropped := b\<rparr>) = keeps_block t s"
  "keeps_block t (s\<lparr>t_transactionStateReader := r\<rparr>) = keeps_block t s"
  "keeps_block t (s\<lparr>t_inSystemCall := b\<rparr>) = keeps_block t s"
  "keeps_block t (update_transaction f2 s) = keeps_block t s"
  "keeps_block t (resetTransaction s) = keeps_block t s"
  "keeps_block t (interruptTransaction s) = keeps_block t s"
  "keeps_block t (resumeTransaction i s) = keeps_block t s"
  by (simp_all add: keeps_block_def update_defs resetTransaction_def interruptTransaction_def
      resumeTransaction_def split: option.split)

lemma keeps_block_update:
  "(\<And>b. block_grew b (g b)) \<Longrightarrow> t_block s = t_block t \<Longrightarrow> keeps_block t s \<Longrightarrow> keeps_block t (update_block g s)"
  by (auto simp: keeps_block_def update_block_def split: option.splits)

lemma change_hooks_keep:
  "OnBalanceChange addr old new reason t = Inr t' \<Longrightarrow> keeps_block t t'"
  "OnNonceChange addr n n' t = Inr t' \<Longrightarrow> keeps_block t t'"
  "OnCodeChange addr ph nh oc nc t = Inr t' \<Longrightarrow> keeps_block t t'"
  "OnStorageChange addr slot ov nv t = Inr t' \<Longrightarrow> keeps_block t t'"
  "OnLog addr topics data bi t = Inr t' \<Longrightarrow> keeps_block t t'"
  "OnOpcode pc op1 gas cost rd depth err t = Inr t' \<Longrightarrow> keeps_block t t'"
  "OnOpcodeFault pc op1 gas cost depth err t = Inr t' \<Longrightarrow> keeps_block t t'"
  "OnKeccakPreimage h p t = Inr t' \<Longrightarrow> keeps_block t t'"
  by (auto simp: change_hook_defs OnOpcode_def OnOpcodeFault_def OnKeccakPreimage_def guard_Inr_iff
      Let_def intro!: keeps_block_update split: if_splits option.splits)

lemma completeTransaction_keeps:
  assumes "completeTransaction receipt err t = Inr t'"
  shows "keeps_block t t' \<and> t_block t' = t_block t"
proof -
  obtain trx trx' where t': "t' = t\<lparr>t_blockOrdinal := snd (ordinal_Next (t_blockOrdinal t)),
        t_transaction := Some trx', t_transactionTransient := t_transactionTransient t',
        t_deferredCallState := t_deferredCallState t',
        t_transactionKeccakPreimages := t_transactionKeccakPreimages t'\<rparr>"
    using completeTransaction_elim [OF assms] by metis
  show ?thesis by (subst (1 2) t') simp
qed

lemma transaction_hooks_keep:
  "OnCallEnter depth typ caller target input gas value t = Inr t' \<Longrightarrow> keeps_block t t'"
  "OnCallExit depth output gasUsed err rev1 t = Inr t' \<Longrightarrow> keeps_block t t'"
  "OnTxStart cr event reader t = Inr t' \<Longrightarrow> keeps_block t t'"
  "OnTxEnd receipt err t = Inr t' \<Longrightarrow> keeps_block t t'"
  "OnSystemCallStart t = Inr t' \<Longrightarrow> keeps_block t t'"
  "OnSystemCallEnd t = Inr t' \<Longrightarrow> keeps_block t t'"
  "OnTxReset t = Inr t' \<Longrightarrow> keeps_block t t'"
proof -
  assume e: "OnTxEnd receipt err t = Inr t'"
  from e show "keeps_block t t'"
  proof (cases rule: OnTxEnd_elim)
    case (3 t1 trx)
    then show ?thesis using completeTransaction_keeps [OF 3(1)] by simp
  next
    case (4 t1 trx)
    then show ?thesis using completeTransaction_keeps [OF 4(1)] by (simp add: keeps_block_update)
  qed simp_all
next
  assume "OnSystemCallEnd t = Inr t'"
  then show "keeps_block t t'"
    by (elim OnSystemCallEnd_elim) (auto simp: keeps_block_update split: option.split)
qed (auto elim!: OnCallEnter_elim OnCallExit_elim OnTxStart_elim OnSystemCallStart_elim
       simp: OnTxReset_def guard_Inr_iff)

subsection \<open>The block hooks\<close>

text \<open>
  Between two blocks: the state in which a block starts. \<open>OnBlockStart\<close> does not check it.
\<close>

definition idle :: "tracer \<Rightarrow> bool" where
  "idle t \<longleftrightarrow> blank t \<and> t_block t = None \<and> \<not> t_transactionIsolated t"

text \<open>\<open>BeforeBlockFlush\<close> may rewrite a block, as long as it leaves the recorded events in place.\<close>

definition keeps_ordinals :: "(Block \<Rightarrow> Block) \<Rightarrow> bool" where
  "keeps_ordinals f \<longleftrightarrow> (\<forall>b.
     map bc_Ordinal (blk_BalanceChanges (f b)) = map bc_Ordinal (blk_BalanceChanges b)
     \<and> map cc_Ordinal (blk_CodeChanges (f b)) = map cc_Ordinal (blk_CodeChanges b)
     \<and> map call_mset (blk_SystemCalls (f b)) = map call_mset (blk_SystemCalls b)
     \<and> map trx_mset (blk_TransactionTraces (f b)) = map trx_mset (blk_TransactionTraces b))"

definition flush_keeps :: "tracer \<Rightarrow> bool" where
  "flush_keeps t \<longleftrightarrow> (\<forall>f. cfg_BeforeBlockFlush (t_config t) = Some f \<longrightarrow> keeps_ordinals f)"

lemma snapshot_mset_maps:
  "snapshot_mset s b = mset (take (sn_balanceChangesLen s) (map bc_Ordinal (blk_BalanceChanges b)))
     + mset (take (sn_codeChangesLen s) (map cc_Ordinal (blk_CodeChanges b)))
     + sum_list (take (sn_systemCallsLen s) (map call_mset (blk_SystemCalls b)))
     + sum_list (take (sn_txTracesLen s) (map trx_mset (blk_TransactionTraces b)))"
  by (simp add: snapshot_mset_def calls_mset_def take_map)

lemma snapshot_fits_flush:
  assumes "keeps_ordinals f" and "snapshot_fits s b"
  shows "snapshot_fits s (f b)"
proof -
  have eq: "map bc_Ordinal (blk_BalanceChanges (f b)) = map bc_Ordinal (blk_BalanceChanges b)"
    "map cc_Ordinal (blk_CodeChanges (f b)) = map cc_Ordinal (blk_CodeChanges b)"
    "map call_mset (blk_SystemCalls (f b)) = map call_mset (blk_SystemCalls b)"
    "map trx_mset (blk_TransactionTraces (f b)) = map trx_mset (blk_TransactionTraces b)"
    using assms(1) by (simp_all add: keeps_ordinals_def)
  have "snapshot_mset s (f b) = snapshot_mset s b" by (simp only: snapshot_mset_maps eq)
  with assms(2) eq [THEN map_eq_imp_length_eq] show ?thesis by (simp add: snapshot_fits_def)
qed

lemma snapshot_ok_cong:
  "t_snapshotForNextFlashBlock t' = t_snapshotForNextFlashBlock t \<Longrightarrow> t_block t' = t_block t \<Longrightarrow>
     snapshot_ok t' \<longleftrightarrow> snapshot_ok t"
  by (simp add: snapshot_ok_def snapshot_block_def split: option.split)

lemma snapshot_fits_block [simp]: "snapshot_fits (s\<lparr>sn_block := x\<rparr>) b \<longleftrightarrow> snapshot_fits s b"
  by (simp add: snapshot_fits_def snapshot_mset_def)

lemma snapshot_ok_before_flush:
  "snapshot_ok t \<Longrightarrow> flush_keeps t \<Longrightarrow> snapshot_ok (before_flush t)"
  by (auto simp: before_flush_def flush_keeps_def snapshot_ok_def snapshot_block_def update_block_def
      split: option.splits intro: snapshot_fits_flush)

lemma snapshot_ok_frozen:
  assumes "snapshot_ok t"
  shows "snapshot_ok ((freeze_snapshot t)\<lparr>t_block := b\<rparr>)"
  using assms by (auto simp: snapshot_ok_def snapshot_block_def freeze_snapshot_def split: option.splits)

lemma idle_state_mset: "trx_state t' = trx_state t \<Longrightarrow> idle t \<Longrightarrow> state_mset t' = own_block_mset t'"
  by (simp add: trx_state_def idle_def blank_def state_mset_def)

lemma new_Block_lists [simp]:
  "blk_TransactionTraces (new_Block d) = []" "blk_SystemCalls (new_Block d) = []"
  "blk_BalanceChanges (new_Block d) = []" "blk_CodeChanges (new_Block d) = []"
  by (simp_all add: new_Block_def)

lemma OnBlockStart_ok:
  assumes "OnBlockStart event t = Inr t'" and "idle t" and "snapshot_ok t"
  shows "ordinals_ok t' \<and> snapshot_ok t'"
  using assms(1)
proof (cases rule: OnBlockStart_elim)
  case (1 t0 t1 t2 r)
  have ts: "trx_state t' = trx_state t" by (rule OnBlockStart_trx_state [OF assms(1)])
  have iso: "\<not> t_transactionIsolated t'" using ts assms(2) by (simp add: trx_state_def idle_def)
  have "snapshot_ok t0 \<and> t_block t0 = t_block t"
    using 1(1) assms(3)
    by (auto split: option.splits elim!: handleFlashBlockStart_elim
        simp: snapshot_ok_def snapshot_block_def)
  then have s1: "snapshot_ok t1"
    unfolding 1(2) using snapshot_ok_cong [of "t0\<lparr>t_blockRules := r\<rparr>" t0]
    by (intro snapshot_ok_frozen) simp
  have b1: "t_block t1 = Some (new_Block (ev_Block event))" by (simp add: 1(2))
  have mset_eq: "state_mset t' = block_mset b \<and> ord_value (t_blockOrdinal t') = ord_value (t_blockOrdinal t2)"
    if "t_block t2 = Some b" for b
    using fill_block_block [OF that, of event] idle_state_mset [OF ts assms(2)] iso
    by (auto simp: own_block_mset_def 1(4) block_mset_def)
  have sn: "snapshot_ok t' = snapshot_ok t2" if "t_block t2 \<noteq> None"
    and "\<And>s. t_snapshotForNextFlashBlock t2 = Some s \<Longrightarrow> sn_block s \<noteq> None"
    using that by (auto simp: 1(4) snapshot_ok_def snapshot_block_def split: option.splits)
  have frozen: "sn_block s \<noteq> None" if "t_snapshotForNextFlashBlock t1 = Some s" for s
    using that \<open>snapshot_ok t0 \<and> t_block t0 = t_block t\<close> assms(2)
    by (auto simp: 1(2) freeze_snapshot_def snapshot_ok_def snapshot_block_def idle_def
        split: option.splits)
  show ?thesis
  proof (cases "t2 = t1")
    case True
    have "state_mset t' = {#}" using mset_eq [of "new_Block (ev_Block event)"] b1 True
      by (simp add: block_mset_def)
    then show ?thesis using sn frozen s1 True b1 by (simp add: ordinals_ok_def unique_upto_def)
  next
    case False
    then have restore: "restoreFlashBlockSnapshot t1 = Inr t2" using 1(3) by (simp split: if_splits)
    from restore show ?thesis
    proof (cases rule: restoreFlashBlockSnapshot_elim)
      case 1
      with False show ?thesis by simp
    next
      case (2 snap prev ts cs bs ks)
      obtain b where b: "t_block t2 = Some b" and "block_mset b = snapshot_mset snap prev"
        using b1 2(3-7) by (auto simp: update_block_def block_mset_def snapshot_mset_def)
      moreover have "snapshot_fits snap prev" using s1 2(1,2) by (simp add: snapshot_ok_def)
      ultimately have "ordinals_ok t'"
        using mset_eq [OF b] 2(7) by (simp add: ordinals_ok_def snapshot_fits_def)
      moreover have "t_snapshotForNextFlashBlock t2 = t_snapshotForNextFlashBlock t1"
        using 2(7) by (simp add: update_block_def)
      moreover have "snapshot_ok t2 = snapshot_ok t1"
        using frozen 2(7) by (auto simp: snapshot_ok_def snapshot_block_def update_block_def split: option.splits)
      ultimately show ?thesis using sn frozen s1 b by simp
    qed
  qed
qed

lemma OnBlockEnd_ok:
  assumes "OnBlockEnd err t = Inr t'" and "snapshot_ok t" and "flush_keeps t"
  shows "ordinals_ok t' \<and> snapshot_ok t'"
  using assms(1)
proof (cases rule: OnBlockEnd_elim)
  case (1 t1)
  have "snapshot_ok t1"
  proof (cases err)
    case None
    then obtain x where "t1 = emit x (before_flush t)" using 1(2) by blast
    then show ?thesis
      using snapshot_ok_before_flush [OF assms(2,3)] snapshot_ok_cong [of t1 "before_flush t"]
      by (simp add: emit_def)
  next
    case (Some e)
    then show ?thesis using 1(3) assms(2) by (auto simp: snapshot_ok_def)
  qed
  then have "snapshot_ok t'"
    unfolding 1(1) by (auto simp: snapshot_ok_def snapshot_block_def freeze_snapshot_def split: option.splits)
  moreover have "state_mset t' = {#}"
    by (simp add: 1(1) state_mset_def own_block_mset_def)
  ultimately show ?thesis by (simp add: ordinals_ok_def unique_upto_def)
qed

lemma Snapshot_ok:
  assumes "SnapshotFlashBlockForNextIteration t = Inr t'" and "ordinals_ok t" and "snapshot_ok t"
    and "\<not> t_transactionIsolated t"
  shows "ordinals_ok t' \<and> snapshot_ok t'"
proof (cases "t_flashBlockIndex t")
  case None
  with assms show ?thesis by (simp add: SnapshotFlashBlockForNextIteration_def)
next
  case (Some idx)
  with assms(1) obtain b where b: "t_block t = Some b"
    by (auto simp: SnapshotFlashBlockForNextIteration_def split: option.splits)
  have "taken (block_mset b) \<subseteq># taken (state_mset t)"
    using b assms(4) by (simp add: state_mset_def own_block_mset_def ac_simps)
  then have "unique_upto (block_mset b) (ord_value (t_blockOrdinal t))"
    using assms(2) unique_upto_subset unfolding ordinals_ok_def by blast
  moreover obtain s where "t' = t\<lparr>t_snapshotForNextFlashBlock := Some s\<rparr>"
    using assms(1) Some b by (auto simp: SnapshotFlashBlockForNextIteration_def)
  then have "ordinals_ok t'" using assms(2) by (simp add: ordinals_ok_def)
  ultimately show ?thesis
    using assms(1) Some b
    by (auto simp: SnapshotFlashBlockForNextIteration_def snapshot_ok_def snapshot_block_def
        snapshot_fits_def snapshot_mset_def block_mset_def)
qed

subsection \<open>Every reachable state\<close>

text \<open>
  Where a hook may be applied: with room for one more ordinal, blocks started when idle, block hooks on
  a coordinator, and a \<open>BeforeBlockFlush\<close> that leaves the events in place.
\<close>

definition ordinal_fits :: "hook \<Rightarrow> tracer \<Rightarrow> bool" where
  "ordinal_fits h t \<longleftrightarrow> unat (ord_value (t_blockOrdinal t)) + 1 < 2 ^ 64 \<and>
     (case h of HBlockStart _ \<Rightarrow> idle t | HBlockEnd _ \<Rightarrow> flush_keeps t
      | HSnapshot \<Rightarrow> \<not> t_transactionIsolated t
      | HTxReset \<Rightarrow> t_interruptedTransaction t = None | _ \<Rightarrow> True)"

lemmas advance_hooks = change_hooks_advance opcode_hooks_advance call_hooks_advance
  transaction_hooks_advance system_hooks_advance

lemmas keep_hooks = change_hooks_keep transaction_hooks_keep

lemma OnTxReset_ok: "OnTxReset t = Inr t' \<Longrightarrow> t_interruptedTransaction t = None \<Longrightarrow> ordinals_ok t'"
  by (auto simp: OnTxReset_def guard_Inr_iff check_None_iff ordinals_ok_def state_mset_def
      own_block_mset_def unique_upto_def)

lemma ordinals_ok_step:
  assumes "apply_hook cr h t = Inr t'" and "ordinal_fits h t" and "ordinals_ok t \<and> snapshot_ok t"
  shows "ordinals_ok t' \<and> snapshot_ok t'"
proof -
  have room: "unat (ord_value (t_blockOrdinal t)) + 1 < 2 ^ 64"
    using assms(2) by (simp add: ordinal_fits_def)
  have inner: "ordinals_ok t' \<and> snapshot_ok t'" if "advances t t'" and "keeps_block t t'"
    using that assms(3) advances_ok [OF _ _ room] snapshot_ok_keeps by blast
  show ?thesis
  proof (cases h)
    case (HBlockStart event)
    with assms OnBlockStart_ok [of event t t'] show ?thesis by (simp add: ordinal_fits_def)
  next
    case (HBlockEnd err)
    with assms OnBlockEnd_ok [of err t t'] show ?thesis by (simp add: ordinal_fits_def)
  next
    case HSnapshot
    with assms show ?thesis using Snapshot_ok [of t t'] by (simp add: ordinal_fits_def)
  next
    case HTxReset
    with assms OnTxReset_ok [of t t'] transaction_hooks_keep(7) [of t t'] snapshot_ok_keeps [of t t']
    show ?thesis by (simp add: ordinal_fits_def)
  qed (use assms(1) in \<open>auto intro!: inner intro: advance_hooks keep_hooks\<close>)
qed

lemma ordinals_ok_reachable:
  assumes "reachable cr ordinal_fits t0 t" and "ordinals_ok t0 \<and> snapshot_ok t0"
  shows "ordinals_ok t \<and> snapshot_ok t"
  using assms(1)
proof (induction rule: reachable.induct)
  case start
  show ?case by (rule assms(2))
next
  case (hook t h t')
  then show ?case using ordinals_ok_step by blast
qed

text \<open>A tracer as \<open>NewTracer\<close> or \<open>OnTxSpawn\<close> makes it.\<close>

definition fresh :: "tracer \<Rightarrow> bool" where
  "fresh t \<longleftrightarrow> blank t \<and> (t_transactionIsolated t \<or> t_block t = None)
     \<and> t_snapshotForNextFlashBlock t = None"

lemma fresh_new [simp]: "fresh (NewTracer config)" "fresh (newIsolatedTransactionTracer t)"
  by (simp_all add: fresh_def) (simp_all add: NewTracer_def newIsolatedTransactionTracer_def)

lemma fresh_ok: "fresh t \<Longrightarrow> ordinals_ok t \<and> snapshot_ok t"
  by (auto simp: fresh_def blank_def ordinals_ok_def snapshot_ok_def state_mset_def own_block_mset_def
      unique_upto_def)

text \<open>
  C6. In every state reached from a fresh tracer, no ordinal taken occurs twice among all the events
  recorded anywhere (block, transaction, active calls, deferred state, interrupted transaction), and
  none is above the counter: flash block restarts, interrupting system calls, failed blocks and
  transaction retries included.
\<close>

theorem ordinals_unique:
  assumes "reachable cr ordinal_fits t0 t" and "fresh t0" and "x \<noteq> 0"
  shows "count (state_mset t) x \<le> 1 \<and> (x \<in># state_mset t \<longrightarrow> x \<le> ord_value (t_blockOrdinal t))"
  using ordinals_ok_reachable [OF assms(1) fresh_ok [OF assms(2)]] assms(3)
  by (simp add: ordinals_ok_def unique_upto_taken)

lemma OnBlockEnd_output:
  assumes "OnBlockEnd None t = Inr t'"
  obtains b where "t_block (before_flush t) = Some b" and "t_transaction t = None"
    and "t_output t' = t_output t @ [BlockLine \<lparr>bo_block = b,
      bo_libNum = computeLibNum (blk_Number b) (t_blockFinality t),
      bo_printedFlashBlockIndex =
        computePrintedFlashBlockIndex (t_flashBlockIndex t) (t_flashBlockIsFinal t)\<rparr>]"
proof -
  have re: "(if b then reorderIsolatedTransactionsAndOrdinals x else x) = x" for b x
    by (simp add: reorderIsolatedTransactionsAndOrdinals_def)
  have bf: "t_transaction (before_flush t) = t_transaction t" "t_output (before_flush t) = t_output t"
    "t_blockFinality (before_flush t) = t_blockFinality t"
    "t_flashBlockIndex (before_flush t) = t_flashBlockIndex t"
    "t_flashBlockIsFinal (before_flush t) = t_flashBlockIsFinal t"
    by (auto simp: before_flush_def update_block_def split: option.split)
  show ?thesis
    using assms that
    by (auto simp: OnBlockEnd_def guard_Inr_iff bindR_Inr_iff ensure_None_iff Let_def re bf
        freeze_snapshot_def emit_def split: option.splits)
qed

lemma block_mset_flush: "keeps_ordinals f \<Longrightarrow> block_mset (f b) = block_mset b"
  by (simp add: keeps_ordinals_def block_mset_def calls_mset_def)

text \<open>
  C14. A block that ends after any such hooks is flushed with every taken ordinal on one event only.
\<close>

theorem flushed_block_ordinals:
  assumes "reachable cr ordinal_fits t0 t" and "fresh t0" and "flush_keeps t"
    and "\<not> t_transactionIsolated t" and "OnBlockEnd None t = Inr t'" and "x \<noteq> 0"
  shows "\<exists>out. t_output t' = t_output t @ [BlockLine out] \<and> count (block_mset (bo_block out)) x \<le> 1"
proof -
  obtain b' where b': "t_block (before_flush t) = Some b'"
    and out: "t_output t' = t_output t @ [BlockLine \<lparr>bo_block = b',
      bo_libNum = computeLibNum (blk_Number b') (t_blockFinality t),
      bo_printedFlashBlockIndex =
        computePrintedFlashBlockIndex (t_flashBlockIndex t) (t_flashBlockIsFinal t)\<rparr>]"
    using OnBlockEnd_output [OF assms(5)] by metis
  obtain b where b: "t_block t = Some b" and same: "block_mset b' = block_mset b"
    using b' assms(3) block_mset_flush
    by (auto simp: before_flush_def flush_keeps_def update_block_def split: option.splits)
  have "block_mset b \<subseteq># state_mset t"
    using b assms(4) by (simp add: state_mset_def own_block_mset_def)
  then have "count (block_mset b) x \<le> count (state_mset t) x" by (rule mset_subset_eq_count)
  also have "\<dots> \<le> 1"
    using ordinals_ok_reachable [OF assms(1) fresh_ok [OF assms(2)]] assms(6)
    by (simp add: ordinals_ok_def unique_upto_taken)
  finally show ?thesis using out same by simp
qed

end
