(* ===== verification/SystemFlash.thy ===== *)
theory SystemFlash
  imports OrdinalInv
begin

section \<open>Interrupting system calls and flash block restarts\<close>

text \<open>
  Two operations that set state aside and bring it back: a system call started inside a transaction,
  and the snapshot a flash block leaves to the next one. What comes back is what was there.
\<close>

subsection \<open>Hooks inside a call\<close>

text \<open>The hooks that can fire while a system call runs: calls, opcodes, changes and logs.\<close>

definition inner_hook :: "hook \<Rightarrow> bool" where
  "inner_hook h \<longleftrightarrow> (case h of
      HCallEnter _ _ _ _ _ _ _ \<Rightarrow> True | HCallExit _ _ _ _ _ \<Rightarrow> True
    | HOpcode _ _ _ _ _ _ _ \<Rightarrow> True | HOpcodeFault _ _ _ _ _ _ \<Rightarrow> True | HKeccakPreimage _ _ \<Rightarrow> True
    | HBalanceChange _ _ _ _ \<Rightarrow> True | HNonceChange _ _ _ \<Rightarrow> True | HCodeChange _ _ _ _ _ \<Rightarrow> True
    | HStorageChange _ _ _ _ \<Rightarrow> True | HLog _ _ _ _ \<Rightarrow> True | _ \<Rightarrow> False)"

text \<open>What such hooks leave alone.\<close>

definition outer_state :: "tracer \<Rightarrow> _" where
  "outer_state t = (t_interruptedTransaction t, t_inSystemCall t, t_transaction t = None,
     t_config t, t_chainConfig t, t_blockRules t, t_snapshotForNextFlashBlock t, t_flashBlockIndex t,
     t_transactionIsolated t)"

lemma outer_state_simps [simp]:
  "outer_state (update_active f t) = outer_state t"
  "outer_state (update_deferred g t) = outer_state t"
  "outer_state (update_block h t) = outer_state t"
  "outer_state (update_transaction k t) = outer_state t"
  "outer_state (t\<lparr>t_blockOrdinal := o1\<rparr>) = outer_state t"
  "outer_state (t\<lparr>t_transactionLogIndex := l\<rparr>) = outer_state t"
  "outer_state (t\<lparr>t_transactionKeccakPreimages := p\<rparr>) = outer_state t"
  "outer_state (t\<lparr>t_latestCallEnterSuicided := b\<rparr>) = outer_state t"
  "outer_state (t\<lparr>t_latestCallEnterSuicidedDepth := n\<rparr>) = outer_state t"
  "outer_state (t\<lparr>t_callStack := cs\<rparr>) = outer_state t"
  "outer_state (t\<lparr>t_deferredCallState := d\<rparr>) = outer_state t"
  by (simp_all add: outer_state_def update_defs)

lemma inner_hook_outer:
  assumes "apply_hook cr h t = Inr t'" and "inner_hook h"
  shows "outer_state t' = outer_state t"
  using assms
  by (cases h)
     (auto simp: inner_hook_def change_hook_defs OnOpcode_def OnOpcodeFault_def OnKeccakPreimage_def
        guard_Inr_iff Let_def elim!: OnCallEnter_elim OnCallExit_elim split: if_splits option.splits)

lemma inner_hooks_outer:
  "run_hooks cr hs t = Inr t' \<Longrightarrow> list_all inner_hook hs \<Longrightarrow> outer_state t' = outer_state t"
proof (induction hs arbitrary: t)
  case Nil
  then show ?case by simp
next
  case (Cons h hs)
  then obtain s where "apply_hook cr h t = Inr s" and "run_hooks cr hs s = Inr t'"
    by (auto simp: bindR_Inr_iff)
  with Cons inner_hook_outer [of cr h t s] show ?case by simp
qed

text \<open>Inside a transaction such hooks never write the block.\<close>

lemma in_transaction_keeps_block:
  assumes "apply_hook cr h t = Inr t'" and "inner_hook h" and "t_transaction t \<noteq> None"
  shows "t_block t' = t_block t"
  using assms
  by (cases h)
     (auto simp: inner_hook_def change_hook_defs OnOpcode_def OnOpcodeFault_def OnKeccakPreimage_def
        guard_Inr_iff Let_def update_defs elim!: OnCallEnter_elim OnCallExit_elim split: if_splits option.splits)

lemma in_transaction_run_keeps_block:
  "run_hooks cr hs t = Inr t' \<Longrightarrow> list_all inner_hook hs \<Longrightarrow> t_transaction t \<noteq> None \<Longrightarrow> t_block t' = t_block t"
proof (induction hs arbitrary: t)
  case Nil
  then show ?case by simp
next
  case (Cons h hs)
  then obtain s where s: "apply_hook cr h t = Inr s" and "run_hooks cr hs s = Inr t'"
    by (auto simp: bindR_Inr_iff)
  moreover have "t_transaction s \<noteq> None"
    using inner_hook_outer [OF s] Cons.prems(2,3) by (simp add: outer_state_def)
  ultimately show ?case using Cons.IH [of s] Cons.prems in_transaction_keeps_block [OF s] by simp
qed

subsection \<open>A system call inside a transaction\<close>

text \<open>The state of the transaction being traced.\<close>

definition transaction_state :: "tracer \<Rightarrow> _" where
  "transaction_state t = (t_transaction t, t_transactionLogIndex t, t_transactionStateReader t,
     t_transactionKeccakPreimages t, t_callStack t, t_deferredCallState t,
     t_latestCallEnterSuicided t, t_latestCallEnterSuicidedDepth t)"

text \<open>
  C11. A system call that starts inside a transaction does not disturb it: whatever calls, opcodes, changes
  and logs are traced in between, when the system call ends the transaction's trace, call stack,
  deferred state, log index, preimages and self-destruct flag are those it had when the system call
  started, and the calls of the system call, no others, are appended to the block's system calls.
\<close>

theorem system_call_transparent:
  assumes "t_transaction t \<noteq> None" and "OnSystemCallStart t = Inr t1"
    and "run_hooks cr hs t1 = Inr t2" and "list_all inner_hook hs" and "OnSystemCallEnd t2 = Inr t3"
  shows "transaction_state t3 = transaction_state t \<and> \<not> t_inSystemCall t3
    \<and> t_interruptedTransaction t3 = None
    \<and> (\<exists>b trx. t_block t = Some b \<and> t_transaction t2 = Some trx
         \<and> t_block t3 = Some (b\<lparr>blk_SystemCalls := blk_SystemCalls b @
             attachStorageSlotPreimages (trx_Calls trx) (t_transactionKeccakPreimages t2)\<rparr>))"
proof -
  have t1: "t1 = (interruptTransaction t)\<lparr>t_inSystemCall := True, t_transaction := Some empty_Trace\<rparr>"
    and b: "t_block t \<noteq> None"
    using assms(1,2) by (auto elim!: OnSystemCallStart_elim)
  obtain s where s: "t_interruptedTransaction t1 = Some s"
    by (simp add: t1 interruptTransaction_def)
  then have restored: "transaction_state (resumeTransaction s x) = transaction_state t" for x
    by (auto simp: t1 interruptTransaction_def transaction_state_def resumeTransaction_def
        resetTransaction_def)
  have s2: "t_interruptedTransaction t2 = Some s"
    using inner_hooks_outer [OF assms(3,4)] s by (simp add: outer_state_def)
  have b2: "t_block t2 = t_block t"
    using in_transaction_run_keeps_block [OF assms(3,4)]
    by (simp add: t1 interruptTransaction_def resetTransaction_def)
  obtain trx t4 where trx: "t_transaction t2 = Some trx"
    and t4: "t4 = resetTransaction (update_block (\<lambda>b. b\<lparr>blk_SystemCalls := blk_SystemCalls b @
        attachStorageSlotPreimages (trx_Calls trx) (t_transactionKeccakPreimages t2)\<rparr>) t2)"
    and t3: "t3 = resumeTransaction s t4"
    using assms(5) s2 by (auto elim!: OnSystemCallEnd_elim)
  show ?thesis
    using restored b b2 trx by (auto simp: t3 t4 resumeTransaction_def update_block_def)
qed

subsection \<open>Flash blocks\<close>

text \<open>The hooks of the rest of a block: all but starting it, ending it, taking a snapshot.\<close>

definition within_block :: "hook \<Rightarrow> bool" where
  "within_block h \<longleftrightarrow> (case h of HBlockStart _ \<Rightarrow> False | HBlockEnd _ \<Rightarrow> False | HSnapshot \<Rightarrow> False
    | _ \<Rightarrow> True)"

lemma keeps_block_trans: "keeps_block a b \<Longrightarrow> keeps_block b c \<Longrightarrow> keeps_block a c"
  by (auto simp: keeps_block_def block_grew_def split: option.splits)

lemma within_block_keeps:
  assumes "apply_hook cr h t = Inr t'" and "within_block h"
  shows "keeps_block t t'"
  using assms by (cases h) (auto simp: within_block_def intro: keep_hooks)

lemma within_block_run_keeps:
  "run_hooks cr hs t = Inr t' \<Longrightarrow> list_all within_block hs \<Longrightarrow> keeps_block t t'"
proof (induction hs arbitrary: t)
  case Nil
  then show ?case by simp
next
  case (Cons h hs)
  then obtain s where s: "apply_hook cr h t = Inr s" and "run_hooks cr hs s = Inr t'"
    by (auto simp: bindR_Inr_iff)
  with Cons within_block_keeps [OF s] keeps_block_trans show ?case by auto
qed

text \<open>The four lists of a block that a flash block carries over.\<close>

definition carried :: "Block \<Rightarrow> _" where
  "carried b = (blk_TransactionTraces b, blk_SystemCalls b, blk_BalanceChanges b, blk_CodeChanges b)"

lemma carried_extra [simp]:
  "carried (b\<lparr>blk_Uncles := us, blk_Withdrawals := ws\<rparr>) = carried b"
  by (simp add: carried_def)

text \<open>
  C10. A flash block starts from the snapshot of the one before it: after a snapshot, whatever else the
  block traces, and the end of the block, starting the next flash block of the same number requires a
  larger index and yields a block with exactly the transactions, system calls, balance and code
  changes there were at the snapshot, with the ordinal counter back where it was.
\<close>

theorem flash_block_restart:
  assumes "SnapshotFlashBlockForNextIteration t = Inr t1" and "t_flashBlockIndex t = Some idx"
    and "run_hooks cr hs t1 = Inr t2" and "list_all within_block hs"
    and "OnBlockEnd None t2 = Inr t3" and "cfg_BeforeBlockFlush (t_config t) = None"
    and "OnBlockStart event t3 = Inr t4" and "ev_FlashBlock event = Some fb"
    and "t_block t = Some b" and "bd_Number (ev_Block event) = blk_Number b"
  shows "idx < fb_Idx fb \<and> ord_value (t_blockOrdinal t4) = ord_value (t_blockOrdinal t)
    \<and> (\<exists>b4. t_block t4 = Some b4 \<and> carried b4 = carried b)"
proof -
  define s where "s = \<lparr>sn_block = None, sn_txTracesLen = length (blk_TransactionTraces b),
    sn_systemCallsLen = length (blk_SystemCalls b), sn_balanceChangesLen = length (blk_BalanceChanges b),
    sn_codeChangesLen = length (blk_CodeChanges b), sn_ordinal = ord_value (t_blockOrdinal t),
    sn_flashIndex = idx\<rparr>"
  have t1: "t1 = t\<lparr>t_snapshotForNextFlashBlock := Some s\<rparr>"
    using assms(1,2,9) by (simp add: SnapshotFlashBlockForNextIteration_def s_def)
  have s: "sn_block s = None"
    "sn_txTracesLen s = length (blk_TransactionTraces b)"
    "sn_systemCallsLen s = length (blk_SystemCalls b)"
    "sn_balanceChangesLen s = length (blk_BalanceChanges b)"
    "sn_codeChangesLen s = length (blk_CodeChanges b)"
    "sn_ordinal s = ord_value (t_blockOrdinal t)" "sn_flashIndex s = idx"
    by (simp_all add: s_def)
  have k: "keeps_block t1 t2" by (rule within_block_run_keeps [OF assms(3,4)])
  then obtain b2 where b2: "t_block t2 = Some b2" "block_grew b b2"
    and sn2: "t_snapshotForNextFlashBlock t2 = Some s" and cfg2: "t_config t2 = t_config t"
    using assms(9) by (auto simp: keeps_block_def t1 split: option.splits)
  have bf: "before_flush t2 = t2" using assms(6) cfg2 by (simp add: before_flush_def)
  obtain x where t3: "t3 = resetTransaction (resetBlock (freeze_snapshot (emit x t2)))"
    using assms(5)
  proof (cases rule: OnBlockEnd_elim)
    case (1 u)
    from 1(2) [OF refl] obtain y where "u = emit y t2" unfolding bf by blast
    with 1(1) show ?thesis using that [of y] by simp
  qed
  have sn3: "t_snapshotForNextFlashBlock t3 = Some (s\<lparr>sn_block := Some b2\<rparr>)"
    using s(1) sn2 b2(1) by (simp add: t3 freeze_snapshot_def emit_def)
  have num: "blk_Number b2 = bd_Number (ev_Block event)"
    using b2(2) assms(10) by (simp add: block_grew_def)
  from assms(7) show ?thesis
  proof (cases rule: OnBlockStart_elim)
    case (1 t0 u1 u2 r)
    have h: "handleFlashBlockStart fb (bd_Number (ev_Block event)) t3 = Inr t0"
      using 1(1) assms(8) by simp
    then have lt: "idx < fb_Idx fb"
      and t0: "t0 = t3\<lparr>t_flashBlockIndex := Some (fb_Idx fb), t_flashBlockIsFinal := fb_IsFinal fb\<rparr>"
      using sn3 num s(7)
      by (auto simp: handleFlashBlockStart_def snapshot_block_def bindR_Inr_iff guard_Inr_iff check_None_iff)
    have u1: "t_snapshotForNextFlashBlock u1 = Some (s\<lparr>sn_block := Some b2\<rparr>)"
      "IsFlashBlock u1" "t_block u1 = Some (new_Block (ev_Block event))"
      using sn3 by (simp_all add: 1(2) t0 freeze_snapshot_def IsFlashBlock_def)
    then have "restoreFlashBlockSnapshot u1 = Inr u2" using 1(3) by simp
    then show ?thesis
    proof (cases rule: restoreFlashBlockSnapshot_elim)
      case 1
      with u1(1) show ?thesis by simp
    next
      case (2 snap prev ts cs bs ks)
      have snap: "snap = s\<lparr>sn_block := Some b2\<rparr>" using 2(1) u1(1) by simp
      then have prev: "prev = b2" using 2(2) by (simp add: snapshot_block_def)
      have lists: "ts = blk_TransactionTraces b" "cs = blk_SystemCalls b"
        "bs = blk_BalanceChanges b" "ks = blk_CodeChanges b"
        using 2(3-6) s(2-5) b2(2) by (auto simp: snap prev block_grew_def)
      obtain b4 where b4: "t_block u2 = Some b4" and "carried b4 = carried b"
        using 2(7) u1(3) lists by (simp add: update_block_def carried_def)
      then have "\<exists>b5. t_block t4 = Some b5 \<and> carried b5 = carried b"
        using fill_block_block [OF b4, of event] 1(4) by auto
      moreover have "ord_value (t_blockOrdinal t4) = ord_value (t_blockOrdinal t)"
        using 2(7) s(6) by (simp add: 1(4) snap update_block_def)
      ultimately show ?thesis using lt by blast
    qed
  qed
qed



end
