(* ===== verification/ParallelSpec.thy ===== *)
theory ParallelSpec
  imports SystemFlash
begin

section \<open>Parallel execution keeps ordinals unique\<close>

text \<open>
  Committing the trace of an isolated tracer shifts its ordinals by the coordinator's counter. That
  keeps ordinals unique if the trace's own ordinals are unique, none is 0 and none is above its end
  ordinal; the first part of the theory shows that the traces isolated tracers complete are such.
\<close>

subsection \<open>No event of a completed trace has ordinal 0\<close>

definition open_mset :: "Call \<Rightarrow> ordinals" where
  "open_mset c = add_mset (call_BeginOrdinal c) (mset (concat (change_ordinals c)))"

text \<open>
  An active call has every ordinal but its end, a recorded call has them all, a transaction that is not
  a system call has its first one.
\<close>

definition live_nonzero :: "bool \<Rightarrow> TransactionTrace option \<Rightarrow> CallStack \<Rightarrow> DeferredCallState \<Rightarrow> bool" where
  "live_nonzero system trx cs d \<longleftrightarrow>
     (\<forall>c \<in> set (cs_stack cs). 0 \<notin># open_mset c)
     \<and> (\<forall>c \<in> set (recorded_calls trx). 0 \<notin># call_mset c)
     \<and> 0 \<notin># mset (concat (deferred_ordinals d))
     \<and> (\<not> system \<longrightarrow> (case trx of None \<Rightarrow> True | Some x \<Rightarrow> trx_BeginOrdinal x \<noteq> 0))"

definition nonzero :: "tracer \<Rightarrow> bool" where
  "nonzero t \<longleftrightarrow> live_nonzero (t_inSystemCall t) (t_transaction t) (t_callStack t) (t_deferredCallState t)
     \<and> (case t_interruptedTransaction t of None \<Rightarrow> True
        | Some s \<Rightarrow> live_nonzero False (it_transaction s) (it_callStack s) (it_deferredCallState s))"

lemma open_mset_adds [simp]:
  "open_mset (call_add_balance b c) = add_mset (bc_Ordinal b) (open_mset c)"
  "open_mset (call_add_nonce n c) = add_mset (nc_Ordinal n) (open_mset c)"
  "open_mset (call_add_code k c) = add_mset (cc_Ordinal k) (open_mset c)"
  "open_mset (call_add_storage s c) = add_mset (sc_Ordinal s) (open_mset c)"
  "open_mset (call_add_log l c) = add_mset (log_Ordinal l) (open_mset c)"
  "open_mset (c\<lparr>call_ExecutedCode := e\<rparr>) = open_mset c"
  "open_mset (c\<lparr>call_Suicide := e\<rparr>) = open_mset c"
  "open_mset (cs_stamp cs c) = open_mset c"
  "open_mset (prepend_deferred d c) = mset (concat (deferred_ordinals d)) + open_mset c"
  by (simp_all add: open_mset_def change_ordinals_def call_add_defs prepend_deferred_def
      deferred_ordinals_def)

lemma live_nonzero_idle [simp]:
  "live_nonzero s None NewCallStack NewDeferredCallState"
  "live_nonzero True (Some empty_Trace) NewCallStack NewDeferredCallState"
  by (simp_all add: live_nonzero_def empty_Trace_def)

lemma nonzero_other [simp]:
  "nonzero (t\<lparr>t_blockOrdinal := o1\<rparr>) = nonzero t"
  "nonzero (t\<lparr>t_transactionLogIndex := l\<rparr>) = nonzero t"
  "nonzero (t\<lparr>t_transactionKeccakPreimages := k\<rparr>) = nonzero t"
  "nonzero (t\<lparr>t_latestCallEnterSuicided := b\<rparr>) = nonzero t"
  "nonzero (t\<lparr>t_latestCallEnterSuicidedDepth := n\<rparr>) = nonzero t"
  "nonzero (t\<lparr>t_transactionTransient := x\<rparr>) = nonzero t"
  "nonzero (t\<lparr>t_transactionDropped := b\<rparr>) = nonzero t"
  "nonzero (t\<lparr>t_transactionStateReader := r\<rparr>) = nonzero t"
  "nonzero (update_block g t) = nonzero t"
  by (simp_all add: nonzero_def update_block_def)

lemma nonzero_trx_state:
  "trx_state t' = trx_state t \<Longrightarrow> t_inSystemCall t' = t_inSystemCall t \<Longrightarrow> nonzero t' = nonzero t"
  by (simp add: nonzero_def trx_state_def)

lemma nonzero_active:
  "nonzero t \<Longrightarrow> (\<And>c. 0 \<notin># open_mset c \<Longrightarrow> 0 \<notin># open_mset (f c)) \<Longrightarrow> nonzero (update_active f t)"
  by (cases "cs_stack (t_callStack t)" rule: rev_cases)
     (auto simp: nonzero_def live_nonzero_def update_active_def)

lemma nonzero_deferred_adds [simp]:
  "nonzero (update_deferred (df_AddBalanceChange b) t) \<longleftrightarrow> bc_Ordinal b \<noteq> 0 \<and> nonzero t"
  "nonzero (update_deferred (df_AddNonceChange n) t) \<longleftrightarrow> nc_Ordinal n \<noteq> 0 \<and> nonzero t"
  "nonzero (update_deferred (df_AddCodeChange k) t) \<longleftrightarrow> cc_Ordinal k \<noteq> 0 \<and> nonzero t"
  "nonzero (update_deferred (df_AddStorageChange s) t) \<longleftrightarrow> sc_Ordinal s \<noteq> 0 \<and> nonzero t"
  "nonzero (update_deferred (df_AddLog l) t) \<longleftrightarrow> log_Ordinal l \<noteq> 0 \<and> nonzero t"
  by (auto simp: nonzero_def live_nonzero_def update_deferred_def simp del: mset_concat)

lemma next_nonzero:
  assumes "unat (k :: u64) + 1 < 2 ^ 64"
  shows "k + 1 \<noteq> 0"
proof -
  have "unat (k + 1) = unat k + 1" using assms by (simp add: unat_add_one)
  then show ?thesis by auto
qed

lemma change_hooks_nonzero:
  assumes "nonzero t" and "ord_value (t_blockOrdinal t) + 1 \<noteq> 0"
  shows "OnBalanceChange addr old new reason t = Inr t' \<Longrightarrow> nonzero t'"
    and "OnNonceChange addr n n' t = Inr t' \<Longrightarrow> nonzero t'"
    and "OnCodeChange addr ph nh oc nc t = Inr t' \<Longrightarrow> nonzero t'"
    and "OnStorageChange addr slot ov nv t = Inr t' \<Longrightarrow> nonzero t'"
    and "OnLog addr topics data bi t = Inr t' \<Longrightarrow> nonzero t'"
    and "OnOpcode pc op1 gas cost rd depth err t = Inr t' \<Longrightarrow> nonzero t'"
    and "OnOpcodeFault pc op1 gas cost depth err t = Inr t' \<Longrightarrow> nonzero t'"
    and "OnKeccakPreimage h p t = Inr t' \<Longrightarrow> nonzero t'"
  using assms
  by (auto simp: change_hook_defs OnOpcode_def OnOpcodeFault_def OnKeccakPreimage_def guard_Inr_iff
      Let_def intro!: nonzero_active split: if_splits option.splits)

lemma open_change: "call_mset c = add_mset (call_EndOrdinal c) (open_mset c)"
  by (simp add: call_mset_def open_mset_def)

lemma call_hooks_nonzero:
  assumes "nonzero t" and "ord_value (t_blockOrdinal t) + 1 \<noteq> 0"
  shows "OnCallEnter depth typ caller target input gas value t = Inr t' \<Longrightarrow> nonzero t'"
    and "OnCallExit depth output gasUsed err rev1 t = Inr t' \<Longrightarrow> nonzero t'"
proof -
  have new: "0 \<notin># open_mset c" if "entered_call c t" for c
    using that assms(2) by (simp add: entered_call_def open_mset_def)
  assume e: "OnCallEnter depth typ caller target input gas value t = Inr t'"
  from e show "nonzero t'"
  proof (cases rule: OnCallEnter_elim)
    case 1
    then show ?thesis using assms(1) by (simp add: nonzero_def)
  next
    case (2 c)
    then show ?thesis using assms(1) new [OF 2(1)]
      by (auto simp: nonzero_def live_nonzero_def simp del: mset_concat)
  next
    case (3 c)
    then show ?thesis using assms(1) new [OF 3(1)] by (auto simp: nonzero_def live_nonzero_def)
  qed
next
  assume e: "OnCallExit depth output gasUsed err rev1 t = Inr t'"
  from e show "nonzero t'"
  proof (cases rule: OnCallExit_elim)
    case 1
    then show ?thesis using assms(1) by (simp add: nonzero_def)
  next
    case (2 c c' trx)
    have "c \<in> set (cs_stack (t_callStack t))" using 2(1) by (auto simp: cs_Peek_Some_iff)
    then have "0 \<notin># open_mset c" using assms(1) by (simp add: nonzero_def live_nonzero_def)
    then have "0 \<notin># call_mset c'" using 2(4) assms(2)
      by (simp add: open_change exited_call_def open_mset_def)
    moreover have "set (cs_stack (snd (cs_Pop cs))) \<subseteq> set (cs_stack cs)" for cs
      by (auto simp: cs_Pop_def dest: in_set_butlastD)
    ultimately show ?thesis using 2(2,5) assms(1)
      by (auto simp: nonzero_def live_nonzero_def update_transaction_def)
  qed
qed

lemma in_calls_mset: "x \<in># calls_mset cs \<longleftrightarrow> (\<exists>c \<in> set cs. x \<in># call_mset c)"
  by (induction cs) auto

lemma nonzero_start:
  assumes "nonzero t" and "ord_value (t_blockOrdinal t) + 1 \<noteq> 0" and "OnTxStart cr event reader t = Inr t'"
  shows "nonzero t'"
  using assms by (elim OnTxStart_elim) (auto simp: nonzero_def live_nonzero_def)

lemma nonzero_resetTransaction: "nonzero t \<Longrightarrow> nonzero (resetTransaction t)"
  by (simp add: nonzero_def)

lemma completeTransaction_nonzero:
  assumes "nonzero t" and "completeTransaction receipt err t = Inr t'"
  shows "nonzero t' \<and> (\<exists>trx. t_transaction t' = Some trx
    \<and> trx_EndOrdinal trx = ord_value (t_blockOrdinal t) + 1)
    \<and> t_inSystemCall t' = t_inSystemCall t"
proof -
  let ?d = "t_deferredCallState t"
  obtain trx trx' where trx: "t_transaction t = Some trx"
    and t': "t' = t\<lparr>t_blockOrdinal := snd (ordinal_Next (t_blockOrdinal t)),
        t_transaction := Some trx', t_transactionTransient := t_transactionTransient t',
        t_deferredCallState := t_deferredCallState t',
        t_transactionKeccakPreimages := t_transactionKeccakPreimages t'\<rparr>"
    and be: "trx_BeginOrdinal trx' = trx_BeginOrdinal trx"
      "trx_EndOrdinal trx' = ord_value (t_blockOrdinal t) + 1"
    and calls: "trx_Calls trx = [] \<and> trx_Calls trx' = [] \<and> t_deferredCallState t' = ?d
      \<or> trx_Calls trx \<noteq> [] \<and> t_deferredCallState t' = NewDeferredCallState
        \<and> (\<forall>f :: Call \<Rightarrow> ordinals. blind f \<longrightarrow>
             map f (trx_Calls trx') = map f (settled_calls ?d (trx_Calls trx)))"
    using completeTransaction_elim [OF assms(2)] by metis
  have old: "0 \<notin># calls_mset (trx_Calls trx)" "0 \<notin># mset (concat (deferred_ordinals ?d))"
    using assms(1) trx by (auto simp: nonzero_def live_nonzero_def in_calls_mset)
  have new: "0 \<notin># calls_mset (trx_Calls trx') \<and> 0 \<notin># mset (concat (deferred_ordinals (t_deferredCallState t')))"
    using calls
  proof (elim disjE conjE)
    assume ne: "trx_Calls trx \<noteq> []" and d: "t_deferredCallState t' = NewDeferredCallState"
      and f: "\<forall>f :: Call \<Rightarrow> ordinals. blind f \<longrightarrow>
             map f (trx_Calls trx') = map f (settled_calls ?d (trx_Calls trx))"
    have "calls_mset (trx_Calls trx') = calls_mset (settled_calls ?d (trx_Calls trx))"
      using f call_mset_blind by (intro calls_mset_map) blast
    then show ?thesis using old settled_mset [OF ne] by (simp add: d del: mset_concat)
  qed (use old in simp)
  have frame: "t_transaction t' = Some trx'" "t_callStack t' = t_callStack t"
    "t_interruptedTransaction t' = t_interruptedTransaction t" "t_inSystemCall t' = t_inSystemCall t"
    by (subst t', simp)+
  show ?thesis
    using assms(1) new frame trx be
    by (simp add: nonzero_def live_nonzero_def in_calls_mset del: mset_concat)
qed

lemma transaction_hooks_nonzero:
  assumes "nonzero t"
  shows "OnTxEnd receipt err t = Inr t' \<Longrightarrow> nonzero t'"
    and "OnTxReset t = Inr t' \<Longrightarrow> nonzero t'"
    and "OnSystemCallStart t = Inr t' \<Longrightarrow> nonzero t'"
    and "OnSystemCallEnd t = Inr t' \<Longrightarrow> nonzero t'"
proof -
  assume e: "OnTxEnd receipt err t = Inr t'"
  from e show "nonzero t'"
  proof (cases rule: OnTxEnd_elim)
    case (3 t1 trx)
    then show ?thesis using completeTransaction_nonzero [OF assms 3(1)] by simp
  next
    case (4 t1 trx)
    then show ?thesis using completeTransaction_nonzero [OF assms 4(1)]
      by (simp add: nonzero_resetTransaction)
  qed (use assms nonzero_resetTransaction in auto)
next
  assume "OnTxReset t = Inr t'"
  then show "nonzero t'" using assms by (auto simp: OnTxReset_def guard_Inr_iff nonzero_def live_nonzero_def)
next
  assume "OnSystemCallStart t = Inr t'"
  then show "nonzero t'" using assms
    by (elim OnSystemCallStart_elim)
       (auto simp: nonzero_def live_nonzero_def interruptTransaction_def resetTransaction_def empty_Trace_def
         split: option.splits)
next
  assume "OnSystemCallEnd t = Inr t'"
  then show "nonzero t'" using assms
    by (elim OnSystemCallEnd_elim)
       (auto simp: nonzero_def resumeTransaction_def update_block_def split: option.splits)
qed

subsection \<open>Traces as isolated tracers complete them\<close>

text \<open>
  The hooks of one transaction, applied where the 64-bit counter has room; a transaction does not end
  inside a system call.
\<close>

definition isolated_fits :: "hook \<Rightarrow> tracer \<Rightarrow> bool" where
  "isolated_fits h t \<longleftrightarrow> ordinal_fits h t \<and> within_block h
     \<and> (case h of HTxEnd _ _ \<Rightarrow> \<not> t_inSystemCall t | _ \<Rightarrow> True)"

lemma nonzero_step:
  assumes "apply_hook cr h t = Inr t'" and "isolated_fits h t" and "nonzero t"
  shows "nonzero t'"
proof -
  have "unat (ord_value (t_blockOrdinal t)) + 1 < 2 ^ 64"
    using assms(2) by (simp add: isolated_fits_def ordinal_fits_def)
  note room = next_nonzero [OF this]
  show ?thesis
    using assms(1,2)
    by (cases h)
       (auto simp: isolated_fits_def within_block_def
          intro: change_hooks_nonzero [OF assms(3) room] call_hooks_nonzero [OF assms(3) room]
            nonzero_start [OF assms(3) room] transaction_hooks_nonzero [OF assms(3)])
qed

text \<open>
  The states of an isolated tracer: spawned, hooked, and reset for its next transaction whatever it
  traced before. Its view of the block, which the coordinator and other tracers write, may change
  at any time.
\<close>

inductive isolated_tracer :: "Crypto \<Rightarrow> tracer \<Rightarrow> bool" for cr where
  spawn: "OnTxSpawn n t = Inr s \<Longrightarrow> isolated_tracer cr s"
| hook: "isolated_tracer cr s \<Longrightarrow> isolated_fits h s \<Longrightarrow> apply_hook cr h s = Inr s' \<Longrightarrow> isolated_tracer cr s'"
| recycle: "t_interruptedTransaction s = None \<Longrightarrow> OnTxReset s = Inr s' \<Longrightarrow> isolated_tracer cr s'"
| view: "isolated_tracer cr s \<Longrightarrow> isolated_tracer cr (s\<lparr>t_block := b\<rparr>)"

lemma OnTxSpawn_elim: "OnTxSpawn n t = Inr s \<Longrightarrow> s = newIsolatedTransactionTracer t"
  by (simp add: OnTxSpawn_def guard_Inr_iff)

lemma OnTxCommit_some:
  assumes "\<not> t_transactionIsolated t" and "t_transactionIsolated s" and "\<not> t_transactionDropped s"
    and "t_transactionTransient s = Some x"
  shows "OnTxCommit t s = (if t_block t = None then Inl NilDereference else Inr (None,
    (update_block (\<lambda>b. b\<lparr>blk_TransactionTraces := blk_TransactionTraces b @
          [reorderTransactionOrdinals (ord_value (t_blockOrdinal t)) x]\<rparr>) t)
        \<lparr>t_blockOrdinal := ordinal_Set (trx_EndOrdinal x + ord_value (t_blockOrdinal t)) (t_blockOrdinal t)\<rparr>,
    (update_transaction (reorderTransactionOrdinals (ord_value (t_blockOrdinal t))) s)
        \<lparr>t_transactionTransient := None\<rparr>))"
  using assms by (simp add: OnTxCommit_def Let_def ordinal_Peek_def reorderTransactionOrdinals_def)

lemma OnTxCommit_elim:
  assumes "OnTxCommit t s = Inr (err, t', s')"
  obtains "t' = t" and "s' = s \<or> s' = s\<lparr>t_transactionDropped := False\<rparr>"
      and "t_transactionIsolated t \<or> \<not> t_transactionIsolated s \<or> t_transactionDropped s
        \<or> t_transactionTransient s = None"
  | x b where "err = None" and "\<not> t_transactionIsolated t" and "t_transactionIsolated s"
      and "\<not> t_transactionDropped s" and "t_transactionTransient s = Some x" and "t_block t = Some b"
      and "t' = (update_block (\<lambda>b. b\<lparr>blk_TransactionTraces := blk_TransactionTraces b @
          [reorderTransactionOrdinals (ord_value (t_blockOrdinal t)) x]\<rparr>) t)
        \<lparr>t_blockOrdinal := ordinal_Set (trx_EndOrdinal x + ord_value (t_blockOrdinal t)) (t_blockOrdinal t)\<rparr>"
      and "s' = (update_transaction (reorderTransactionOrdinals (ord_value (t_blockOrdinal t))) s)
        \<lparr>t_transactionTransient := None\<rparr>"
proof -
  note elims = that
  show ?thesis
  proof (cases "t_transactionIsolated t \<or> \<not> t_transactionIsolated s \<or> t_transactionDropped s
      \<or> t_transactionTransient s = None")
    case True
    note stay = this
    from True have "OnTxCommit t s \<in> {Inr (e, t, s) |e. True} \<union> {Inr (None, t, s\<lparr>t_transactionDropped := False\<rparr>)}"
      by (cases "t_transactionTransient s") (auto simp: OnTxCommit_def)
    with assms have "t' = t \<and> (s' = s \<or> s' = s\<lparr>t_transactionDropped := False\<rparr>)" by auto
    then show ?thesis using elims(1) stay by blast
  next
    case False
    then obtain x where "t_transactionTransient s = Some x" by auto
    note x = this
    have iso: "\<not> t_transactionIsolated t" "t_transactionIsolated s" "\<not> t_transactionDropped s"
      using False by simp_all
    note c = OnTxCommit_some [OF iso x]
    obtain b where b: "t_block t = Some b" using assms c by (cases "t_block t") auto
    show ?thesis
      using assms c by (intro elims(2) [OF _ iso x b]) (simp_all add: b)
  qed
qed

lemma isolated_tracer_inv:
  "isolated_tracer cr s \<Longrightarrow> ordinals_ok s \<and> nonzero s \<and> t_transactionIsolated s"
proof (induction rule: isolated_tracer.induct)
  case (spawn n t s)
  have s: "s = newIsolatedTransactionTracer t" by (rule OnTxSpawn_elim [OF spawn])
  then have "ordinals_ok s" using fresh_ok fresh_new(2) by blast
  moreover have "nonzero s" using blank_new(2) [of t] by (simp add: s blank_def nonzero_def)
  moreover have "t_transactionIsolated s" by (simp add: s newIsolatedTransactionTracer_def)
  ultimately show ?case by blast
next
  case (hook s h s')
  have room: "unat (ord_value (t_blockOrdinal s)) + 1 < 2 ^ 64" and w: "within_block h"
    using hook.hyps(2) by (simp_all add: isolated_fits_def ordinal_fits_def)
  have k: "keeps_block s s'" by (rule within_block_keeps [OF hook.hyps(3) w])
  have "ordinals_ok s'"
    using hook.hyps(2,3) hook.IH w
    by (cases h)
       (auto simp: isolated_fits_def ordinal_fits_def within_block_def OnTxReset_ok
          intro: advances_ok [OF _ _ room] advance_hooks)
  then show ?case
    using nonzero_step [OF hook.hyps(3,2)] hook.IH k by (simp add: keeps_block_def)
next
  case (recycle s s')
  have "nonzero s'"
    using recycle.hyps by (auto simp: OnTxReset_def guard_Inr_iff nonzero_def live_nonzero_def)
  moreover have "t_transactionIsolated s'"
    using recycle.hyps(2) by (auto simp: OnTxReset_def guard_Inr_iff check_None_iff)
  ultimately show ?case using OnTxReset_ok [OF recycle.hyps(2,1)] by blast
next
  case (view s b)
  have "ordinals_ok (s\<lparr>t_block := b\<rparr>) = ordinals_ok s"
    using view.IH by (simp add: ordinals_ok_def state_mset_def own_block_mset_def)
  with view.IH show ?case by (simp add: nonzero_def)
qed

text \<open>A trace that can be shifted: its ordinals are from 1 to its end, each on one event.\<close>

definition committable :: "TransactionTrace \<Rightarrow> bool" where
  "committable x \<longleftrightarrow> unique_upto (trx_mset x) (trx_EndOrdinal x) \<and> 0 \<notin># trx_mset x"

lemma ended_committable:
  assumes "isolated_tracer cr s" and "isolated_fits (HTxEnd receipt err) s"
    and "OnTxEnd receipt err s = Inr s'" and "\<not> t_transactionDropped s'"
  obtains x where "t_transactionTransient s' = Some x" and "t_transaction s' = Some x" and "committable x"
    and "trx_EndOrdinal x = ord_value (t_blockOrdinal s) + 1"
    and "t_blockOrdinal s' = snd (ordinal_Next (t_blockOrdinal s))"
proof -
  have inv: "ordinals_ok s" "nonzero s" "t_transactionIsolated s"
    using isolated_tracer_inv [OF assms(1)] by blast+
  have room: "unat (ord_value (t_blockOrdinal s)) + 1 < 2 ^ 64" and sys: "\<not> t_inSystemCall s"
    using assms(2) by (simp_all add: isolated_fits_def ordinal_fits_def)
  from assms(3) show ?thesis
  proof (cases rule: OnTxEnd_elim)
    case 1
    with assms(4) show ?thesis by simp
  next
    case 2
    with inv show ?thesis by simp
  next
    case (3 t1 x)
    have n: "nonzero t1" and e: "trx_EndOrdinal x = ord_value (t_blockOrdinal s) + 1"
      and i: "\<not> t_inSystemCall t1"
      using completeTransaction_nonzero [OF inv(2) 3(1)] 3(2) sys by auto
    have m: "ord_value (t_blockOrdinal t1) = ord_value (t_blockOrdinal s) + 1"
      and sub: "taken (state_mset t1) \<subseteq># taken (add_mset (ord_value (t_blockOrdinal s) + 1) (state_mset s))"
      using completeTransaction_mset [OF 3(1)] by auto
    have "unique_upto (state_mset t1) (ord_value (t_blockOrdinal s) + 1)"
      using unique_upto_next [OF _ sub room] inv(1) by (simp add: ordinals_ok_def)
    then have "unique_upto (trx_mset x) (trx_EndOrdinal x)"
      by (rule unique_upto_subset) (simp_all add: e state_mset_def live_mset_def 3(2))
    moreover have "0 \<notin># trx_mset x"
      using n i e next_nonzero [OF room]
      by (auto simp: nonzero_def live_nonzero_def trx_mset_def in_calls_mset 3(2))
    ultimately have "committable x" by (simp add: committable_def)
    moreover obtain trx trx' where t1: "t1 = s\<lparr>t_blockOrdinal := snd (ordinal_Next (t_blockOrdinal s)),
        t_transaction := Some trx', t_transactionTransient := t_transactionTransient t1,
        t_deferredCallState := t_deferredCallState t1,
        t_transactionKeccakPreimages := t_transactionKeccakPreimages t1\<rparr>"
      using completeTransaction_elim [OF 3(1)] by metis
    have "t_blockOrdinal t1 = snd (ordinal_Next (t_blockOrdinal s))" by (subst t1) simp
    ultimately show ?thesis using that [of x] 3(2,4) e by simp
  next
    case (4 t1 x)
    then show ?thesis using completeTransaction_mset [OF 4(1)] inv by simp
  qed
qed

subsection \<open>Committing\<close>

lemma call_mset_reorder: "call_mset (reorderCallOrdinals b c) = image_mset (\<lambda>o1. o1 + b) (call_mset c)"
  by (simp add: call_mset_def change_ordinals_def reorderCallOrdinals_def comp_def
      flip: mset_map)

lemma trx_mset_reorder:
  "trx_mset (reorderTransactionOrdinals b x) = image_mset (\<lambda>o1. o1 + b) (trx_mset x)"
proof -
  have "calls_mset (map (reorderCallOrdinals b) cs) = image_mset (\<lambda>o1. o1 + b) (calls_mset cs)" for cs
    by (induction cs) (simp_all add: call_mset_reorder)
  then show ?thesis by (simp add: trx_mset_def reorderTransactionOrdinals_def)
qed

lemma count_shift: "count (image_mset (\<lambda>o1. o1 + b) M) ((y :: u64) + b) = count M y"
  by (induction M) auto

lemma unique_upto_shift:
  assumes M: "unique_upto M e" "0 \<notin># M" and N: "unique_upto N b" and room: "unat b + unat e < 2 ^ 64"
  shows "unique_upto (image_mset (\<lambda>o1. o1 + b) M + N) (e + b)"
  unfolding unique_upto_taken
proof (intro allI impI)
  fix x :: u64
  assume x: "x \<noteq> 0"
  define y where "y = x - b"
  have xy: "x = y + b" by (simp add: y_def)
  have cM: "count (image_mset (\<lambda>o1. o1 + b) M) x = count M y" unfolding xy by (rule count_shift)
  have e: "unat (e + b) = unat e + unat b" using room by (simp add: unat_word_ariths)
  then have be: "b \<le> e + b" by (simp add: word_le_nat_alt)
  show "count (image_mset (\<lambda>o1. o1 + b) M + N) x \<le> 1
      \<and> (x \<in># image_mset (\<lambda>o1. o1 + b) M + N \<longrightarrow> x \<le> e + b)"
  proof (cases "y \<in># M")
    case True
    then have y0: "y \<noteq> 0" using M(2) by auto
    with True M(1) have y: "y \<noteq> 0" "y \<le> e" "count M y \<le> 1" unfolding unique_upto_taken by auto
    then have ux: "unat x = unat y + unat b"
      using room by (simp add: xy unat_word_ariths word_le_nat_alt)
    then have "b < x" using y(1) by (simp add: word_less_nat_alt unat_gt_0)
    then have "x \<notin># N" using N x unfolding unique_upto_taken by auto
    moreover have "x \<le> e + b" using ux y(2) e by (simp add: word_le_nat_alt)
    ultimately show ?thesis using cM y(3) by (simp add: not_in_iff)
  next
    case False
    then have "count M y = 0" by (simp add: not_in_iff)
    moreover from this have "x \<notin># image_mset (\<lambda>o1. o1 + b) M" using cM by (simp only: not_in_iff)
    ultimately show ?thesis using N x be cM unfolding unique_upto_taken by fastforce
  qed
qed

text \<open>
  What \<open>OnTxEnd\<close> leaves of an isolated tracer: a transaction that was dropped, or a trace that can be
  shifted and ends at the counter.
\<close>

definition ended :: "tracer \<Rightarrow> bool" where
  "ended s \<longleftrightarrow> t_transactionDropped s \<or> (\<exists>x. t_transactionTransient s = Some x \<and> committable x
     \<and> trx_EndOrdinal x = ord_value (t_blockOrdinal s))"

lemma ended_view [simp]: "ended (s\<lparr>t_block := b\<rparr>) = ended s"
  by (simp add: ended_def)

lemma end_ended:
  assumes "isolated_tracer cr s" and "isolated_fits (HTxEnd receipt err) s" and "OnTxEnd receipt err s = Inr s'"
  shows "ended s'"
proof (cases "t_transactionDropped s'")
  case False
  obtain x where "t_transactionTransient s' = Some x" "committable x"
    "trx_EndOrdinal x = ord_value (t_blockOrdinal s) + 1" "t_blockOrdinal s' = snd (ordinal_Next (t_blockOrdinal s))"
    using ended_committable [OF assms False] by metis
  then show ?thesis by (simp add: ended_def)
qed (simp add: ended_def)

lemma commit_ok:
  assumes ok: "ordinals_ok t \<and> snapshot_ok t" and e: "ended s"
    and c: "OnTxCommit t s = Inr (res, t', s')"
    and room: "unat (ord_value (t_blockOrdinal t)) + unat (ord_value (t_blockOrdinal s)) < 2 ^ 64"
  shows "ordinals_ok t' \<and> snapshot_ok t'"
  using c
proof (cases rule: OnTxCommit_elim)
  case 1
  with ok show ?thesis by simp
next
  case (2 x b)
  let ?b = "ord_value (t_blockOrdinal t)"
  have x: "committable x" "trx_EndOrdinal x = ord_value (t_blockOrdinal s)"
    using e 2(4,5) by (auto simp: ended_def)
  have r: "unat ?b + unat (trx_EndOrdinal x) < 2 ^ 64" using room by (simp add: x(2))
  have "unique_upto (state_mset t) ?b" using ok by (simp add: ordinals_ok_def)
  with x(1) r have "unique_upto (image_mset (\<lambda>o1. o1 + ?b) (trx_mset x) + state_mset t)
      (trx_EndOrdinal x + ?b)"
    unfolding committable_def by (intro unique_upto_shift) simp_all
  moreover have "state_mset t' = image_mset (\<lambda>o1. o1 + ?b) (trx_mset x) + state_mset t"
    using 2(2,6) by (simp add: 2(7) state_mset_def own_block_mset_def update_block_def trx_mset_reorder)
  moreover have "ord_value (t_blockOrdinal t') = trx_EndOrdinal x + ?b" by (simp add: 2(7))
  moreover have "keeps_block t t'" by (simp add: 2(7) keeps_block_update)
  ultimately show ?thesis using ok snapshot_ok_keeps by (simp add: ordinals_ok_def)
qed

subsection \<open>Hooks that stay off the shared block\<close>

text \<open>
  The hooks of a transaction. A system call, and a balance or code change outside a transaction, on an
  isolated tracer would write its own ordinals, which no commit shifts, into the coordinator's block.
\<close>

definition off_block :: "hook \<Rightarrow> tracer \<Rightarrow> bool" where
  "off_block h s \<longleftrightarrow> (case h of
      HSystemCallStart \<Rightarrow> False | HSystemCallEnd \<Rightarrow> False
    | HBalanceChange _ _ _ _ \<Rightarrow> t_transaction s \<noteq> None | HCodeChange _ _ _ _ _ \<Rightarrow> t_transaction s \<noteq> None
    | _ \<Rightarrow> within_block h)"

lemma OnTxEnd_off_block:
  assumes "OnTxEnd receipt err s = Inr s'" and "t_transactionIsolated s"
  shows "t_block s' = t_block s \<and> t_interruptedTransaction s' = t_interruptedTransaction s
    \<and> t_transactionIsolated s'"
  using assms(1)
proof (cases rule: OnTxEnd_elim)
  case (3 t1 trx)
  then show ?thesis using completeTransaction_mset [OF 3(1)] assms(2) by simp
next
  case (4 t1 trx)
  then show ?thesis using completeTransaction_mset [OF 4(1)] assms(2) by simp
qed (use assms(2) in auto)

lemma off_block_keeps:
  assumes "apply_hook cr h s = Inr s'" and "off_block h s" and "t_transactionIsolated s"
  shows "t_block s' = t_block s \<and> t_interruptedTransaction s' = t_interruptedTransaction s"
proof (cases h)
  case (HTxEnd receipt err)
  then show ?thesis using assms(1,3) OnTxEnd_off_block [of receipt err s s'] by simp
qed (use assms in \<open>auto simp: off_block_def within_block_def change_hook_defs OnOpcode_def OnOpcodeFault_def
      OnKeccakPreimage_def OnTxReset_def guard_Inr_iff Let_def update_defs
      elim!: OnCallEnter_elim OnCallExit_elim OnTxStart_elim split: if_splits option.splits\<close>)

lemma isolated_fits_view [simp]: "isolated_fits h (s\<lparr>t_block := b\<rparr>) = isolated_fits h s"
  if "within_block h"
  using that by (cases h) (simp_all add: isolated_fits_def ordinal_fits_def within_block_def)

lemma off_block_view [simp]: "off_block h (s\<lparr>t_block := b\<rparr>) = off_block h s"
  by (simp add: off_block_def cong: hook.case_cong)

subsection \<open>A coordinator and its isolated tracers\<close>

text \<open>
  The isolated tracers of a coordinator, in the order they were spawned. Each is tracing, has ended its
  transaction, or had it committed. A tracer shares the coordinator's block until the coordinator
  leaves it: the tracer's pointer then keeps the old block, as that block was left.
\<close>

datatype phase = Tracing | Ended | Committed

record worker =
  wk_tracer :: tracer
  wk_shares :: bool
  wk_phase :: phase

record parallel =
  pa_coordinator :: tracer
  pa_workers :: "worker list"

definition on_worker :: "(tracer \<Rightarrow> go_panic + tracer) \<Rightarrow> tracer \<Rightarrow> worker \<Rightarrow> go_panic + (tracer \<times> worker)" where
  "on_worker f t w =
     bindR (if wk_shares w then on_shared f t (wk_tracer w)
            else bindR (f (wk_tracer w)) (\<lambda>s. Inr (t, s)))
       (\<lambda>(t, s). Inr (t, w\<lparr>wk_tracer := s\<rparr>))"

definition old_block :: "hook \<Rightarrow> tracer \<Rightarrow> Block option" where
  "old_block h t = (case h of HBlockEnd None \<Rightarrow> t_block (before_flush t) | _ \<Rightarrow> t_block t)"

definition leaves_block :: "hook \<Rightarrow> bool" where
  "leaves_block h \<longleftrightarrow> (case h of HBlockStart _ \<Rightarrow> True | HBlockEnd _ \<Rightarrow> True | _ \<Rightarrow> False)"

definition leave_block :: "hook \<Rightarrow> tracer \<Rightarrow> worker \<Rightarrow> worker" where
  "leave_block h t w =
     (if leaves_block h \<and> wk_shares w
      then w\<lparr>wk_tracer := (wk_tracer w)\<lparr>t_block := old_block h t\<rparr>, wk_shares := False\<rparr> else w)"

text \<open>
  The interleavings of a coordinator and its isolated tracers: the coordinator runs its own hooks, system
  calls, flash blocks and block ends included, spawns tracers and commits what they traced; the isolated
  tracers run the hooks of transactions and are reset for a retry or for their next transaction. The
  64-bit ordinals have room.
\<close>

inductive session :: "Crypto \<Rightarrow> tracer \<Rightarrow> parallel \<Rightarrow> bool" for cr t0 where
  start: "session cr t0 \<lparr>pa_coordinator = t0, pa_workers = []\<rparr>"
| hook: "session cr t0 \<lparr>pa_coordinator = t, pa_workers = ws\<rparr> \<Longrightarrow> ordinal_fits h t \<Longrightarrow> apply_hook cr h t = Inr t' \<Longrightarrow>
    session cr t0 \<lparr>pa_coordinator = t', pa_workers = map (leave_block h t) ws\<rparr>"
| spawn: "session cr t0 \<lparr>pa_coordinator = t, pa_workers = ws\<rparr> \<Longrightarrow> OnTxSpawn n t = Inr s \<Longrightarrow>
    session cr t0 \<lparr>pa_coordinator = t,
      pa_workers = ws @ [\<lparr>wk_tracer = s, wk_shares = True, wk_phase = Tracing\<rparr>]\<rparr>"
| trace: "session cr t0 \<lparr>pa_coordinator = t, pa_workers = ws\<rparr> \<Longrightarrow> i < length ws \<Longrightarrow> wk_phase (ws ! i) = Tracing \<Longrightarrow>
    isolated_fits h (wk_tracer (ws ! i)) \<Longrightarrow> off_block h (wk_tracer (ws ! i)) \<Longrightarrow>
    on_worker (apply_hook cr h) t (ws ! i) = Inr (t', w) \<Longrightarrow>
    session cr t0 \<lparr>pa_coordinator = t',
      pa_workers = ws[i := w\<lparr>wk_phase := (case h of HTxEnd _ _ \<Rightarrow> Ended | _ \<Rightarrow> Tracing)\<rparr>]\<rparr>"
| commit: "session cr t0 \<lparr>pa_coordinator = t, pa_workers = ws\<rparr> \<Longrightarrow> i < length ws \<Longrightarrow> wk_phase (ws ! i) = Ended \<Longrightarrow>
    OnTxCommit t (wk_tracer (ws ! i)) = Inr (res, t', s) \<Longrightarrow>
    unat (ord_value (t_blockOrdinal t)) + unat (ord_value (t_blockOrdinal (wk_tracer (ws ! i)))) < 2 ^ 64 \<Longrightarrow>
    session cr t0 \<lparr>pa_coordinator = t',
      pa_workers = ws[i := (ws ! i)\<lparr>wk_tracer := s, wk_phase := Committed\<rparr>]\<rparr>"
| reset: "session cr t0 \<lparr>pa_coordinator = t, pa_workers = ws\<rparr> \<Longrightarrow> i < length ws \<Longrightarrow>
    on_worker OnTxReset t (ws ! i) = Inr (t', w) \<Longrightarrow>
    session cr t0 \<lparr>pa_coordinator = t', pa_workers = ws[i := w\<lparr>wk_phase := Tracing\<rparr>]\<rparr>"

definition worker_ok :: "Crypto \<Rightarrow> worker \<Rightarrow> bool" where
  "worker_ok cr w \<longleftrightarrow> t_interruptedTransaction (wk_tracer w) = None \<and>
     (case wk_phase w of Tracing \<Rightarrow> isolated_tracer cr (wk_tracer w) | Ended \<Rightarrow> ended (wk_tracer w) | Committed \<Rightarrow> True)"

lemma leave_block_ok: "worker_ok cr w \<Longrightarrow> worker_ok cr (leave_block h t w)"
  by (auto simp: worker_ok_def leave_block_def intro: isolated_tracer.view split: phase.split)

text \<open>What a method run by an isolated tracer does, when it leaves the block alone.\<close>

lemma on_worker_elim:
  assumes "on_worker f t w = Inr (t', w')" and "\<And>s s'. f s = Inr s' \<Longrightarrow> s = wk_tracer w \<or>
      (\<exists>b. s = (wk_tracer w)\<lparr>t_block := b\<rparr>) \<Longrightarrow> t_block s' = t_block s"
  obtains s s' where "f s = Inr s'" and "s = wk_tracer w \<or> s = (wk_tracer w)\<lparr>t_block := t_block t\<rparr>"
    and "t' = t" and "w' = w\<lparr>wk_tracer := s'\<rparr>"
proof (cases "wk_shares w")
  case True
  let ?s = "(wk_tracer w)\<lparr>t_block := t_block t\<rparr>"
  obtain s' where s': "f ?s = Inr s'" "t' = t\<lparr>t_block := t_block s'\<rparr>" "w' = w\<lparr>wk_tracer := s'\<rparr>"
    using assms(1) True by (auto simp: on_worker_def on_shared_def bindR_Inr_iff)
  have "t_block s' = t_block t" using assms(2) [OF s'(1)] by auto
  then have "t' = t" using s'(2) by simp
  then show ?thesis using that s'(1,3) by blast
next
  case False
  then obtain s' where "f (wk_tracer w) = Inr s'" "t' = t" "w' = w\<lparr>wk_tracer := s'\<rparr>"
    using assms(1) by (auto simp: on_worker_def bindR_Inr_iff)
  then show ?thesis using that by blast
qed

lemma trace_ok:
  assumes "worker_ok cr w" and "wk_phase w = Tracing" and fits: "isolated_fits h (wk_tracer w)"
    and off: "off_block h (wk_tracer w)" and run: "on_worker (apply_hook cr h) t w = Inr (t', w')"
  shows "t' = t \<and> worker_ok cr (w'\<lparr>wk_phase := (case h of HTxEnd _ _ \<Rightarrow> Ended | _ \<Rightarrow> Tracing)\<rparr>)"
proof -
  have iso: "isolated_tracer cr (wk_tracer w)" "t_interruptedTransaction (wk_tracer w) = None"
    using assms(1,2) by (simp_all add: worker_ok_def)
  note inv = isolated_tracer_inv [OF iso(1)]
  have keep: "t_block s' = t_block s \<and> t_interruptedTransaction s' = None"
    if "apply_hook cr h s = Inr s'" and "s = wk_tracer w \<or> (\<exists>b. s = (wk_tracer w)\<lparr>t_block := b\<rparr>)" for s s'
    using off_block_keeps [OF that(1)] that(2) off inv iso(2) by auto
  obtain s s' where s': "apply_hook cr h s = Inr s'" and s: "s = wk_tracer w \<or> s = (wk_tracer w)\<lparr>t_block := t_block t\<rparr>"
    and "t' = t" and w': "w' = w\<lparr>wk_tracer := s'\<rparr>"
    using on_worker_elim [OF run] keep by metis
  have iso': "isolated_tracer cr s" using s iso(1) isolated_tracer.view by blast
  have fs: "isolated_fits h s"
    using s fits isolated_fits_view [of h _ "wk_tracer w"] by (auto simp: isolated_fits_def)
  have "isolated_tracer cr s'" by (rule isolated_tracer.hook [OF iso' fs s'])
  moreover have "ended s'" if "h = HTxEnd receipt err" for receipt err
    using end_ended [OF iso'] fs s' that by simp
  moreover have "t_interruptedTransaction s' = None" using keep [OF s'] s by blast
  ultimately show ?thesis using \<open>t' = t\<close> by (auto simp: w' worker_ok_def split: hook.split)
qed

lemma reset_ok:
  assumes "worker_ok cr w" and run: "on_worker OnTxReset t w = Inr (t', w')"
  shows "t' = t \<and> worker_ok cr (w'\<lparr>wk_phase := Tracing\<rparr>)"
proof -
  have frame: "t_block s' = t_block s \<and> t_interruptedTransaction s' = t_interruptedTransaction s"
    if "OnTxReset s = Inr s'" for s s'
    using that by (auto simp: OnTxReset_def guard_Inr_iff)
  obtain s s' where s': "OnTxReset s = Inr s'" and s: "s = wk_tracer w \<or> s = (wk_tracer w)\<lparr>t_block := t_block t\<rparr>"
    and "t' = t" and w': "w' = w\<lparr>wk_tracer := s'\<rparr>"
    using on_worker_elim [OF run] frame by metis
  have "t_interruptedTransaction s = None" using s assms(1) by (auto simp: worker_ok_def)
  then show ?thesis
    using isolated_tracer.recycle [OF _ s'] frame [OF s'] \<open>t' = t\<close> by (simp add: w' worker_ok_def)
qed

lemma commit_interrupted:
  "OnTxCommit t s = Inr (res, t', s') \<Longrightarrow> t_interruptedTransaction s' = t_interruptedTransaction s"
  by (elim OnTxCommit_elim) (auto simp: update_transaction_def)

lemma workers_update:
  "\<forall>w \<in> set ws. P w \<Longrightarrow> P w' \<Longrightarrow> \<forall>w \<in> set (ws[i := w']). P w"
  using set_update_subset_insert [of ws i w'] by blast

lemma session_ok:
  assumes "session cr t0 p" and "fresh t0"
  shows "(ordinals_ok (pa_coordinator p) \<and> snapshot_ok (pa_coordinator p)) \<and> (\<forall>w \<in> set (pa_workers p). worker_ok cr w)"
  using assms(1)
proof (induction rule: session.induct)
  case start
  show ?case using fresh_ok [OF assms(2)] by simp
next
  case (hook t ws h t')
  then show ?case using ordinals_ok_step [OF hook.hyps(3,2)] leave_block_ok by simp
next
  case (spawn t ws n s)
  have "worker_ok cr \<lparr>wk_tracer = s, wk_shares = True, wk_phase = Tracing\<rparr>"
    using isolated_tracer.spawn [OF spawn.hyps(2)] OnTxSpawn_elim [OF spawn.hyps(2)]
    by (simp add: worker_ok_def newIsolatedTransactionTracer_def)
  with spawn.IH show ?case by simp
next
  case (trace t ws i h t' w)
  have "worker_ok cr (ws ! i)" using trace.IH trace.hyps(2) by simp
  note ok = trace_ok [OF this trace.hyps(3-6)]
  show ?case
    using trace.IH ok workers_update [where P = "worker_ok cr", OF _ ok [THEN conjunct2], of ws i] by simp
next
  case (commit t ws i res t' s)
  have w: "worker_ok cr (ws ! i)" using commit.IH commit.hyps(2) by simp
  then have e: "ended (wk_tracer (ws ! i))" using commit.hyps(3) by (simp add: worker_ok_def)
  have "ordinals_ok t \<and> snapshot_ok t" using commit.IH by simp
  note ok = commit_ok [OF this e commit.hyps(4,5)]
  have "worker_ok cr ((ws ! i)\<lparr>wk_tracer := s, wk_phase := Committed\<rparr>)"
    using w commit_interrupted [OF commit.hyps(4)] by (simp add: worker_ok_def)
  from workers_update [where P = "worker_ok cr", OF _ this, of ws i] show ?case using commit.IH ok by simp
next
  case (reset t ws i t' w)
  have "worker_ok cr (ws ! i)" using reset.IH reset.hyps(2) by simp
  note ok = reset_ok [OF this reset.hyps(3)]
  show ?case
    using reset.IH ok workers_update [where P = "worker_ok cr", OF _ ok [THEN conjunct2], of ws i] by simp
qed

text \<open>
  C5. Parallel execution keeps ordinals unique: in every interleaving of a coordinator's hooks with the
  hooks, resets and commits of the isolated tracers it spawned, all sharing its block, no ordinal taken
  occurs twice among the events the coordinator holds, and none is above its counter. What isolated
  tracers run are the hooks of transactions: a system call on one, or a change outside a transaction,
  would break this (\<open>isolated_system_call_clash\<close>).
\<close>

theorem parallel_ordinals_unique:
  assumes "session cr t0 p" and "fresh t0" and "x \<noteq> 0"
  shows "count (state_mset (pa_coordinator p)) x \<le> 1
    \<and> (x \<in># state_mset (pa_coordinator p) \<longrightarrow> x \<le> ord_value (t_blockOrdinal (pa_coordinator p)))"
  using session_ok [OF assms(1,2)] assms(3) by (simp add: ordinals_ok_def unique_upto_taken)

text \<open>The log ordinals of a trace's receipt.\<close>

definition receipt_ordinals :: "TransactionTrace \<Rightarrow> u64 list" where
  "receipt_ordinals x = (case trx_Receipt x of None \<Rightarrow> [] | Some r \<Rightarrow> map log_Ordinal (rcp_Logs r))"

text \<open>
  C18. What a commit does, on every branch: it refuses, with nothing changed, on an isolated coordinator, for
  a tracer that is not isolated and when nothing is to commit; it clears the mark of a dropped
  transaction; otherwise it appends the trace with every ordinal of it shifted by the coordinator's
  counter, which moves to the trace's end, and forgets the trace.
\<close>

theorem OnTxCommit_spec:
  assumes "t_block t \<noteq> None"
  shows "\<exists>res t' s'. OnTxCommit t s = Inr (res, t', s') \<and>
    (if t_transactionIsolated t then res = Some CommitOnIsolated \<and> t' = t \<and> s' = s
     else if \<not> t_transactionIsolated s then res = Some CommitNotIsolated \<and> t' = t \<and> s' = s
     else if t_transactionDropped s then res = None \<and> t' = t \<and> s' = s\<lparr>t_transactionDropped := False\<rparr>
     else case t_transactionTransient s of
       None \<Rightarrow> res = Some NothingToCommit \<and> t' = t \<and> s' = s
     | Some x \<Rightarrow> res = None \<and> t_transactionTransient s' = None
         \<and> (\<exists>x'. map_option blk_TransactionTraces (t_block t')
               = Some (blk_TransactionTraces (the (t_block t)) @ [x'])
             \<and> trx_mset x' = image_mset (\<lambda>o1. o1 + ord_value (t_blockOrdinal t)) (trx_mset x)
             \<and> length (trx_Calls x') = length (trx_Calls x)
             \<and> receipt_ordinals x' = map (\<lambda>o1. o1 + ord_value (t_blockOrdinal t)) (receipt_ordinals x)
             \<and> ord_value (t_blockOrdinal t') = trx_EndOrdinal x'))"
proof (cases "t_transactionIsolated t \<or> \<not> t_transactionIsolated s \<or> t_transactionDropped s
      \<or> t_transactionTransient s = None")
  case True
  then show ?thesis by (cases "t_transactionTransient s") (auto simp: OnTxCommit_def)
next
  case False
  then obtain x where x: "t_transactionTransient s = Some x" by auto
  have iso: "\<not> t_transactionIsolated t" "t_transactionIsolated s" "\<not> t_transactionDropped s"
    using False by simp_all
  obtain b where b: "t_block t = Some b" using assms by auto
  let ?x = "reorderTransactionOrdinals (ord_value (t_blockOrdinal t)) x"
  show ?thesis
    using OnTxCommit_some [OF iso x] trx_mset_reorder [of "ord_value (t_blockOrdinal t)" x]
    by (auto simp: iso x b update_block_def intro!: exI [of _ ?x])
       (simp_all add: reorderTransactionOrdinals_def receipt_ordinals_def reorder_receipt_def
         split: option.split)
qed

text \<open>
  C31. What a retry starts from: after \<open>OnTxReset\<close> no trace of the aborted attempt is left in the
  transaction, the call stack, the deferred state, the log index or the counter, but the keccak
  preimages it recorded, the system call mark and an interrupted transaction are those it left.
\<close>

theorem OnTxReset_spec:
  "OnTxReset t =
     (if \<not> t_transactionIsolated t then Inl (panicInvalidState t MsgResetOnCoordinator)
      else Inr ((newIsolatedTransactionTracer t)\<lparr>t_concurrentFlush := t_concurrentFlush t,
        t_output := t_output t,
        t_blockOrdinal := (t_blockOrdinal t)\<lparr>ord_value := 0\<rparr>,
        t_blockReorderOrdinal := t_blockReorderOrdinal t,
        t_blockReorderOrdinalSnapshot := t_blockReorderOrdinalSnapshot t,
        t_blockIsGenesis := t_blockIsGenesis t,
        t_flashBlockIndex := t_flashBlockIndex t, t_flashBlockIsFinal := t_flashBlockIsFinal t,
        t_snapshotForNextFlashBlock := t_snapshotForNextFlashBlock t,
        t_inSystemCall := t_inSystemCall t,
        t_transactionKeccakPreimages := t_transactionKeccakPreimages t,
        t_interruptedTransaction := t_interruptedTransaction t\<rparr>))"
  by (cases "t_transactionIsolated t")
     (simp_all add: OnTxReset_def check_def newIsolatedTransactionTracer_def ordinal_Reset_def)

end
