(* ===== verification/GenesisSpec.thy ===== *)
theory GenesisSpec
  imports OrdinalInv
begin

section \<open>The genesis block holds the allocation\<close>

text \<open>
  \<open>OnGenesisBlock\<close> is a run of hooks (\<open>genesis_is_run\<close>). Two facts about that run: it does not depend
  on the order in which the allocation's maps are visited, and it succeeds on a tracer between two
  blocks and flushes one block whose only call holds the allocation, account by account in address
  order.
\<close>

subsection \<open>The order of the maps\<close>

text \<open>The same map visited in another order.\<close>

definition same_map :: "('k \<times> 'v) list \<Rightarrow> ('k \<times> 'v) list \<Rightarrow> bool" where
  "same_map m m' \<longleftrightarrow> distinct (map_keys m) \<and> distinct (map_keys m') \<and> map_of m = map_of m'"

definition same_account :: "GenesisAccount \<Rightarrow> GenesisAccount \<Rightarrow> bool" where
  "same_account a a' \<longleftrightarrow> ga_Code a = ga_Code a' \<and> ga_Balance a = ga_Balance a'
     \<and> ga_Nonce a = ga_Nonce a' \<and> same_map (ga_Storage a) (ga_Storage a')"

definition same_alloc :: "GenesisAlloc \<Rightarrow> GenesisAlloc \<Rightarrow> bool" where
  "same_alloc m m' \<longleftrightarrow> distinct (map_keys m) \<and> distinct (map_keys m')
     \<and> set (map_keys m) = set (map_keys m')
     \<and> (\<forall>addr \<in> set (map_keys m). same_account (map_get m no_account addr) (map_get m' no_account addr))"

lemma sorted_keys_perm:
  assumes "distinct (map_keys m)" and "distinct (map_keys m')" and "set (map_keys m) = set (map_keys m')"
  shows "SortFunc bytes_Compare (map_keys m) = SortFunc bytes_Compare (map_keys m')"
proof -
  have "mset (map_keys m') = mset (map_keys m)"
    using assms by (metis set_eq_iff_mset_eq_distinct)
  with assms(1) show ?thesis by (intro bytes_sort.srt_perm [symmetric]) simp_all
qed

lemma same_map_get: "same_map m m' \<Longrightarrow> map_get m d k = map_get m' d k"
  by (simp add: same_map_def map_get_def)

lemma same_map_keys: "same_map m m' \<Longrightarrow> set (map_keys m) = set (map_keys m')"
  unfolding same_map_def map_keys_def by (metis dom_map_of_conv_image_fst set_map)

lemma genesis_account_perm:
  assumes "same_account (map_get m no_account addr) (map_get m' no_account addr)"
  shows "genesis_account cr m addr = genesis_account cr m' addr"
proof -
  let ?a = "map_get m no_account addr" and ?b = "map_get m' no_account addr"
  have st: "same_map (ga_Storage ?a) (ga_Storage ?b)" using assms by (simp add: same_account_def)
  then have "sortedStorageKeys (ga_Storage ?a) = sortedStorageKeys (ga_Storage ?b)"
    unfolding sortedStorageKeys_def
    by (intro sorted_keys_perm same_map_keys) (simp_all add: same_map_def)
  then have "genesis_storage addr ?a = genesis_storage addr ?b"
    using same_map_get [OF st] by (simp add: genesis_storage_def fun_eq_iff)
  moreover have "genesis_balance addr ?a = genesis_balance addr ?b"
    "genesis_code cr addr ?a = genesis_code cr addr ?b" "genesis_nonce addr ?a = genesis_nonce addr ?b"
    using assms by (simp_all add: same_account_def genesis_balance_def genesis_code_def
        genesis_nonce_def fun_eq_iff)
  ultimately show ?thesis by (intro ext) (simp only: genesis_account_def Let_def)
qed

lemma foldR_cong: "(\<And>x. x \<in> set xs \<Longrightarrow> f x = g x) \<Longrightarrow> foldR f xs s = foldR g xs s"
proof (induction xs arbitrary: s)
  case Nil
  then show ?case by simp
next
  case (Cons x xs)
  have "foldR f xs = foldR g xs" using Cons by (intro ext) simp
  with Cons.prems show ?case by simp
qed

text \<open>
  C28. The genesis block is deterministic: whatever order the maps of the allocation (accounts, and the
  storage of each) are visited in, \<open>OnGenesisBlock\<close> does the same.
\<close>

theorem genesis_order_independent:
  assumes "same_alloc alloc alloc'"
  shows "OnGenesisBlock cr event alloc t = OnGenesisBlock cr event alloc' t"
proof -
  have keys: "sortedGenesisAddresses alloc = sortedGenesisAddresses alloc'"
    unfolding sortedGenesisAddresses_def
    using assms by (intro sorted_keys_perm) (simp_all add: same_alloc_def)
  have "set (sortedGenesisAddresses alloc) = set (map_keys alloc)"
    by (simp add: sortedGenesisAddresses_def bytes_sort.set_srt)
  then have "foldR (genesis_account cr alloc) (sortedGenesisAddresses alloc) s
      = foldR (genesis_account cr alloc') (sortedGenesisAddresses alloc') s" for s
    unfolding keys [symmetric]
    using assms by (intro foldR_cong genesis_account_perm) (auto simp: same_alloc_def)
  then show ?thesis by (simp add: OnGenesisBlock_def)
qed

subsection \<open>The changes of a run of genesis hooks\<close>

text \<open>The changes of a call, without their ordinals.\<close>

type_synonym call_facts = "(bytes \<times> bytes option \<times> bytes option \<times> BalanceChange_Reason) list
  \<times> (bytes \<times> u64 \<times> u64) list \<times> (bytes \<times> bytes \<times> bytes \<times> bytes \<times> bytes) list
  \<times> (bytes \<times> bytes \<times> bytes \<times> bytes) list"

definition facts :: "Call \<Rightarrow> call_facts" where
  "facts c = (map (\<lambda>b. (bc_Address b, bc_OldValue b, bc_NewValue b, bc_Reason b)) (call_BalanceChanges c),
     map (\<lambda>n. (nc_Address n, nc_OldValue n, nc_NewValue n)) (call_NonceChanges c),
     map (\<lambda>k. (cc_Address k, cc_OldHash k, cc_OldCode k, cc_NewHash k, cc_NewCode k)) (call_CodeChanges c),
     map (\<lambda>s. (sc_Address s, sc_Key s, sc_OldValue s, sc_NewValue s)) (call_StorageChanges c))"

definition add_facts :: "call_facts \<Rightarrow> call_facts \<Rightarrow> call_facts" where
  "add_facts f g = (fst f @ fst g, fst (snd f) @ fst (snd g), fst (snd (snd f)) @ fst (snd (snd g)),
     snd (snd (snd f)) @ snd (snd (snd g)))"

definition no_facts :: call_facts where
  "no_facts = ([], [], [], [])"

lemma add_facts_simps [simp]:
  "add_facts f no_facts = f" "add_facts no_facts f = f"
  "add_facts (add_facts f g) h = add_facts f (add_facts g h)"
  by (simp_all add: add_facts_def no_facts_def)

text \<open>What one hook records, no-op changes dropped.\<close>

definition hook_facts :: "hook \<Rightarrow> call_facts" where
  "hook_facts h = (case h of
     HBalanceChange a old new r \<Rightarrow> if r = REASON_UNKNOWN \<or> bigIntEqual old new then no_facts
       else ([(a, bigIntToProtobuf old, bigIntToProtobuf new, r)], [], [], [])
   | HNonceChange a old new \<Rightarrow> if old = new then no_facts else ([], [(a, old, new)], [], [])
   | HCodeChange a oh nh old new \<Rightarrow> if oh = nh then no_facts else ([], [], [(a, oh, old, nh, new)], [])
   | HStorageChange a k old new \<Rightarrow> if old = new then no_facts else ([], [], [], [(a, k, old, new)])
   | _ \<Rightarrow> no_facts)"

primrec run_facts :: "hook list \<Rightarrow> call_facts" where
  "run_facts [] = no_facts"
| "run_facts (h # hs) = add_facts (hook_facts h) (run_facts hs)"

lemma run_facts_append: "run_facts (hs @ hs') = add_facts (run_facts hs) (run_facts hs')"
  by (induction hs) simp_all

definition change_hook :: "hook \<Rightarrow> bool" where
  "change_hook h \<longleftrightarrow> (case h of HBalanceChange _ _ _ _ \<Rightarrow> True | HNonceChange _ _ _ \<Rightarrow> True
     | HCodeChange _ _ _ _ _ \<Rightarrow> True | HStorageChange _ _ _ _ \<Rightarrow> True | _ \<Rightarrow> False)"

text \<open>
  Such hooks, inside a call that has not self-destructed, never panic: they move the counter and add
  their facts to the active call, which keeps all else.
\<close>

definition only_changes :: "Call \<Rightarrow> Call \<Rightarrow> bool" where
  "only_changes c c' \<longleftrightarrow> c' = c\<lparr>call_BalanceChanges := call_BalanceChanges c',
     call_NonceChanges := call_NonceChanges c', call_CodeChanges := call_CodeChanges c',
     call_StorageChanges := call_StorageChanges c'\<rparr>"

definition recorded :: "tracer \<Rightarrow> call_facts \<Rightarrow> tracer \<Rightarrow> bool" where
  "recorded t f t' \<longleftrightarrow> (\<exists>o1 c c'. active_call t = Some c \<and> only_changes c c'
     \<and> facts c' = add_facts (facts c) f
     \<and> t' = update_active (\<lambda>_. c') (t\<lparr>t_blockOrdinal := o1\<rparr>))"

definition tracing :: "tracer \<Rightarrow> bool" where
  "tracing t \<longleftrightarrow> t_block t \<noteq> None \<and> t_chainConfig t \<noteq> None \<and> t_transaction t \<noteq> None
     \<and> (\<exists>c. active_call t = Some c \<and> \<not> call_Suicide c)"

lemma active_updated [simp]:
  "active_call t = Some c \<Longrightarrow> active_call (update_active f (t\<lparr>t_blockOrdinal := o1\<rparr>)) = Some (f c)"
  by (cases "cs_stack (t_callStack t)" rule: rev_cases)
     (simp_all add: active_call_def update_active_def cs_Peek_def)

lemma only_changes_trans: "only_changes c d \<Longrightarrow> only_changes d e \<Longrightarrow> only_changes c e"
  by (cases c, cases d, cases e) (simp add: only_changes_def)

lemma update_active_twice:
  "update_active (\<lambda>_. d) ((update_active (\<lambda>_. c) (t\<lparr>t_blockOrdinal := o1\<rparr>))\<lparr>t_blockOrdinal := o2\<rparr>)
     = update_active (\<lambda>_. d) (t\<lparr>t_blockOrdinal := o2\<rparr>)"
  by (cases "cs_stack (t_callStack t)" rule: rev_cases)
     (simp_all add: update_active_def cs_update_top_def)

lemma recorded_trans:
  assumes "recorded t f u" and "recorded u g v"
  shows "recorded t (add_facts f g) v"
proof -
  obtain o1 c d where c: "active_call t = Some c" "only_changes c d" "facts d = add_facts (facts c) f"
    and u: "u = update_active (\<lambda>_. d) (t\<lparr>t_blockOrdinal := o1\<rparr>)"
    using assms(1) unfolding recorded_def by blast
  obtain o2 e where e: "only_changes d e" "facts e = add_facts (facts d) g"
    and v: "v = update_active (\<lambda>_. e) (u\<lparr>t_blockOrdinal := o2\<rparr>)"
    using assms(2) c(1) unfolding recorded_def u by auto
  show ?thesis
    unfolding recorded_def
    using c e only_changes_trans [OF c(2) e(1)] v [unfolded u update_active_twice]
    by (intro exI [of _ o2] exI [of _ c] exI [of _ e]) simp
qed

lemma recorded_tracing: "recorded t f t' \<Longrightarrow> tracing t \<Longrightarrow> tracing t'"
proof -
  assume r: "recorded t f t'" and t: "tracing t"
  then obtain o1 c c' where c: "active_call t = Some c" "only_changes c c'"
    and t': "t' = update_active (\<lambda>_. c') (t\<lparr>t_blockOrdinal := o1\<rparr>)"
    unfolding recorded_def by blast
  have "call_Suicide c' = call_Suicide c" using c(2) by (cases c, cases c') (simp add: only_changes_def)
  then show "tracing t'" using t c by (simp add: tracing_def t') (simp add: update_active_def)
qed

lemma recorded_none: "tracing t \<Longrightarrow> recorded t no_facts t"
proof -
  assume "tracing t"
  then obtain c where c: "active_call t = Some c" by (auto simp: tracing_def)
  have "t = update_active (\<lambda>_. c) (t\<lparr>t_blockOrdinal := t_blockOrdinal t\<rparr>)"
    using c by (cases "cs_stack (t_callStack t)" rule: rev_cases)
      (simp_all add: active_call_def update_active_def cs_update_top_def cs_Peek_def)
  moreover have "only_changes c c" by (simp add: only_changes_def)
  ultimately show ?thesis unfolding recorded_def using c by (metis add_facts_simps(1))
qed

lemma recorded_add:
  assumes "active_call t = Some c" and "only_changes c (g c)" and "facts (g c) = add_facts (facts c) f"
  shows "recorded t f (update_active g (t\<lparr>t_blockOrdinal := o1\<rparr>))"
proof -
  have "update_active g s = update_active (\<lambda>_. g c) s" if "active_call s = Some c" for s
    using that by (cases "cs_stack (t_callStack s)" rule: rev_cases)
      (simp_all add: active_call_def update_active_def cs_update_top_def cs_Peek_def)
  moreover have "active_call (t\<lparr>t_blockOrdinal := o1\<rparr>) = Some c"
    using assms(1) by (simp add: active_call_def)
  ultimately show ?thesis using assms unfolding recorded_def by metis
qed

lemma change_hook_records:
  assumes "change_hook h" and "tracing t"
  shows "\<exists>t'. apply_hook cr h t = Inr t' \<and> recorded t (hook_facts h) t'"
proof -
  obtain c where c: "active_call t = Some c" "\<not> call_Suicide c" using assms(2) by (auto simp: tracing_def)
  have st: "cs_stack (t_callStack t) \<noteq> []" using c(1) by (auto simp: active_call_def cs_Peek_Some_iff)
  have act: "active_call (t\<lparr>t_blockOrdinal := o1\<rparr>) = Some c" for o1 using c(1) by (simp add: active_call_def)
  have ok: "ensureInBlockOrTrx t = None" "ensureInBlockAndInTrx t = None"
    using assms(2) by (auto simp: tracing_def ensure_None_iff)
  have none: "recorded t no_facts t" by (rule recorded_none [OF assms(2)])
  show ?thesis
  proof (cases h)
    case (HBalanceChange a old new r)
    then show ?thesis
      using none c act st ok assms(2)
      by (auto simp: hook_facts_def OnBalanceChange_def tracing_def only_changes_def facts_def
          add_facts_def no_facts_def call_add_defs intro!: recorded_add)
  next
    case (HNonceChange a old new)
    then show ?thesis
      using none c act st ok
      by (auto simp: hook_facts_def OnNonceChange_def only_changes_def facts_def
          add_facts_def no_facts_def call_add_defs intro!: recorded_add)
  next
    case (HCodeChange a oh nh old new)
    then show ?thesis
      using none c act st ok assms(2)
      by (auto simp: hook_facts_def OnCodeChange_def newCodeChange_def tracing_def only_changes_def
          facts_def add_facts_def no_facts_def call_add_defs intro!: recorded_add)
  next
    case (HStorageChange a k old new)
    then show ?thesis
      using none c act st ok
      by (auto simp: hook_facts_def OnStorageChange_def only_changes_def facts_def
          add_facts_def no_facts_def call_add_defs intro!: recorded_add)
  qed (use assms(1) in \<open>simp_all add: change_hook_def\<close>)
qed

lemma change_run_records:
  "list_all change_hook hs \<Longrightarrow> tracing t \<Longrightarrow>
     \<exists>t'. run_hooks cr hs t = Inr t' \<and> recorded t (run_facts hs) t'"
proof (induction hs arbitrary: t)
  case Nil
  then show ?case using recorded_none by simp
next
  case (Cons h hs)
  obtain u where u: "apply_hook cr h t = Inr u" "recorded t (hook_facts h) u"
    using change_hook_records [of h t] Cons.prems by auto
  moreover obtain v where "run_hooks cr hs u = Inr v" "recorded u (run_facts hs) v"
    using Cons.IH [of u] Cons.prems recorded_tracing [OF u(2)] by auto
  ultimately show ?case using recorded_trans by auto
qed

subsection \<open>The changes of the allocation\<close>

definition account_facts :: "Crypto \<Rightarrow> bytes \<Rightarrow> GenesisAccount \<Rightarrow> call_facts" where
  "account_facts cr addr a =
     (case ga_Balance a of
        None \<Rightarrow> []
      | Some b \<Rightarrow> if b = 0 then []
          else [(addr, bigIntToProtobuf (Some 0), bigIntToProtobuf (Some b), REASON_GENESIS_BALANCE)],
      if ga_Nonce a = 0 then [] else [(addr, 0, ga_Nonce a)],
      if ga_Code a = [] \<or> hashBytes cr (ga_Code a) = EmptyHash then []
      else [(addr, EmptyHash, [], hashBytes cr (ga_Code a), ga_Code a)],
      map (\<lambda>k. (addr, k, EmptyHash, map_get (ga_Storage a) EmptyHash k))
        (filter (\<lambda>k. map_get (ga_Storage a) EmptyHash k \<noteq> EmptyHash) (sortedStorageKeys (ga_Storage a))))"

definition alloc_facts :: "Crypto \<Rightarrow> GenesisAlloc \<Rightarrow> call_facts" where
  "alloc_facts cr alloc = foldr (\<lambda>addr. add_facts (account_facts cr addr (map_get alloc no_account addr)))
     (sortedGenesisAddresses alloc) no_facts"

lemma storage_facts:
  "run_facts (map (\<lambda>k. HStorageChange addr k z (g k)) ks)
     = ([], [], [], map (\<lambda>k. (addr, k, z, g k)) (filter (\<lambda>k. g k \<noteq> z) ks))"
  by (induction ks) (auto simp: no_facts_def hook_facts_def add_facts_def)

lemma account_hooks_facts: "run_facts (account_hooks cr addr a) = account_facts cr addr a"
  by (auto simp: account_hooks_def account_facts_def run_facts_append storage_facts hook_facts_def
      add_facts_def no_facts_def bigIntEqual.simps sgn_0_0 word_gt_0 split: option.split)

lemma alloc_hooks_facts: "run_facts (alloc_hooks cr alloc) = alloc_facts cr alloc"
proof -
  have "run_facts (concat (map f as)) = foldr (\<lambda>a. add_facts (run_facts (f a))) as no_facts" for f and as :: "bytes list"
    by (induction as) (simp_all add: run_facts_append)
  then show ?thesis by (simp add: alloc_hooks_def alloc_facts_def account_hooks_facts)
qed

lemma alloc_hooks_change: "list_all change_hook (alloc_hooks cr alloc)"
  by (auto simp: alloc_hooks_def account_hooks_def change_hook_def list_all_iff split: option.splits)

subsection \<open>The run, hook by hook\<close>

lemma plain_block_start:
  assumes "t_chainConfig t = Some ch" and "ev_FlashBlock event = None" and "t_flashBlockIndex t = None"
  obtains t1 b where "OnBlockStart event t = Inr t1" and "t_block t1 = Some b"
    and "blk_TransactionTraces b = []" and "blk_Number b = bd_Number (ev_Block event)"
    and "trx_state t1 = trx_state t" and "t_chainConfig t1 = Some ch" and "t_config t1 = t_config t"
    and "t_output t1 = t_output t" and "t_latestCallEnterSuicided t1 = t_latestCallEnterSuicided t"
proof -
  define r where "r = (case ev_Rules event of Some r \<Rightarrow> r
    | None \<Rightarrow> chain_Rules ch (Some (uint (bd_Number (ev_Block event)))) (bd_IsMerge (ev_Block event))
        (bd_Time (ev_Block event)))"
  define t0 where "t0 = (freeze_snapshot (t\<lparr>t_blockRules := r\<rparr>))\<lparr>t_block := Some (new_Block (ev_Block event))\<rparr>"
  have s: "OnBlockStart event t = Inr (fill_block event t0)"
    using assms by (simp add: OnBlockStart_def ensureBlockChainInit_def check_def t0_def r_def
        IsFlashBlock_def freeze_snapshot_def Let_def)
  obtain us ws where b: "t_block (fill_block event t0)
      = Some ((new_Block (ev_Block event))\<lparr>blk_Uncles := us, blk_Withdrawals := ws\<rparr>)"
    using fill_block_block [of t0 "new_Block (ev_Block event)" event] by (auto simp: t0_def)
  have f: "t_output (fill_block event x) = t_output x"
    "t_latestCallEnterSuicided (fill_block event x) = t_latestCallEnterSuicided x" for x
    by (auto simp: fill_block_def Let_def update_block_def split: option.split)
  show ?thesis
    by (rule that [OF s b])
       (simp_all add: f assms, simp_all add: t0_def freeze_snapshot_def new_Block_def trx_state_def assms)
qed

lemma genesis_tx_start:
  assumes "t_block t \<noteq> None" and "t_chainConfig t \<noteq> None" and "t_transaction t = None"
    and "t_callStack t = NewCallStack"
  obtains trx where "OnTxStart cr genesis_event None t = Inr (t\<lparr>t_transactionStateReader := None,
      t_blockOrdinal := snd (ordinal_Next (t_blockOrdinal t)), t_transaction := Some trx\<rparr>)"
    and "trx_Calls trx = []" and "trx_SetCodeAuthorizations trx = []"
proof -
  let ?trx = "new_trace genesis_event (computeEffectiveGasPrice genesis_event (t_blockBaseFee t))
    (ord_value (t_blockOrdinal t) + 1) (replicate 20 0)"
  have ok: "ensureInBlockAndNotInTrxAndNotInCall t = None"
    using assms by (simp add: ensure_None_iff)
  have "trx_SetCodeAuthorizations ?trx = []"
    by (simp add: new_trace_def genesis_event_def empty_Trace_def)
  then show ?thesis
    using ok by (intro that [of ?trx]) (simp_all add: OnTxStart_def to_address_def genesis_event_def Let_def)
qed

lemma genesis_call_enter:
  assumes "t_callStack t = NewCallStack" and "t_deferredCallState t = NewDeferredCallState"
  obtains c where "OnCallEnter 0 CallTypeCall from1 to1 [] 0 None t = Inr (t\<lparr>
      t_blockOrdinal := snd (ordinal_Next (t_blockOrdinal t)),
      t_deferredCallState := NewDeferredCallState,
      t_callStack := \<lparr>cs_stack = [c], cs_index = 1, cs_depth = 1\<rparr>\<rparr>)"
    and "facts c = no_facts" and "call_Logs c = []" and "call_ParentIndex c = 0"
    and "\<not> call_StatusFailed c" and "\<not> call_Suicide c"
proof -
  have n: "callTypeToProto CallTypeCall = CALL" "CallTypeCall \<noteq> CallTypeSelfDestruct"
    by (simp_all add: callTypeToProto_def CallType_defs)
  let ?t = "t\<lparr>t_blockOrdinal := snd (ordinal_Next (t_blockOrdinal t))\<rparr>"
  let ?c = "cs_stamp NewCallStack (empty_Call\<lparr>call_CallType := CALL, call_Caller := from1,
    call_Address := to1, call_Value := bigIntToProtobuf None, call_GasLimit := 0,
    call_GasConsumed := 0, call_Input := [], call_BeginOrdinal := ord_value (t_blockOrdinal t) + 1,
    call_AddressDelegatesTo := delegates_to CALL to1 ?t\<rparr>)"
  show ?thesis
    by (rule that [of ?c])
       (simp_all add: OnCallEnter_def Let_def n check_def populate_enter assms cs_Push_def cs_stamp_def
         NewCallStack_def cs_Peek_def facts_def no_facts_def empty_Call_def)
qed

lemma finish_single:
  assumes "trx_Calls trx = [d]" and "call_ParentIndex d = 0" and "\<not> call_StatusFailed d"
    and "call_Logs d = []" and "rd_Logs r = []"
  shows "\<exists>trx'. finish_trace t (Some r) trx = Inr trx'"
  using assms
  by (simp add: finish_trace_def Let_def populateStateReverted_def mark_reverted_def apply_receipt_def
      update_calls_def removeLogBlockIndexOnStateRevertedCalls_def assignOrdinalAndIndexToReceiptLogs_def
      surviving_logs_def newReceiptFromData_def)

lemma complete_single:
  assumes trx: "t_transaction t = Some trx" "trx_Calls trx = [c]" "trx_SetCodeAuthorizations trx = []"
    and d: "t_deferredCallState t = NewDeferredCallState"
    and c: "call_ParentIndex c = 0" "\<not> call_StatusFailed c" "call_Logs c = []" and r: "rd_Logs r = []"
  shows "\<exists>t' trx' c'. completeTransaction (Some r) None t = Inr t' \<and> t_transaction t' = Some trx'
    \<and> trx_Calls trx' = [c'] \<and> facts c' = facts c \<and> call_Logs c' = []"
proof -
  let ?cs = "attachStorageSlotPreimages [c] (t_transactionKeccakPreimages t)"
  have keep: "map (\<lambda>c. (call_ParentIndex c, call_StatusFailed c, call_Logs c)) ?cs
      = map (\<lambda>c. (call_ParentIndex c, call_StatusFailed c, call_Logs c)) [c]"
    by (rule attach_keeps) simp
  then obtain e where e: "?cs = [e]" "call_ParentIndex e = 0" "\<not> call_StatusFailed e" "call_Logs e = []"
    using c by auto
  let ?trx = "update_calls (\<lambda>_. [e]) (update_calls (SortFunc call_compare) trx)"
  obtain trx' where fin: "finish_trace (t\<lparr>t_transactionKeccakPreimages := []\<rparr>) (Some r) ?trx = Inr trx'"
    using finish_single [of ?trx e r] e r by (auto simp: update_calls_def)
  have "\<exists>t'. completeTransaction (Some r) None t = Inr t'"
    using trx d e fin
    by (simp add: completeTransaction_def update_calls_def discardUncommittedSetCodeAuthorizations_def Let_def)
  then obtain t' where t': "completeTransaction (Some r) None t = Inr t'" by blast
  have bl: "blind (\<lambda>c. (facts c, length (call_Logs c)))"
    by (auto simp: blind_def facts_def dest: map_eq_imp_length_eq)
  obtain x x' where x: "t_transaction t = Some x" and tt: "t' = t\<lparr>t_blockOrdinal := snd (ordinal_Next (t_blockOrdinal t)),
        t_transaction := Some x', t_transactionTransient := t_transactionTransient t',
        t_deferredCallState := t_deferredCallState t',
        t_transactionKeccakPreimages := t_transactionKeccakPreimages t'\<rparr>"
    and m: "trx_Calls x = [] \<and> trx_Calls x' = [] \<and> t_deferredCallState t' = t_deferredCallState t
      \<or> trx_Calls x \<noteq> [] \<and> t_deferredCallState t' = NewDeferredCallState
        \<and> (\<forall>f :: Call \<Rightarrow> call_facts \<times> nat. blind f \<longrightarrow>
             map f (trx_Calls x') = map f (settled_calls (t_deferredCallState t) (trx_Calls x)))"
    using completeTransaction_elim [OF t'] by metis
  have "map (\<lambda>c. (facts c, length (call_Logs c))) (trx_Calls x') = [(facts c, 0)]"
    using m bl x trx d c(3) by (auto simp: settled_calls_def)
  moreover have "t_transaction t' = Some x'" by (subst tt) simp
  ultimately show ?thesis using t' by auto
qed

lemma genesis_call_exit:
  assumes "t_transaction t = Some trx" and "trx_Calls trx = []" and "t_block t \<noteq> None"
    and "cs_stack (t_callStack t) = [c]" and "\<not> t_latestCallEnterSuicided t"
  obtains c' tr where "OnCallExit 0 [] 0 None False t = Inr (t\<lparr>t_callStack := snd (cs_Pop (t_callStack t)),
      t_blockOrdinal := snd (ordinal_Next (t_blockOrdinal t)), t_transaction := Some (trx\<lparr>trx_Calls := [c']\<rparr>),
      t_transactionTransient := tr\<rparr>)"
    and "facts c' = facts c" and "call_Logs c' = call_Logs c" and "call_ParentIndex c' = call_ParentIndex c"
    and "call_StatusFailed c' = call_StatusFailed c"
proof -
  let ?c = "(exit_call [] 0 None False c)\<lparr>call_EndOrdinal := ord_value (t_blockOrdinal t) + 1\<rparr>"
  have ok: "ensureInBlockAndInTrxAndInCall t = None" using assms by (simp add: ensure_None_iff)
  show ?thesis
    by (rule that [of _ ?c])
       (use assms ok in \<open>simp_all add: OnCallExit_def Let_def cs_Pop_def update_transaction_def
          exit_call_def facts_def\<close>)
qed

lemma genesis_tx_end:
  assumes "t_transaction t = Some trx" and "trx_Calls trx = [c]" and "trx_SetCodeAuthorizations trx = []"
    and "t_deferredCallState t = NewDeferredCallState" and "call_ParentIndex c = 0"
    and "\<not> call_StatusFailed c" and "call_Logs c = []" and "rd_Logs r = []"
    and "t_block t = Some b" and "t_chainConfig t \<noteq> None" and "\<not> t_transactionIsolated t"
  obtains t' trx' c' where "OnTxEnd (Some r) None t = Inr t'" and "trx_Calls trx' = [c']"
    and "facts c' = facts c" and "call_Logs c' = []" and "t_transaction t' = None"
    and "t_block t' = Some (b\<lparr>blk_TransactionTraces := blk_TransactionTraces b @ [trx']\<rparr>)"
    and "t_chainConfig t' = t_chainConfig t" and "t_config t' = t_config t" and "t_output t' = t_output t"
proof -
  obtain t1 trx' c' where c: "completeTransaction (Some r) None t = Inr t1" "t_transaction t1 = Some trx'"
    "trx_Calls trx' = [c']" "facts c' = facts c" "call_Logs c' = []"
    using complete_single [OF assms(1-8)] by blast
  obtain x' where t1: "t1 = t\<lparr>t_blockOrdinal := snd (ordinal_Next (t_blockOrdinal t)),
        t_transaction := Some x', t_transactionTransient := t_transactionTransient t1,
        t_deferredCallState := t_deferredCallState t1,
        t_transactionKeccakPreimages := t_transactionKeccakPreimages t1\<rparr>"
    using completeTransaction_elim [OF c(1)] by metis
  have f: "t_transactionIsolated t1 = t_transactionIsolated t" "t_block t1 = t_block t"
    "t_chainConfig t1 = t_chainConfig t" "t_config t1 = t_config t" "t_output t1 = t_output t"
    by (subst t1, simp)+
  show ?thesis
    by (rule that [of "resetTransaction (update_block (\<lambda>b. b\<lparr>blk_TransactionTraces :=
          blk_TransactionTraces b @ [trx']\<rparr>) t1)" trx' c'])
       (use assms c f in \<open>simp_all add: OnTxEnd_def check_def ensure_defs update_block_def\<close>)
qed

lemma recorded_frame:
  assumes "recorded t f t'" and "cs_stack (t_callStack t) = [c]"
  obtains o1 c' where "only_changes c c'" and "facts c' = add_facts (facts c) f"
    and "t' = t\<lparr>t_blockOrdinal := o1, t_callStack := (t_callStack t)\<lparr>cs_stack := [c']\<rparr>\<rparr>"
proof -
  have "active_call t = Some c" using assms(2) by (simp add: active_call_def cs_Peek_def)
  then obtain o1 c' where "only_changes c c'" "facts c' = add_facts (facts c) f"
    and "t' = update_active (\<lambda>_. c') (t\<lparr>t_blockOrdinal := o1\<rparr>)"
    using assms(1) unfolding recorded_def by auto
  then show ?thesis using that [of c' o1] assms(2)
    by (simp add: update_active_def cs_update_top_def update_last_def)
qed

text \<open>
  The state inside the root call of the genesis transaction. The run reaches such a state by its first
  three hooks, its changes keep it, and its last three hooks flush from it.
\<close>

definition in_root_call :: "tracer \<Rightarrow> Block \<Rightarrow> TransactionTrace \<Rightarrow> Call \<Rightarrow> bool" where
  "in_root_call t b trx c \<longleftrightarrow> t_block t = Some b \<and> t_chainConfig t \<noteq> None \<and> \<not> t_transactionIsolated t
     \<and> t_transaction t = Some trx \<and> trx_Calls trx = [] \<and> trx_SetCodeAuthorizations trx = []
     \<and> t_deferredCallState t = NewDeferredCallState \<and> \<not> t_latestCallEnterSuicided t
     \<and> cs_stack (t_callStack t) = [c] \<and> call_Logs c = [] \<and> call_ParentIndex c = 0
     \<and> \<not> call_StatusFailed c \<and> \<not> call_Suicide c"

lemma genesis_opening:
  assumes "idle t" and ch: "t_chainConfig t = Some ch" and "t_flashBlockIndex t = None"
    and "\<not> t_latestCallEnterSuicided t" and "ev_FlashBlock event = None"
  obtains t3 b trx c where "run_hooks cr [HBlockStart event, HTxStart genesis_event None,
      HCallEnter 0 CallTypeCall (replicate 20 0) (replicate 20 0) [] 0 None] t = Inr t3"
    and "in_root_call t3 b trx c" and "facts c = no_facts" and "blk_TransactionTraces b = []"
    and "blk_Number b = bd_Number (ev_Block event)" and "t_config t3 = t_config t"
    and "t_output t3 = t_output t"
proof -
  obtain t1 b where s1: "OnBlockStart event t = Inr t1" and b: "t_block t1 = Some b"
    "blk_TransactionTraces b = []" "blk_Number b = bd_Number (ev_Block event)"
    and ts: "trx_state t1 = trx_state t" and f1: "t_chainConfig t1 = Some ch" "t_config t1 = t_config t"
      "t_output t1 = t_output t" "t_latestCallEnterSuicided t1 = t_latestCallEnterSuicided t"
    by (rule plain_block_start [OF ch assms(5,3)])
  have i1: "t_transaction t1 = None" "t_callStack t1 = NewCallStack" "\<not> t_transactionIsolated t1"
    "t_deferredCallState t1 = NewDeferredCallState"
    using ts assms(1) by (simp_all add: trx_state_def idle_def blank_def)
  obtain trx where s2: "OnTxStart cr genesis_event None t1 = Inr (t1\<lparr>t_transactionStateReader := None,
      t_blockOrdinal := snd (ordinal_Next (t_blockOrdinal t1)), t_transaction := Some trx\<rparr>)"
    (is "_ = Inr ?t2") and trx: "trx_Calls trx = []" "trx_SetCodeAuthorizations trx = []"
    using genesis_tx_start [of t1 cr] b f1(1) i1 by auto
  have d2: "t_callStack ?t2 = NewCallStack" "t_deferredCallState ?t2 = NewDeferredCallState"
    using i1 by simp_all
  obtain c where s3: "OnCallEnter 0 CallTypeCall (replicate 20 0) (replicate 20 0) [] 0 None ?t2
      = Inr (?t2\<lparr>t_blockOrdinal := snd (ordinal_Next (t_blockOrdinal ?t2)),
      t_deferredCallState := NewDeferredCallState,
      t_callStack := \<lparr>cs_stack = [c], cs_index = 1, cs_depth = 1\<rparr>\<rparr>)" (is "_ = Inr ?t3")
    and c: "facts c = no_facts" "call_Logs c = []" "call_ParentIndex c = 0" "\<not> call_StatusFailed c"
      "\<not> call_Suicide c"
    using genesis_call_enter [OF d2] by blast
  show ?thesis
    by (rule that [of ?t3 b trx c])
       (use s1 s2 s3 b f1 i1(3) trx c assms(4) in \<open>simp_all add: in_root_call_def\<close>)
qed

lemma genesis_closing:
  assumes root: "in_root_call t b trx c" and "cfg_BeforeBlockFlush (t_config t) = None"
  obtains t' trx' root out where "run_hooks cr [HCallExit 0 [] 0 None False,
      HTxEnd (Some (genesis_receipt event)) None, HBlockEnd None] t = Inr t'"
    and "t_output t' = t_output t @ [BlockLine out]"
    and "bo_block out = b\<lparr>blk_TransactionTraces := blk_TransactionTraces b @ [trx']\<rparr>"
    and "trx_Calls trx' = [root]" and "facts root = facts c" and "call_Logs root = []"
proof -
  note r = root [unfolded in_root_call_def]
  obtain e tr where s1: "OnCallExit 0 [] 0 None False t = Inr (t\<lparr>t_callStack := snd (cs_Pop (t_callStack t)),
      t_blockOrdinal := snd (ordinal_Next (t_blockOrdinal t)), t_transaction := Some (trx\<lparr>trx_Calls := [e]\<rparr>),
      t_transactionTransient := tr\<rparr>)"
    (is "_ = Inr ?t1") and e: "facts e = facts c" "call_Logs e = call_Logs c"
      "call_ParentIndex e = call_ParentIndex c" "call_StatusFailed e = call_StatusFailed c"
    by (rule genesis_call_exit [of t trx c]) (use r in auto)
  obtain t2 trx' root where s2: "OnTxEnd (Some (genesis_receipt event)) None ?t1 = Inr t2"
    and root: "trx_Calls trx' = [root]" "facts root = facts e" "call_Logs root = []"
    and t2: "t_transaction t2 = None" "t_block t2 = Some (b\<lparr>blk_TransactionTraces := blk_TransactionTraces b @ [trx']\<rparr>)"
      "t_chainConfig t2 = t_chainConfig ?t1" "t_config t2 = t_config ?t1" "t_output t2 = t_output ?t1"
    by (rule genesis_tx_end [of ?t1 "trx\<lparr>trx_Calls := [e]\<rparr>" e "genesis_receipt event" b])
       (use r e in \<open>simp_all add: genesis_receipt_def\<close>)
  have bf: "before_flush t2 = t2" using assms(2) t2(4) by (simp add: before_flush_def)
  have re: "(if q then reorderIsolatedTransactionsAndOrdinals x else x) = x" for q x
    by (simp add: reorderIsolatedTransactionsAndOrdinals_def)
  obtain t3 out where s3: "OnBlockEnd None t2 = Inr t3" and t3: "t_output t3 = t_output t2 @ [BlockLine out]"
    "bo_block out = b\<lparr>blk_TransactionTraces := blk_TransactionTraces b @ [trx']\<rparr>"
    using t2 r by (auto simp: OnBlockEnd_def bf re Let_def ensure_defs check_def emit_def freeze_snapshot_def)
  show ?thesis
    by (rule that [of t3 out trx' root]) (use s1 s2 s3 t3 t2(5) root e(1) in simp_all)
qed

lemma root_call_changes:
  assumes "in_root_call t b trx c" and "list_all change_hook hs"
  obtains t' c' where "run_hooks cr hs t = Inr t'" and "in_root_call t' b trx c'"
    and "facts c' = add_facts (facts c) (run_facts hs)" and "t_config t' = t_config t"
    and "t_output t' = t_output t"
proof -
  note r = assms(1) [unfolded in_root_call_def]
  have "tracing t" using r by (simp add: tracing_def active_call_def cs_Peek_def)
  then obtain t' where run: "run_hooks cr hs t = Inr t'" and rec: "recorded t (run_facts hs) t'"
    using change_run_records [OF assms(2)] by blast
  obtain o1 c' where c': "only_changes c c'" "facts c' = add_facts (facts c) (run_facts hs)"
    and t': "t' = t\<lparr>t_blockOrdinal := o1, t_callStack := (t_callStack t)\<lparr>cs_stack := [c']\<rparr>\<rparr>"
    using recorded_frame [OF rec, of c] r by blast
  have "call_Logs c' = [] \<and> call_ParentIndex c' = 0 \<and> \<not> call_StatusFailed c' \<and> \<not> call_Suicide c'"
    using c'(1) r by (cases c, cases c', simp add: only_changes_def)
  then have "in_root_call t' b trx c'" using r by (simp add: in_root_call_def t')
  with run c'(2) show ?thesis by (intro that [of t' c']) (simp_all add: t')
qed

text \<open>
  C12. On a tracer between two blocks, \<open>OnGenesisBlock\<close> does not panic and flushes exactly one block, of
  the event's number, with one transaction of one call: that call's balance, nonce, code and storage
  changes are the allocation, account by account in address order and slot by slot in key order,
  without the values that are zero. It has no log.
\<close>

theorem genesis_block_content:
  assumes "idle t" and "t_chainConfig t \<noteq> None" and "t_flashBlockIndex t = None"
    and "\<not> t_latestCallEnterSuicided t" and "ev_FlashBlock event = None"
    and "\<not> cfg_IgnoreGenesisBlock (t_config t)" and "cfg_BeforeBlockFlush (t_config t) = None"
  shows "\<exists>t' out trx root. OnGenesisBlock cr event alloc t = Inr t'
    \<and> t_output t' = t_output t @ [BlockLine out]
    \<and> blk_Number (bo_block out) = bd_Number (ev_Block event)
    \<and> blk_TransactionTraces (bo_block out) = [trx] \<and> trx_Calls trx = [root]
    \<and> facts root = alloc_facts cr alloc \<and> call_Logs root = []"
proof -
  let ?t0 = "t\<lparr>t_blockIsGenesis := True\<rparr>"
  obtain ch where ch: "t_chainConfig ?t0 = Some ch" using assms(2) by auto
  obtain t3 b trx c where s3: "run_hooks cr [HBlockStart event, HTxStart genesis_event None,
      HCallEnter 0 CallTypeCall (replicate 20 0) (replicate 20 0) [] 0 None] ?t0 = Inr t3"
    and c: "in_root_call t3 b trx c" "facts c = no_facts" and b: "blk_TransactionTraces b = []"
      "blk_Number b = bd_Number (ev_Block event)"
    and f3: "t_config t3 = t_config ?t0" "t_output t3 = t_output ?t0"
    by (rule genesis_opening [OF _ ch, of event cr]) (use assms in \<open>simp_all add: idle_def blank_def\<close>)
  obtain t4 d where s4: "run_hooks cr (alloc_hooks cr alloc) t3 = Inr t4" and d: "in_root_call t4 b trx d"
    "facts d = add_facts (facts c) (run_facts (alloc_hooks cr alloc))"
    and f4: "t_config t4 = t_config t3" "t_output t4 = t_output t3"
    by (rule root_call_changes [OF c(1) alloc_hooks_change])
  have "cfg_BeforeBlockFlush (t_config t4) = None" using assms(7) f3 f4 by simp
  then obtain t7 trx' root out where s7: "run_hooks cr [HCallExit 0 [] 0 None False,
      HTxEnd (Some (genesis_receipt event)) None, HBlockEnd None] t4 = Inr t7"
    and out: "t_output t7 = t_output t4 @ [BlockLine out]"
      "bo_block out = b\<lparr>blk_TransactionTraces := blk_TransactionTraces b @ [trx']\<rparr>"
    and root: "trx_Calls trx' = [root]" "facts root = facts d" "call_Logs root = []"
    by (rule genesis_closing [OF d(1)])
  have "OnGenesisBlock cr event alloc t = Inr t7"
    unfolding genesis_is_run [OF assms(6,2)] genesis_hooks_def
    by (simp only: run_hooks_append s3 s4 s7 bindR.simps)
  then show ?thesis
    using out root b f3 f4 d(2) c(2) by (auto simp: alloc_hooks_facts)
qed

end
