(* ===== verification/ChangeOrder.thy ===== *)
theory ChangeOrder
  imports SystemFlash
begin

section \<open>Changes are recorded in chronological order\<close>

text \<open>
  A call's change lists have no order of their own: consumers read the ordinals. They are nevertheless
  increasing, because changes made while no call is active wait in the deferred state and go before
  all changes of the next root call, or after all changes of the first one when the transaction ends.
  That needs a caller that enters a call at depth 0 exactly when none is active.
\<close>

subsection \<open>The stack of active calls is well formed\<close>

definition stacks_wf :: "tracer \<Rightarrow> bool" where
  "stacks_wf t \<longleftrightarrow> cs_wf (t_callStack t)
     \<and> (case t_interruptedTransaction t of None \<Rightarrow> True | Some s \<Rightarrow> cs_wf (it_callStack s))"

lemma stacks_wf_same:
  "t_callStack t' = t_callStack t \<Longrightarrow> t_interruptedTransaction t' = t_interruptedTransaction t \<Longrightarrow>
     stacks_wf t \<Longrightarrow> stacks_wf t'"
  by (simp add: stacks_wf_def)

lemma stacks_wf_other [simp]:
  "stacks_wf (t\<lparr>t_blockOrdinal := o1\<rparr>) = stacks_wf t"
  "stacks_wf (t\<lparr>t_transactionLogIndex := l\<rparr>) = stacks_wf t"
  "stacks_wf (t\<lparr>t_transactionKeccakPreimages := k\<rparr>) = stacks_wf t"
  "stacks_wf (t\<lparr>t_snapshotForNextFlashBlock := s\<rparr>) = stacks_wf t"
  "stacks_wf (update_block g t) = stacks_wf t"
  "stacks_wf (update_deferred h t) = stacks_wf t"
  "stacks_wf (update_transaction k2 t) = stacks_wf t"
  by (simp_all add: stacks_wf_def update_defs)

lemma stacks_wf_active:
  assumes "stacks_wf t" and "\<And>c. call_Index (f c) = call_Index c"
    and "\<And>c. call_ParentIndex (f c) = call_ParentIndex c" and "\<And>c. call_Depth (f c) = call_Depth c"
  shows "stacks_wf (update_active f t)"
  using assms by (simp add: stacks_wf_def update_active_def cs_wf_update_top)

lemma change_hooks_stacks:
  assumes "stacks_wf t"
  shows "OnBalanceChange addr old new reason t = Inr t' \<Longrightarrow> stacks_wf t'"
    and "OnNonceChange addr n n' t = Inr t' \<Longrightarrow> stacks_wf t'"
    and "OnCodeChange addr ph nh oc nc t = Inr t' \<Longrightarrow> stacks_wf t'"
    and "OnStorageChange addr slot ov nv t = Inr t' \<Longrightarrow> stacks_wf t'"
    and "OnLog addr topics data bi t = Inr t' \<Longrightarrow> stacks_wf t'"
    and "OnOpcode pc op1 gas cost rd depth err t = Inr t' \<Longrightarrow> stacks_wf t'"
    and "OnOpcodeFault pc op1 gas cost depth err t = Inr t' \<Longrightarrow> stacks_wf t'"
    and "OnKeccakPreimage h p t = Inr t' \<Longrightarrow> stacks_wf t'"
  using assms
  by (auto simp: change_hook_defs OnOpcode_def OnOpcodeFault_def OnKeccakPreimage_def guard_Inr_iff
      Let_def call_add_defs intro!: stacks_wf_active split: if_splits option.splits)

lemma other_hooks_stacks:
  assumes "stacks_wf t"
  shows "OnBlockEnd err t = Inr t' \<Longrightarrow> stacks_wf t'"
    and "SnapshotFlashBlockForNextIteration t = Inr t' \<Longrightarrow> stacks_wf t'"
    and "OnTxStart cr event reader t = Inr t' \<Longrightarrow> stacks_wf t'"
    and "OnTxReset t = Inr t' \<Longrightarrow> stacks_wf t'"
    and "OnSystemCallStart t = Inr t' \<Longrightarrow> stacks_wf t'"
proof -
  assume "OnBlockEnd err t = Inr t'"
  then show "stacks_wf t'" by (elim OnBlockEnd_elim) (simp add: stacks_wf_def)
next
  assume "SnapshotFlashBlockForNextIteration t = Inr t'"
  then show "stacks_wf t'" using assms
    by (auto simp: SnapshotFlashBlockForNextIteration_def split: option.splits)
next
  assume "OnTxStart cr event reader t = Inr t'"
  then show "stacks_wf t'" using assms by (elim OnTxStart_elim) (simp add: stacks_wf_def)
next
  assume "OnTxReset t = Inr t'"
  then show "stacks_wf t'" using assms by (auto simp: OnTxReset_def guard_Inr_iff stacks_wf_def)
next
  assume "OnSystemCallStart t = Inr t'"
  then show "stacks_wf t'" using assms
    by (elim OnSystemCallStart_elim) (simp_all add: stacks_wf_def interruptTransaction_def resetTransaction_def)
qed

lemma stacks_wf_step:
  assumes "apply_hook cr h t = Inr t'" and "call_room h t" and "stacks_wf t"
  shows "stacks_wf t'"
proof (cases h)
  case (HCallEnter depth ty caller target input gas val1)
  have room: "unat (cs_index (t_callStack t)) + 1 < 2 ^ 32" using assms(2) by (simp add: call_room_def)
  show ?thesis
    using assms(1,3) HCallEnter cs_wf_Push [OF _ room]
    by (auto elim!: OnCallEnter_elim simp: stacks_wf_def entered_call_def)
next
  case (HCallExit depth outp gasUsed err rev1)
  then show ?thesis using assms(1,3)
    by (auto elim!: OnCallExit_elim simp: stacks_wf_def update_transaction_def cs_wf_Pop)
next
  case (HTxEnd receipt err)
  then have "OnTxEnd receipt err t = Inr t'" using assms(1) by simp
  then show ?thesis
  proof (cases rule: OnTxEnd_elim)
    case (3 t1 trx)
    obtain trx' where t1: "t1 = t\<lparr>t_blockOrdinal := snd (ordinal_Next (t_blockOrdinal t)),
        t_transaction := Some trx', t_transactionTransient := t_transactionTransient t1,
        t_deferredCallState := t_deferredCallState t1,
        t_transactionKeccakPreimages := t_transactionKeccakPreimages t1\<rparr>"
      using completeTransaction_elim [OF 3(1)] by metis
    have "t_callStack t1 = t_callStack t \<and> t_interruptedTransaction t1 = t_interruptedTransaction t"
      by (intro conjI; subst t1; simp)
    then show ?thesis using assms(3) 3(4) by (simp add: stacks_wf_def)
  next
    case (4 t1 trx)
    then show ?thesis using completeTransaction_mset [OF 4(1)] assms(3) by (simp add: stacks_wf_def update_block_def)
  qed (use assms(3) in \<open>simp_all add: stacks_wf_def\<close>)
next
  case (HBlockStart event)
  then show ?thesis
    using assms(1,3) OnBlockStart_trx_state [of event t t'] by (simp add: stacks_wf_def trx_state_def)
next
  case HSystemCallEnd
  then show ?thesis using assms(1,3)
    by (auto elim!: OnSystemCallEnd_elim simp: stacks_wf_def resumeTransaction_def update_block_def
        split: option.splits)
qed (use assms(1) in \<open>auto intro: change_hooks_stacks [OF assms(3)] other_hooks_stacks [OF assms(3)]\<close>)

text \<open>
  C27. In every reachable state the active calls are well formed: indexes grow up the stack and stay below
  the call counter, each call names the one below it as its parent (0 at the bottom), and its recorded
  depth is its position, which the depth counter follows.
\<close>

theorem active_calls_wf:
  assumes "reachable cr call_room t0 t" and "blank t0"
  shows "cs_wf (t_callStack t)"
proof -
  have "stacks_wf t"
    using assms(1)
  proof (induction rule: reachable.induct)
    case start
    show ?case using assms(2) by (simp add: stacks_wf_def blank_def)
  next
    case (hook t h t')
    then show ?case using stacks_wf_step by blast
  qed
  then show ?thesis by (simp add: stacks_wf_def)
qed

end
