(* ===== verification/Wei.thy ===== *)
theory Wei
  imports Types Complex_Main
begin

section \<open>Ether amounts as floats (types_builder.go)\<close>

text \<open>
  \<open>ethToWei\<close> multiplies a \<open>float64\<close> by \<open>1e18\<close> as \<open>big.Float\<close> numbers of 53 bits and truncates. A finite
  \<open>float64\<close> is given as mantissa and exponent, with value \<open>m * 2 ^ e\<close>; the sign of a zero does not
  matter here. The exponents of a \<open>big.Float\<close> have 32 bits, which products of two \<open>float64\<close> do not reach.
\<close>

datatype float64 = Finite (mantissa: int) (exponent: int) | Infinity bool | NaN

text \<open>The number of binary digits.\<close>

fun bit_length :: "nat \<Rightarrow> nat" where
  "bit_length n = (if n = 0 then 0 else Suc (bit_length (n div 2)))"

declare bit_length.simps [simp del]

text \<open>Dropping the last \<open>k\<close> bits of \<open>n\<close>, to the nearest, ties to even.\<close>

definition round_even :: "nat \<Rightarrow> nat \<Rightarrow> nat" where
  "round_even n k =
     (let q = n div 2 ^ k; r = n mod 2 ^ k
      in if 2 * r > 2 ^ k \<or> 2 * r = 2 ^ k \<and> odd q then q + 1 else q)"

text \<open>
  \<open>big.NewFloat\<close> panics on NaN and keeps the 53 bits of a \<open>float64\<close>; \<open>Mul\<close> rounds the product to the
  larger of the two precisions, which is 53.
\<close>

definition bigfloat_Mul :: "int \<times> int \<Rightarrow> int \<times> int \<Rightarrow> int \<times> int" where
  "bigfloat_Mul x y =
     (let m = fst x * fst y; n = nat \<bar>m\<bar>; k = bit_length n - 53
      in (sgn m * int (round_even n k), snd x + snd y + int k))"

text \<open>\<open>Int\<close> truncates towards zero.\<close>

definition bigfloat_Int :: "int \<times> int \<Rightarrow> int" where
  "bigfloat_Int x =
     (if snd x \<ge> 0 then fst x * 2 ^ nat (snd x)
      else sgn (fst x) * (\<bar>fst x\<bar> div 2 ^ nat (- snd x)))"

text \<open>\<open>1e18\<close>, which a \<open>float64\<close> holds exactly: \<open>5 ^ 18\<close> has 42 bits.\<close>

definition float_1e18 :: "int \<times> int" where
  "float_1e18 = (5 ^ 18, 18)"

text \<open>\<open>None\<close> is the panic on NaN, \<open>Some None\<close> the nil that \<open>Int\<close> returns for an infinity.\<close>

definition ethToWei :: "float64 \<Rightarrow> int option option" where
  "ethToWei eth =
     (case eth of
        NaN \<Rightarrow> None
      | Infinity _ \<Rightarrow> Some None
      | Finite m e \<Rightarrow> Some (Some (bigfloat_Int (bigfloat_Mul (m, e) float_1e18))))"

subsection \<open>Rounding\<close>

lemma round_even_zero [simp]: "round_even n 0 = n"
  by (simp add: round_even_def)

lemma bit_length_zero [simp]: "bit_length 0 = 0"
  by (simp add: bit_length.simps)

lemma bit_length_power: "n < 2 ^ k \<Longrightarrow> bit_length n \<le> k"
proof (induction k arbitrary: n)
  case 0
  then show ?case by (simp add: bit_length.simps)
next
  case (Suc k)
  then have "n div 2 < 2 ^ k" by simp
  from Suc.IH [OF this] show ?case by (simp add: bit_length.simps [of n])
qed

lemma bit_length_lower: "n \<noteq> 0 \<Longrightarrow> 2 ^ bit_length n \<le> 2 * n"
proof (induction n rule: bit_length.induct)
  case (1 n)
  show ?case
  proof (cases "n div 2 = 0")
    case True
    then have "n = 1" using "1.prems" by simp
    then show ?thesis by (simp add: bit_length.simps)
  next
    case False
    then have "2 ^ bit_length (n div 2) \<le> 2 * (n div 2)" using "1.IH" "1.prems" by simp
    then show ?thesis using "1.prems" by (simp add: bit_length.simps [of n])
  qed
qed

text \<open>Rounding is off by at most half a unit of the bits dropped.\<close>

lemma round_even_error: "2 * \<bar>int (round_even n k) * 2 ^ k - int n\<bar> \<le> 2 ^ k"
proof -
  let ?q = "n div 2 ^ k" and ?r = "n mod 2 ^ k"
  have n: "int n = int ?q * 2 ^ k + int ?r"
    using arg_cong [OF div_mult_mod_eq [of n "2 ^ k"], of int, symmetric]
    by (simp only: of_nat_add of_nat_mult of_nat_power of_nat_numeral)
  have "int ?r < int (2 ^ k)" unfolding of_nat_less_iff by simp
  then have r: "int ?r < 2 ^ k" by simp
  show ?thesis
  proof (cases "2 * ?r > 2 ^ k \<or> 2 * ?r = 2 ^ k \<and> odd ?q")
    case True
    then have "2 ^ k \<le> 2 * ?r" by auto
    then have "int (2 ^ k) \<le> int (2 * ?r)" by (simp only: of_nat_le_iff)
    then have h: "2 ^ k \<le> 2 * int ?r" by simp
    have "int (round_even n k) * 2 ^ k - int n = 2 ^ k - int ?r"
      using True n by (simp add: round_even_def Let_def algebra_simps)
    then show ?thesis using h r by simp
  next
    case False
    then have "2 * ?r \<le> 2 ^ k" by auto
    then have "int (2 * ?r) \<le> int (2 ^ k)" by (simp only: of_nat_le_iff)
    then have h: "2 * int ?r \<le> 2 ^ k" by simp
    have "int (round_even n k) * 2 ^ k - int n = - int ?r"
      using False n by (simp add: round_even_def Let_def)
    then show ?thesis using h by simp
  qed
qed

text \<open>To 53 bits that is at most one part in \<open>2 ^ 53\<close>.\<close>

lemma round_even_relative:
  "2 ^ 53 * \<bar>int (round_even n (bit_length n - 53)) * 2 ^ (bit_length n - 53) - int n\<bar> \<le> int n"
proof (cases "bit_length n \<le> 53")
  case True
  then show ?thesis by simp
next
  case False
  let ?k = "bit_length n - 53"
  have "n \<noteq> 0" using False by (cases "n = 0") auto
  then have "2 ^ (?k + 53) \<le> 2 * n" using bit_length_lower [of n] False by simp
  then have "int (2 ^ (?k + 53)) \<le> int (2 * n)" by (simp only: of_nat_le_iff)
  then have n: "2 ^ 53 * 2 ^ ?k \<le> 2 * int n" by (simp add: power_add)
  have scale: "c * a \<le> b" if "2 * a \<le> x" "c * x \<le> 2 * b" "0 \<le> c" for a b c x :: int
  proof -
    have "c * (2 * a) \<le> c * x" using that(1,3) by (rule mult_left_mono)
    with that(2) show ?thesis by simp
  qed
  show ?thesis by (rule scale [OF round_even_error n]) simp
qed

subsection \<open>How far a converted amount is off\<close>

text \<open>The number a mantissa and an exponent stand for.\<close>

definition float_val :: "int \<times> int \<Rightarrow> real" where
  "float_val x = real_of_int (fst x) * 2 powi snd x"

lemma bigfloat_Int_error: "\<bar>real_of_int (bigfloat_Int x) - float_val x\<bar> \<le> 1"
proof (cases "snd x \<ge> 0")
  case True
  then have "2 powi snd x = (2::real) ^ nat (snd x)" by (simp add: power_int_def)
  with True show ?thesis by (simp add: bigfloat_Int_def float_val_def)
next
  case False
  let ?d = "2 ^ nat (- snd x) :: int" and ?m = "\<bar>fst x\<bar>"
  have p: "2 powi snd x = 1 / real_of_int ?d"
    using False by (simp add: power_int_def inverse_eq_divide power_one_over)
  have "real_of_int (?m div ?d) = of_int \<lfloor>real_of_int ?m / real_of_int ?d\<rfloor>"
    by (simp only: floor_divide_of_int_eq)
  then have q: "\<bar>real_of_int (?m div ?d) - real_of_int ?m / real_of_int ?d\<bar> \<le> 1" by linarith
  have "real_of_int (bigfloat_Int x) - float_val x
      = real_of_int (sgn (fst x)) * (real_of_int (?m div ?d) - real_of_int ?m / real_of_int ?d)"
  proof -
    have "real_of_int (fst x) = real_of_int (sgn (fst x)) * real_of_int ?m"
      by (metis of_int_mult sgn_mult_abs)
    then have "float_val x = real_of_int (sgn (fst x)) * (real_of_int ?m / real_of_int ?d)"
      by (simp add: float_val_def p)
    then show ?thesis using False by (simp add: bigfloat_Int_def right_diff_distrib)
  qed
  moreover have "\<bar>real_of_int (sgn (fst x))\<bar> \<le> 1" by (simp add: sgn_if)
  ultimately show ?thesis using q mult_mono [of "\<bar>real_of_int (sgn (fst x))\<bar>" 1] by (fastforce simp: abs_mult)
qed

lemma bigfloat_Mul_error:
  "\<bar>float_val (bigfloat_Mul x y) - float_val x * float_val y\<bar> \<le> \<bar>float_val x * float_val y\<bar> / 2 ^ 53"
proof -
  let ?m = "fst x * fst y"
  let ?n = "nat \<bar>?m\<bar>"
  let ?k = "bit_length ?n - 53"
  let ?d = "int (round_even ?n ?k) * 2 ^ ?k - int ?n" and ?p = "2 powi (snd x + snd y) :: real"
  have xy: "float_val x * float_val y = real_of_int ?m * ?p"
    by (simp add: float_val_def power_int_add)
  have "2 powi (snd x + snd y + int ?k) = ?p * 2 ^ ?k" by (simp add: power_int_add)
  then have "float_val (bigfloat_Mul x y) = real_of_int (sgn ?m) * (real (round_even ?n ?k) * 2 ^ ?k) * ?p"
    by (simp add: bigfloat_Mul_def Let_def float_val_def)
  moreover have "real_of_int ?m = real_of_int (sgn ?m) * real ?n"
  proof -
    have "?m = sgn ?m * int ?n" by (simp add: sgn_mult_abs)
    then show ?thesis by (metis of_int_mult of_int_of_nat_eq)
  qed
  ultimately have "float_val (bigfloat_Mul x y) - float_val x * float_val y
      = real_of_int (sgn ?m) * real_of_int ?d * ?p"
    unfolding xy by (simp add: algebra_simps)
  then have "\<bar>float_val (bigfloat_Mul x y) - float_val x * float_val y\<bar>
      = \<bar>real_of_int (sgn ?m)\<bar> * \<bar>real_of_int ?d\<bar> * ?p" by (simp add: abs_mult)
  also have "\<dots> \<le> \<bar>real_of_int ?d\<bar> * ?p"
    using mult_right_mono [of "\<bar>real_of_int (sgn ?m)\<bar>" 1 "\<bar>real_of_int ?d\<bar> * ?p"] by (simp add: sgn_if mult.assoc)
  also have "\<dots> \<le> \<bar>real_of_int ?m\<bar> / 2 ^ 53 * ?p"
  proof (rule mult_right_mono)
    have "2 ^ 53 * \<bar>?d\<bar> \<le> \<bar>?m\<bar>" using round_even_relative [of ?n] by simp
    then have "real_of_int (2 ^ 53 * \<bar>?d\<bar>) \<le> real_of_int \<bar>?m\<bar>" by (simp only: of_int_le_iff)
    then have "2 ^ 53 * \<bar>real_of_int ?d\<bar> \<le> \<bar>real_of_int ?m\<bar>" by (simp only: of_int_mult of_int_abs of_int_power of_int_numeral)
    moreover have "a \<le> b / c" if "c * a \<le> b" "0 < c" for a b c :: real
      using that by (simp add: pos_le_divide_eq mult.commute)
    ultimately show "\<bar>real_of_int ?d\<bar> \<le> \<bar>real_of_int ?m\<bar> / 2 ^ 53" by (meson zero_less_numeral zero_less_power)
  qed simp
  finally show ?thesis by (simp add: xy abs_mult)
qed

lemma float_1e18_val: "float_val (m, e) * float_val float_1e18 = real_of_int m * 2 powi e * 10 ^ 18"
  by (simp add: float_val_def float_1e18_def)

lemma ethToWei_exact:
  assumes "\<bar>m\<bar> * 5 ^ 18 < 2 ^ 53" and "- 18 \<le> e"
  shows "bigfloat_Int (bigfloat_Mul (m, e) float_1e18) = m * 5 ^ 18 * 2 ^ nat (e + 18)"
proof -
  have "nat \<bar>m * 5 ^ 18\<bar> < 2 ^ 53" using assms(1) by (simp add: abs_mult)
  then have "bit_length (nat \<bar>m * 5 ^ 18\<bar>) - 53 = 0" using bit_length_power by simp
  then have "bigfloat_Mul (m, e) float_1e18 = (sgn (m * 5 ^ 18) * \<bar>m * 5 ^ 18\<bar>, e + 18)"
    by (simp add: bigfloat_Mul_def float_1e18_def Let_def del: sgn_mult_abs)
  then have "bigfloat_Mul (m, e) float_1e18 = (m * 5 ^ 18, e + 18)" by (simp only: sgn_mult_abs)
  then show ?thesis using assms(2) by (simp add: bigfloat_Int_def)
qed

text \<open>
  C39. \<open>ethToWei\<close> is accurate: on every finite amount it returns, and is off by at most one wei plus one
  part in \<open>2 ^ 53\<close> of the amount in wei; amounts with few enough digits, as \<open>1.5\<close>, are converted exactly.
\<close>

theorem ethToWei_accuracy:
  "\<exists>w. ethToWei (Finite m e) = Some (Some w)
    \<and> \<bar>real_of_int w - real_of_int m * 2 powi e * 10 ^ 18\<bar>
      \<le> \<bar>real_of_int m * 2 powi e * 10 ^ 18\<bar> / 2 ^ 53 + 1
    \<and> (\<bar>m\<bar> * 5 ^ 18 < 2 ^ 53 \<and> - 18 \<le> e \<longrightarrow> w = m * 5 ^ 18 * 2 ^ nat (e + 18))"
proof -
  let ?y = "bigfloat_Mul (m, e) float_1e18"
  have "\<bar>real_of_int (bigfloat_Int ?y) - real_of_int m * 2 powi e * 10 ^ 18\<bar>
      \<le> \<bar>real_of_int m * 2 powi e * 10 ^ 18\<bar> / 2 ^ 53 + 1"
    using bigfloat_Int_error [of ?y] bigfloat_Mul_error [of "(m, e)" float_1e18]
    unfolding float_1e18_val by linarith
  moreover have "ethToWei (Finite m e) = Some (Some (bigfloat_Int ?y))" by (simp add: ethToWei_def)
  ultimately show ?thesis using ethToWei_exact [of m e] by blast
qed

theorem ethToWei_accuracy_witness:
  "ethToWei (Finite 3 (-1)) = Some (Some 1500000000000000000)"
  using ethToWei_accuracy [of 3 "-1"] by auto

end
