(* ===== verification/Builders.thy ===== *)
theory Builders
  imports TracerTx Wei
begin

section \<open>The event builders (types_builder.go)\<close>

text \<open>
  The fluent builders of block and transaction events: a record, one setter per method, \<open>Build\<close>. A
  setter of the source mutates and returns its receiver; here it takes the builder last, so that
  a chain of calls is a composition. \<open>Amount\<close> multiplies floating-point numbers and is left out.
\<close>

subsection \<open>Block events\<close>

record BlockEventBuilder =
  bb_number :: u64
  bb_hash :: bytes
  bb_parentHash :: bytes
  bb_timestamp :: u64
  bb_coinbase :: bytes
  bb_gasLimit :: u64
  bb_difficulty :: "int option"
  bb_size :: u64
  bb_bloom :: bytes

definition block_Number :: "u64 \<Rightarrow> BlockEventBuilder \<Rightarrow> BlockEventBuilder" where
  "block_Number n t = t\<lparr>bb_number := n\<rparr>"

definition block_Hash :: "string \<Rightarrow> BlockEventBuilder \<Rightarrow> BlockEventBuilder" where
  "block_Hash s t = t\<lparr>bb_hash := hashFromHex s\<rparr>"

definition block_ParentHash :: "string \<Rightarrow> BlockEventBuilder \<Rightarrow> BlockEventBuilder" where
  "block_ParentHash s t = t\<lparr>bb_parentHash := hashFromHex s\<rparr>"

definition block_Timestamp :: "u64 \<Rightarrow> BlockEventBuilder \<Rightarrow> BlockEventBuilder" where
  "block_Timestamp n t = t\<lparr>bb_timestamp := n\<rparr>"

definition block_Coinbase :: "string \<Rightarrow> BlockEventBuilder \<Rightarrow> BlockEventBuilder" where
  "block_Coinbase s t = t\<lparr>bb_coinbase := addressFromHex s\<rparr>"

definition block_GasLimit :: "u64 \<Rightarrow> BlockEventBuilder \<Rightarrow> BlockEventBuilder" where
  "block_GasLimit n t = t\<lparr>bb_gasLimit := n\<rparr>"

definition block_Difficulty :: "int option \<Rightarrow> BlockEventBuilder \<Rightarrow> BlockEventBuilder" where
  "block_Difficulty v t = t\<lparr>bb_difficulty := v\<rparr>"

definition block_Size :: "u64 \<Rightarrow> BlockEventBuilder \<Rightarrow> BlockEventBuilder" where
  "block_Size n t = t\<lparr>bb_size := n\<rparr>"

definition block_Bloom :: "bytes \<Rightarrow> BlockEventBuilder \<Rightarrow> BlockEventBuilder" where
  "block_Bloom b t = t\<lparr>bb_bloom := b\<rparr>"

text \<open>\<open>BlockData{}\<close>\<close>

definition zero_BlockData :: BlockData where
  "zero_BlockData = \<lparr>bd_Number = 0, bd_Hash = replicate 32 0, bd_ParentHash = replicate 32 0, bd_UncleHash =
       replicate 32 0, bd_Coinbase = replicate 20 0, bd_Root = replicate 32 0, bd_TxHash =
       replicate 32 0, bd_ReceiptHash = replicate 32 0, bd_Bloom = [], bd_Difficulty = None,
       bd_GasLimit = 0, bd_GasUsed = 0, bd_Time = 0, bd_Extra = [], bd_MixDigest = replicate 32
       0, bd_Nonce = 0, bd_BaseFee = None, bd_Uncles = [], bd_Size = 0, bd_Withdrawals = [],
       bd_IsMerge = False, bd_WithdrawalsRoot = None, bd_BlobGasUsed = None, bd_ExcessBlobGas =
       None, bd_ParentBeaconRoot = None, bd_RequestsHash = None, bd_TxDependency = None,
       bd_SlotNumber = None, bd_BlockAccessListHash = None\<rparr>"

text \<open>The fields of \<open>BlockData\<close> the builder does not set have their zero values.\<close>

definition block_Build :: "BlockEventBuilder \<Rightarrow> BlockEvent" where
  "block_Build b =
     (let isMerge = (case bb_difficulty b of None \<Rightarrow> False | Some d \<Rightarrow> sgn d = 0)
      in \<lparr>ev_Block = zero_BlockData\<lparr>bd_Number := bb_number b, bd_Hash := bb_hash b,
            bd_ParentHash := bb_parentHash b, bd_Time := bb_timestamp b, bd_Coinbase := bb_coinbase b,
            bd_GasLimit := bb_gasLimit b, bd_Difficulty := bb_difficulty b, bd_IsMerge := isMerge,
            bd_Size := bb_size b, bd_Bloom := bb_bloom b\<rparr>,
          ev_Finalized = None, ev_FlashBlock = None, ev_Rules = None\<rparr>)"

subsection \<open>Transaction events\<close>

record TxEventBuilder =
  tb_txType :: u8
  tb_hash :: bytes
  tb_from :: bytes
  tb_to :: bytes
  tb_value :: "int option"
  tb_gas :: u64
  tb_gasPrice :: "int option"
  tb_nonce :: u64
  tb_data :: bytes
  tb_v :: bytes
  tb_r :: bytes
  tb_s :: bytes
  tb_maxFeePerGas :: "int option"
  tb_maxPriorityFeePerGas :: "int option"
  tb_accessList :: AccessList
  tb_blobGasFeeCap :: "int option"
  tb_blobHashes :: "bytes list"
  tb_setCodeAuthorizations :: "SetCodeAuthorization list"

text \<open>\<open>new(TxEventBuilder)\<close>\<close>

definition new_TxEventBuilder :: TxEventBuilder where
  "new_TxEventBuilder = \<lparr>tb_txType = 0, tb_hash = replicate 32 0, tb_from = replicate 20 0, tb_to = replicate 20 0, tb_value = None, tb_gas = 0, tb_gasPrice = None, tb_nonce = 0, tb_data = [], tb_v = [], tb_r = replicate 32 0, tb_s = replicate 32 0, tb_maxFeePerGas = None, tb_maxPriorityFeePerGas = None, tb_accessList = [], tb_blobGasFeeCap = None, tb_blobHashes = [], tb_setCodeAuthorizations = []\<rparr>"

definition tx_Type :: "u8 \<Rightarrow> TxEventBuilder \<Rightarrow> TxEventBuilder" where
  "tx_Type n t = t\<lparr>tb_txType := n\<rparr>"

definition tx_Hash :: "string \<Rightarrow> TxEventBuilder \<Rightarrow> TxEventBuilder" where
  "tx_Hash s t = t\<lparr>tb_hash := hashFromHex s\<rparr>"

definition tx_From :: "string \<Rightarrow> TxEventBuilder \<Rightarrow> TxEventBuilder" where
  "tx_From s t = t\<lparr>tb_from := addressFromHex s\<rparr>"

definition tx_To :: "string \<Rightarrow> TxEventBuilder \<Rightarrow> TxEventBuilder" where
  "tx_To s t = t\<lparr>tb_to := addressFromHex s\<rparr>"

definition tx_Value :: "int option \<Rightarrow> TxEventBuilder \<Rightarrow> TxEventBuilder" where
  "tx_Value v t = t\<lparr>tb_value := v\<rparr>"

text \<open>\<open>None\<close> is the panic of \<open>ethToWei\<close> on NaN.\<close>

definition tx_Amount :: "float64 \<Rightarrow> TxEventBuilder \<Rightarrow> TxEventBuilder option" where
  "tx_Amount eth t = map_option (\<lambda>v. t\<lparr>tb_value := v\<rparr>) (ethToWei eth)"

definition tx_Gas :: "u64 \<Rightarrow> TxEventBuilder \<Rightarrow> TxEventBuilder" where
  "tx_Gas n t = t\<lparr>tb_gas := n\<rparr>"

definition tx_GasPrice :: "int option \<Rightarrow> TxEventBuilder \<Rightarrow> TxEventBuilder" where
  "tx_GasPrice v t = t\<lparr>tb_gasPrice := v\<rparr>"

definition tx_Nonce :: "u64 \<Rightarrow> TxEventBuilder \<Rightarrow> TxEventBuilder" where
  "tx_Nonce n t = t\<lparr>tb_nonce := n\<rparr>"

definition tx_Data :: "bytes \<Rightarrow> TxEventBuilder \<Rightarrow> TxEventBuilder" where
  "tx_Data b t = t\<lparr>tb_data := b\<rparr>"

definition tx_MaxFeePerGas :: "int option \<Rightarrow> TxEventBuilder \<Rightarrow> TxEventBuilder" where
  "tx_MaxFeePerGas v t = t\<lparr>tb_maxFeePerGas := v\<rparr>"

definition tx_MaxPriorityFeePerGas :: "int option \<Rightarrow> TxEventBuilder \<Rightarrow> TxEventBuilder" where
  "tx_MaxPriorityFeePerGas v t = t\<lparr>tb_maxPriorityFeePerGas := v\<rparr>"

definition tx_AccessList :: "AccessList \<Rightarrow> TxEventBuilder \<Rightarrow> TxEventBuilder" where
  "tx_AccessList al t = t\<lparr>tb_accessList := al\<rparr>"

definition tx_BlobGasFeeCap :: "int option \<Rightarrow> TxEventBuilder \<Rightarrow> TxEventBuilder" where
  "tx_BlobGasFeeCap v t = t\<lparr>tb_blobGasFeeCap := v\<rparr>"

definition tx_BlobHashes :: "bytes list \<Rightarrow> TxEventBuilder \<Rightarrow> TxEventBuilder" where
  "tx_BlobHashes hs t = t\<lparr>tb_blobHashes := hs\<rparr>"

definition tx_SetCodeAuthorizations :: "SetCodeAuthorization list \<Rightarrow> TxEventBuilder \<Rightarrow> TxEventBuilder" where
  "tx_SetCodeAuthorizations auths t = t\<lparr>tb_setCodeAuthorizations := auths\<rparr>"

definition tx_V :: "bytes \<Rightarrow> TxEventBuilder \<Rightarrow> TxEventBuilder" where
  "tx_V b t = t\<lparr>tb_v := b\<rparr>"

definition tx_R :: "string \<Rightarrow> TxEventBuilder \<Rightarrow> TxEventBuilder" where
  "tx_R s t = t\<lparr>tb_r := hashFromHex s\<rparr>"

definition tx_S :: "string \<Rightarrow> TxEventBuilder \<Rightarrow> TxEventBuilder" where
  "tx_S s t = t\<lparr>tb_s := hashFromHex s\<rparr>"

definition tx_Defaults :: "TxEventBuilder \<Rightarrow> TxEventBuilder" where
  "tx_Defaults t =
     (let t = tx_Type TxTypeLegacy t;
          t = tx_Hash (''0x'' @ replicate 64 CHR ''0'') t;
          t = tx_Value (Some 100) t;
          t = tx_Gas 21000 t;
          t = tx_GasPrice (Some 10) t;
          t = tx_Nonce 0 t;
          t = tx_MaxFeePerGas (Some 20) t
      in tx_MaxPriorityFeePerGas (Some 2) t)"

text \<open>\<open>other.To[:]\<close> dereferences the recipient, which is nil for a contract creation.\<close>

definition tx_DefaultsFrom :: "TxEvent \<Rightarrow> TxEventBuilder \<Rightarrow> go_panic + TxEventBuilder" where
  "tx_DefaultsFrom other t =
     (case te_To other of
        None \<Rightarrow> Inl NilDereference
      | Some addr \<Rightarrow>
          let t = tx_Type (te_Type other) t;
              t = tx_Hash (hex_EncodeToString (te_Hash other)) t;
              t = tx_From (hex_EncodeToString (te_From other)) t;
              t = tx_To (hex_EncodeToString addr) t;
              t = tx_Value (te_Value other) t;
              t = tx_Gas (te_Gas other) t;
              t = tx_GasPrice (te_GasPrice other) t;
              t = tx_Nonce (te_Nonce other) t;
              t = tx_MaxFeePerGas (te_MaxFeePerGas other) t
          in Inr (tx_MaxPriorityFeePerGas (te_MaxPriorityFeePerGas other) t))"

definition NewTxEventBuilderFrom :: "TxEvent \<Rightarrow> go_panic + TxEventBuilder" where
  "NewTxEventBuilderFrom other = tx_DefaultsFrom other new_TxEventBuilder"

definition tx_Build :: "TxEventBuilder \<Rightarrow> TxEvent" where
  "tx_Build t = \<lparr>te_Type = tb_txType t, te_Hash = tb_hash t, te_From = tb_from t, te_To = Some (tb_to t),
     te_Input = tb_data t, te_Value = tb_value t, te_Gas = tb_gas t, te_GasPrice = tb_gasPrice t,
     te_Nonce = tb_nonce t, te_Index = 0, te_V = tb_v t, te_R = tb_r t, te_S = tb_s t,
     te_MaxFeePerGas = tb_maxFeePerGas t, te_MaxPriorityFeePerGas = tb_maxPriorityFeePerGas t,
     te_AccessList = tb_accessList t, te_BlobGasFeeCap = tb_blobGasFeeCap t,
     te_BlobHashes = tb_blobHashes t, te_SetCodeAuthorizations = tb_setCodeAuthorizations t\<rparr>"

lemmas tx_setters = tx_Type_def tx_Hash_def tx_From_def tx_To_def tx_Value_def tx_Gas_def tx_GasPrice_def
  tx_Nonce_def tx_Data_def tx_MaxFeePerGas_def tx_MaxPriorityFeePerGas_def tx_AccessList_def
  tx_BlobGasFeeCap_def tx_BlobHashes_def tx_SetCodeAuthorizations_def tx_V_def tx_R_def tx_S_def

text \<open>A Go array of the event's type: the lengths Go's type system fixes.\<close>

definition sized_event :: "TxEvent \<Rightarrow> bool" where
  "sized_event e \<longleftrightarrow> is_bytes32 (te_Hash e) \<and> is_bytes20 (te_From e)
     \<and> (case te_To e of None \<Rightarrow> True | Some a \<Rightarrow> is_bytes20 a)"

text \<open>
  C40. A builder started from an event rebuilds ten fields of it: type, hash, sender, recipient, value, gas,
  gas price, nonce and the two fee caps, the hash and the addresses through their hex text. The
  rest is not taken over: index, input, signature, access list, blobs and authorizations come out
  empty. For a contract creation it panics instead.
\<close>

theorem NewTxEventBuilderFrom_spec:
  assumes "sized_event e"
  shows "case te_To e of
      None \<Rightarrow> NewTxEventBuilderFrom e = Inl NilDereference
    | Some addr \<Rightarrow> (\<exists>b. NewTxEventBuilderFrom e = Inr b
        \<and> tx_Build b = e\<lparr>te_Input := [], te_Index := 0, te_V := [], te_R := EmptyHash, te_S := EmptyHash,
            te_AccessList := [], te_BlobGasFeeCap := None, te_BlobHashes := [],
            te_SetCodeAuthorizations := []\<rparr>)"
  using assms
  by (auto simp: NewTxEventBuilderFrom_def tx_DefaultsFrom_def tx_Build_def tx_setters Let_def
      new_TxEventBuilder_def sized_event_def is_bytes32_def is_bytes20_def hashFromHex_encode
      addressFromHex_encode EmptyHash_def split: option.splits)

end
