(* ===== verification/DebugViews.thy ===== *)
theory DebugViews
  imports Types
begin

section \<open>What the debug logs show (tracer_debug.go)\<close>

text \<open>
  The log levels and the view types, whose \<open>String\<close> methods render errors, addresses, call data and
  opcodes in log lines. A line written to standard error is given as the format and the arguments
  passed to \<open>fmt.Fprintf\<close>.
\<close>

subsection \<open>Levels\<close>

text \<open>\<open>strings.ToLower\<close> on ASCII text.\<close>

definition to_lower :: "char \<Rightarrow> char" where
  "to_lower c = (let n = of_char c :: nat in if 65 \<le> n \<and> n \<le> 90 then char_of (n + 32) else c)"

definition tracerLogLevel :: "string \<Rightarrow> string" where
  "tracerLogLevel env = map to_lower env"

definition isInfoEnabled :: "string \<Rightarrow> bool" where
  "isInfoEnabled level \<longleftrightarrow>
     level = ''info'' \<or> level = ''debug'' \<or> level = ''trace'' \<or> level = ''trace_full''"

definition isDebugEnabled :: "string \<Rightarrow> bool" where
  "isDebugEnabled level \<longleftrightarrow> level = ''debug'' \<or> level = ''trace'' \<or> level = ''trace_full''"

definition isTraceEnabled :: "string \<Rightarrow> bool" where
  "isTraceEnabled level \<longleftrightarrow> level = ''trace'' \<or> level = ''trace_full''"

definition isTraceFullEnabled :: "string \<Rightarrow> bool" where
  "isTraceFullEnabled level \<longleftrightarrow> level = ''trace_full''"

lemma levels_nested:
  "isTraceFullEnabled level \<Longrightarrow> isTraceEnabled level"
  "isTraceEnabled level \<Longrightarrow> isDebugEnabled level"
  "isDebugEnabled level \<Longrightarrow> isInfoEnabled level"
  by (auto simp: isTraceFullEnabled_def isTraceEnabled_def isDebugEnabled_def isInfoEnabled_def)

subsection \<open>The log functions\<close>

text \<open>Standard error, as the formats and arguments printed to it.\<close>

type_synonym 'a stderr = "(string \<times> 'a list) list"

definition Fprintf :: "string \<Rightarrow> 'a list \<Rightarrow> 'a stderr \<Rightarrow> 'a stderr" where
  "Fprintf format args err = err @ [(format, args)]"

definition firehoseInfo :: "string \<Rightarrow> string \<Rightarrow> 'a list \<Rightarrow> 'a stderr \<Rightarrow> 'a stderr" where
  "firehoseInfo level msg args err =
     (if isInfoEnabled level then Fprintf (''[Firehose] '' @ msg @ [CHR 0x0A]) args err else err)"

definition firehoseDebug :: "string \<Rightarrow> string \<Rightarrow> 'a list \<Rightarrow> 'a stderr \<Rightarrow> 'a stderr" where
  "firehoseDebug level msg args err =
     (if isDebugEnabled level then Fprintf (''[Firehose] '' @ msg @ [CHR 0x0A]) args err else err)"

definition firehoseTrace :: "string \<Rightarrow> string \<Rightarrow> 'a list \<Rightarrow> 'a stderr \<Rightarrow> 'a stderr" where
  "firehoseTrace level msg args err =
     (if isTraceEnabled level then Fprintf (''[Firehose] '' @ msg @ [CHR 0x0A]) args err else err)"

definition firehoseTraceFull :: "string \<Rightarrow> string \<Rightarrow> 'a list \<Rightarrow> 'a stderr \<Rightarrow> 'a stderr" where
  "firehoseTraceFull level msg args err =
     (if isTraceFullEnabled level then Fprintf (''[Firehose] '' @ msg @ [CHR 0x0A]) args err else err)"

text \<open>A message shown at one level is shown at every more verbose one.\<close>

lemma logs_nested:
  "firehoseTraceFull level msg args err \<noteq> err \<Longrightarrow> firehoseTrace level msg args err = firehoseTraceFull level msg args err"
  "firehoseTrace level msg args err \<noteq> err \<Longrightarrow> firehoseDebug level msg args err = firehoseTrace level msg args err"
  "firehoseDebug level msg args err \<noteq> err \<Longrightarrow> firehoseInfo level msg args err = firehoseDebug level msg args err"
  using levels_nested by (auto simp: firehoseInfo_def firehoseDebug_def firehoseTrace_def firehoseTraceFull_def
      split: if_splits)

subsection \<open>Views\<close>

definition errorView_String :: "go_error option \<Rightarrow> string" where
  "errorView_String err =
     (case err of None \<Rightarrow> ''<no error>'' | Some e \<Rightarrow> CHR 0x22 # err_text e @ [CHR 0x22])"

definition shortenAddress :: "bytes \<Rightarrow> string" where
  "shortenAddress addr =
     (let full = hex_EncodeToString addr
      in if length full < 10 then full
         else ''0x'' @ take 4 full @ ''..'' @ drop (length full - 4) full)"

definition shortAddressView_String :: "bytes option \<Rightarrow> string" where
  "shortAddressView_String a = (case a of None \<Rightarrow> ''<nil>'' | Some addr \<Rightarrow> shortenAddress addr)"

definition inputView_String :: "bytes \<Rightarrow> string" where
  "inputView_String b =
     (if length b = 0 then ''<empty>''
      else if length b < 4 then hex_EncodeToString b
      else
        let method = take 4 b;
            rest = drop 4 b
        in if length rest mod 32 = 0
           then hex_EncodeToString method @ '' ('' @ dec_digits (length rest div 32) @ '' params)''
           else dec_digits (length b) @ '' bytes'')"

definition outputView_String :: "bytes \<Rightarrow> string" where
  "outputView_String b =
     (if length b = 0 then ''<empty>'' else dec_digits (length b) @ '' bytes'')"

subsection \<open>Opcode names\<close>

definition opCodeNames :: "(byte \<times> string) list" where
  "opCodeNames =
     [(0x00, ''STOP''), (0x01, ''ADD''), (0x02, ''MUL''), (0x03, ''SUB''), (0x04, ''DIV''),
      (0x05, ''SDIV''), (0x06, ''MOD''), (0x07, ''SMOD''), (0x08, ''ADDMOD''), (0x09, ''MULMOD''),
      (0x0a, ''EXP''), (0x0b, ''SIGNEXTEND''), (0x10, ''LT''), (0x11, ''GT''), (0x12, ''SLT''),
      (0x13, ''SGT''), (0x14, ''EQ''), (0x15, ''ISZERO''), (0x16, ''AND''), (0x17, ''OR''),
      (0x18, ''XOR''), (0x19, ''NOT''), (0x1a, ''BYTE''), (0x1b, ''SHL''), (0x1c, ''SHR''),
      (0x1d, ''SAR''), (0x20, ''KECCAK256''), (0x30, ''ADDRESS''), (0x31, ''BALANCE''),
      (0x32, ''ORIGIN''), (0x33, ''CALLER''), (0x34, ''CALLVALUE''), (0x35, ''CALLDATALOAD''),
      (0x36, ''CALLDATASIZE''), (0x37, ''CALLDATACOPY''), (0x38, ''CODESIZE''),
      (0x39, ''CODECOPY''), (0x3a, ''GASPRICE''), (0x3b, ''EXTCODESIZE''),
      (0x3c, ''EXTCODECOPY''), (0x3d, ''RETURNDATASIZE''), (0x3e, ''RETURNDATACOPY''),
      (0x3f, ''EXTCODEHASH''), (0x40, ''BLOCKHASH''), (0x41, ''COINBASE''), (0x42, ''TIMESTAMP''),
      (0x43, ''NUMBER''), (0x44, ''PREVRANDAO''), (0x45, ''GASLIMIT''), (0x46, ''CHAINID''),
      (0x47, ''SELFBALANCE''), (0x48, ''BASEFEE''), (0x49, ''BLOBHASH''), (0x4a, ''BLOBBASEFEE''),
      (0x50, ''POP''), (0x51, ''MLOAD''), (0x52, ''MSTORE''), (0x53, ''MSTORE8''),
      (0x54, ''SLOAD''), (0x55, ''SSTORE''), (0x56, ''JUMP''), (0x57, ''JUMPI''), (0x58, ''PC''),
      (0x59, ''MSIZE''), (0x5a, ''GAS''), (0x5b, ''JUMPDEST''), (0x5c, ''TLOAD''),
      (0x5d, ''TSTORE''), (0x5e, ''MCOPY''), (0x5f, ''PUSH0''), (0x60, ''PUSH1''),
      (0x61, ''PUSH2''), (0x62, ''PUSH3''), (0x63, ''PUSH4''), (0x64, ''PUSH5''),
      (0x65, ''PUSH6''), (0x66, ''PUSH7''), (0x67, ''PUSH8''), (0x68, ''PUSH9''),
      (0x69, ''PUSH10''), (0x6a, ''PUSH11''), (0x6b, ''PUSH12''), (0x6c, ''PUSH13''),
      (0x6d, ''PUSH14''), (0x6e, ''PUSH15''), (0x6f, ''PUSH16''), (0x70, ''PUSH17''),
      (0x71, ''PUSH18''), (0x72, ''PUSH19''), (0x73, ''PUSH20''), (0x74, ''PUSH21''),
      (0x75, ''PUSH22''), (0x76, ''PUSH23''), (0x77, ''PUSH24''), (0x78, ''PUSH25''),
      (0x79, ''PUSH26''), (0x7a, ''PUSH27''), (0x7b, ''PUSH28''), (0x7c, ''PUSH29''),
      (0x7d, ''PUSH30''), (0x7e, ''PUSH31''), (0x7f, ''PUSH32''), (0x80, ''DUP1''),
      (0x81, ''DUP2''), (0x82, ''DUP3''), (0x83, ''DUP4''), (0x84, ''DUP5''), (0x85, ''DUP6''),
      (0x86, ''DUP7''), (0x87, ''DUP8''), (0x88, ''DUP9''), (0x89, ''DUP10''), (0x8a, ''DUP11''),
      (0x8b, ''DUP12''), (0x8c, ''DUP13''), (0x8d, ''DUP14''), (0x8e, ''DUP15''),
      (0x8f, ''DUP16''), (0x90, ''SWAP1''), (0x91, ''SWAP2''), (0x92, ''SWAP3''),
      (0x93, ''SWAP4''), (0x94, ''SWAP5''), (0x95, ''SWAP6''), (0x96, ''SWAP7''),
      (0x97, ''SWAP8''), (0x98, ''SWAP9''), (0x99, ''SWAP10''), (0x9a, ''SWAP11''),
      (0x9b, ''SWAP12''), (0x9c, ''SWAP13''), (0x9d, ''SWAP14''), (0x9e, ''SWAP15''),
      (0x9f, ''SWAP16''), (0xa0, ''LOG0''), (0xa1, ''LOG1''), (0xa2, ''LOG2''), (0xa3, ''LOG3''),
      (0xa4, ''LOG4''), (0xf0, ''CREATE''), (0xf1, ''CALL''), (0xf2, ''CALLCODE''),
      (0xf3, ''RETURN''), (0xf4, ''DELEGATECALL''), (0xf5, ''CREATE2''), (0xfa, ''STATICCALL''),
      (0xfd, ''REVERT''), (0xfe, ''INVALID''), (0xff, ''SELFDESTRUCT'')]"

text \<open>\<open>fmt.Sprintf("0x%02x", byte(o))\<close> for an opcode without a name.\<close>

definition opCodeView_String :: "byte \<Rightarrow> string" where
  "opCodeView_String o1 =
     (case map_of opCodeNames o1 of Some name \<Rightarrow> name | None \<Rightarrow> ''0x'' @ hex_pair o1)"

text \<open>A more verbose level logs all that a less verbose one does.\<close>

lemma log_levels:
  "isTraceFullEnabled level \<Longrightarrow> isTraceEnabled level"
  "isTraceEnabled level \<Longrightarrow> isDebugEnabled level"
  "isDebugEnabled level \<Longrightarrow> isInfoEnabled level"
  by (auto simp: isInfoEnabled_def isDebugEnabled_def isTraceEnabled_def isTraceFullEnabled_def)

text \<open>A shortened address shows the first two and the last two bytes.\<close>

lemma hex_append: "hex_EncodeToString (xs @ ys) = hex_EncodeToString xs @ hex_EncodeToString ys"
  by (simp add: hex_EncodeToString_def)

lemma shortenAddress_ends:
  assumes "length first2 = 2" and "length middle = 16" and "length last2 = 2"
  shows "shortenAddress (first2 @ middle @ last2)
    = ''0x'' @ hex_EncodeToString first2 @ ''..'' @ hex_EncodeToString last2"
  using assms by (simp add: shortenAddress_def hex_append Let_def)

end
