(* ===== verification/Printer.thy ===== *)
theory Printer
  imports TracerBlock
begin

section \<open>The output stream (tracer_printer.go)\<close>

text \<open>
  Rendering a block as a \<open>FIRE BLOCK\<close> line and writing bytes to the output. The protobuf encoder, the
  base64 encoder and the block's time in nanoseconds come from packages that are not part of the
  repository: they are parameters. The output writer is an \<open>io.Writer\<close>: a function from its state
  and the bytes to the number written, the error and its next state.
\<close>

record Encoders =
  en_MarshalBlock :: "Block \<Rightarrow> go_error + bytes"
  en_base64 :: "bytes \<Rightarrow> string"
  en_UnixNano :: "Block \<Rightarrow> int"

subsection \<open>The FIRE BLOCK line\<close>

definition render :: "Encoders \<Rightarrow> blockOutput \<Rightarrow> go_error + string" where
  "render en out =
     (let block = bo_block out in
      bindR (en_MarshalBlock en block) (\<lambda>payload.
        let previousNum = (if blk_Number block > 0 then blk_Number block - 1 else 0);
            line = ''FIRE BLOCK '';
            line = AppendUint line (blk_Number block);
            line = line @ '' '';
            line = AppendUint line (bo_printedFlashBlockIndex out);
            line = line @ '' '';
            line = line @ hex_EncodeToString (blk_Hash block);
            line = line @ '' '';
            line = AppendUint line previousNum;
            line = line @ '' '';
            line = line @ hex_EncodeToString (hd_ParentHash (blk_Header block));
            line = line @ '' '';
            line = AppendUint line (bo_libNum out);
            line = line @ '' '';
            line = AppendInt line (en_UnixNano en block);
            line = line @ '' '';
            line = line @ en_base64 en payload;
            line = line @ [CHR 0x0A]
        in Inr line))"

text \<open>A reader splits a line at the spaces.\<close>

fun fields :: "string \<Rightarrow> string list" where
  "fields [] = [[]]"
| "fields (c # cs) =
     (if c = CHR '' '' then [] # fields cs else (c # hd (fields cs)) # tl (fields cs))"

lemma fields_ne [simp]: "fields s \<noteq> []"
  by (cases s) auto

lemma fields_space: "CHR '' '' \<notin> set f \<Longrightarrow> fields (f @ CHR '' '' # s) = f # fields s"
  by (induction f) auto

definition no_space :: "string \<Rightarrow> bool" where
  "no_space s \<longleftrightarrow> CHR '' '' \<notin> set s"

lemma no_space_dec [simp]: "no_space (dec_digits n)"
proof -
  have "dec_char d \<noteq> CHR '' ''" if "d < 10" for d
    using char_val_dec_char [OF that] by (auto simp: char_val_def)
  then show ?thesis using dec_digits_chars by (fastforce simp: no_space_def)
qed

lemma no_space_hex [simp]: "no_space (hex_EncodeToString bs)"
proof -
  have "hex_char n \<noteq> CHR '' ''" if "n < 16" for n
    using char_val_hex_char [OF that] by (auto simp: char_val_def split: if_splits)
  then show ?thesis using hex_chars by (fastforce simp: no_space_def)
qed

definition dec_int :: "int \<Rightarrow> string" where
  "dec_int v = AppendInt [] v"

lemma no_space_dec_int [simp]: "no_space (dec_int v)"
  using no_space_dec by (auto simp: dec_int_def AppendInt_def no_space_def)

text \<open>The nine fields before the payload.\<close>

definition header_fields :: "Encoders \<Rightarrow> blockOutput \<Rightarrow> string list" where
  "header_fields en out =
     (let block = bo_block out in
      [''FIRE'', ''BLOCK'', dec_digits (unat (blk_Number block)),
       dec_digits (unat (bo_printedFlashBlockIndex out)), hex_EncodeToString (blk_Hash block),
       dec_digits (unat (blk_Number block) - 1),
       hex_EncodeToString (hd_ParentHash (blk_Header block)),
       dec_digits (unat (bo_libNum out)), dec_int (en_UnixNano en block)])"

fun spaced :: "string list \<Rightarrow> string \<Rightarrow> string" where
  "spaced [] rest = rest"
| "spaced (f # fs) rest = f @ CHR '' '' # spaced fs rest"

lemma fields_spaced: "list_all no_space fs \<Longrightarrow> fields (spaced fs rest) = fs @ fields rest"
  by (induction fs) (auto simp: fields_space no_space_def)

lemma unat_prev:
  fixes n :: u64
  shows "unat (if n > 0 then n - 1 else 0) = unat n - 1"
proof (cases "n = 0")
  case True
  then show ?thesis by simp
next
  case False
  then have "0 < n" by (simp add: word_gt_0)
  moreover have "unat (n - 1) = unat n - 1" using False by (rule unat_minus_one)
  ultimately show ?thesis by simp
qed

lemma render_spaced:
  "render en out = bindR (en_MarshalBlock en (bo_block out))
     (\<lambda>payload. Inr (spaced (header_fields en out) (en_base64 en payload @ [CHR 0x0A])))"
  by (simp add: render_def header_fields_def AppendUint_def AppendInt_def dec_int_def Let_def
      unat_prev cong: if_cong)

lemma header_fields_no_space: "list_all no_space (header_fields en out)"
proof -
  have "no_space ''FIRE''" "no_space ''BLOCK''" by (simp_all add: no_space_def)
  then show ?thesis by (simp add: header_fields_def Let_def)
qed

text \<open>
  C33. A rendered line splits at the spaces into \<open>FIRE\<close>, \<open>BLOCK\<close>, seven header fields and the payload
  with its newline, and the decimal fields read back as the block number, the printed flash
  block index, the previous number (0 for block 0, with no wrap-around) and the LIB number.
\<close>

theorem render_parses_back:
  assumes "render en out = Inr line"
  shows "\<exists>payload. en_MarshalBlock en (bo_block out) = Inr payload
     \<and> fields line = header_fields en out @ fields (en_base64 en payload @ [CHR 0x0A])
     \<and> dec_parse (fields line ! 2) = unat (blk_Number (bo_block out))
     \<and> dec_parse (fields line ! 3) = unat (bo_printedFlashBlockIndex out)
     \<and> fields line ! 4 = hex_EncodeToString (blk_Hash (bo_block out))
     \<and> dec_parse (fields line ! 5) = unat (blk_Number (bo_block out)) - 1
     \<and> dec_parse (fields line ! 7) = unat (bo_libNum out)"
proof -
  from assms obtain payload where m: "en_MarshalBlock en (bo_block out) = Inr payload"
    and l: "line = spaced (header_fields en out) (en_base64 en payload @ [CHR 0x0A])"
    by (auto simp: render_spaced hook_simps)
  have "fields line = header_fields en out @ fields (en_base64 en payload @ [CHR 0x0A])"
    unfolding l by (rule fields_spaced [OF header_fields_no_space])
  with m show ?thesis by (simp add: header_fields_def Let_def dec_parse_digits)
qed

subsection \<open>Writing with retries\<close>

type_synonym 'w writer = "'w \<Rightarrow> string \<Rightarrow> nat \<times> go_error option \<times> 'w"

datatype 'w flush_result =
    Flushed 'w
  | FlushFailed nat "go_error option" 'w
  | FlushSliceOutOfRange

definition maxWriteAttempts :: nat where "maxWriteAttempts = 10"

text \<open>
  The loop, on the attempts that are left. \<open>data[written:]\<close> panics if the writer claims to have
  written more than it was given.
\<close>

fun flush_loop :: "'w writer \<Rightarrow> nat \<Rightarrow> string \<Rightarrow> go_error option \<Rightarrow> 'w \<Rightarrow> 'w flush_result" where
  "flush_loop wr 0 data err w = FlushFailed (length data) err w"
| "flush_loop wr (Suc attempts) data err w =
     (case wr w data of (written, err, w) \<Rightarrow>
        if written > length data then FlushSliceOutOfRange
        else if length (drop written data) = 0 then Flushed w
        else flush_loop wr attempts (drop written data) err w)"

definition flushToFirehose :: "'w writer \<Rightarrow> string \<Rightarrow> 'w \<Rightarrow> 'w flush_result" where
  "flushToFirehose wr data w = flush_loop wr maxWriteAttempts data None w"

definition printToFirehose :: "'w writer \<Rightarrow> string list \<Rightarrow> 'w \<Rightarrow> 'w flush_result" where
  "printToFirehose wr args w = flushToFirehose wr (Sprintln args) w"

definition writeBlock :: "Encoders \<Rightarrow> 'w writer \<Rightarrow> blockOutput \<Rightarrow> 'w \<Rightarrow> go_error + 'w flush_result" where
  "writeBlock en wr out w = bindR (render en out) (\<lambda>line. Inr (flushToFirehose wr line w))"

subsection \<open>The interface: an io.Writer\<close>

text \<open>
  What \<open>io.Writer\<close> promises: \<open>0 <= n <= len(p)\<close> bytes of \<open>p\<close>, the first ones, reach the stream. The
  stream a writer state stands for is \<open>sink\<close>.
\<close>

locale io_writer =
  fixes wr :: "'w writer" and sink :: "'w \<Rightarrow> string"
  assumes written_bound: "wr w data = (n, err, w') \<Longrightarrow> n \<le> length data"
    and written_prefix: "wr w data = (n, err, w') \<Longrightarrow> sink w' = sink w @ take n data"
begin

lemma flush_loop_Flushed: "flush_loop wr k data err w = Flushed w' \<Longrightarrow> sink w' = sink w @ data"
proof (induction k arbitrary: data err w)
  case 0
  then show ?case by simp
next
  case (Suc k)
  obtain n e v where v: "wr w data = (n, e, v)" by (cases "wr w data") auto
  note n = written_bound [OF v] and s = written_prefix [OF v]
  show ?case
  proof (cases "length (drop n data) = 0")
    case True
    with Suc.prems v n s show ?thesis by auto
  next
    case False
    with Suc.prems v n have "flush_loop wr k (drop n data) e v = Flushed w'" by simp
    from Suc.IH [OF this] s show ?thesis by simp
  qed
qed

lemma flush_loop_Failed:
  "flush_loop wr k data err w = FlushFailed m e w' \<Longrightarrow> data \<noteq> [] \<Longrightarrow>
     m \<noteq> 0 \<and> m \<le> length data \<and> sink w' = sink w @ take (length data - m) data"
proof (induction k arbitrary: data err w)
  case 0
  then show ?case by auto
next
  case (Suc k)
  obtain n e1 v where v: "wr w data = (n, e1, v)" by (cases "wr w data") auto
  note n = written_bound [OF v] and s = written_prefix [OF v]
  from Suc.prems v n have short: "n < length data"
    and rest: "flush_loop wr k (drop n data) e1 v = FlushFailed m e w'"
    by (auto split: if_splits)
  from Suc.IH [OF rest] short
  have ih: "m \<noteq> 0" "m \<le> length data - n" "sink w' = sink v @ take (length data - n - m) (drop n data)"
    by auto
  moreover have "take n data @ take (length data - n - m) (drop n data) = take (length data - m) data"
    using ih(2) short take_add [of n "length data - n - m" data] by simp
  ultimately show ?case using s short by simp
qed

lemma flush_loop_in_range: "flush_loop wr k data err w \<noteq> FlushSliceOutOfRange"
proof (induction k arbitrary: data err w)
  case 0
  then show ?case by simp
next
  case (Suc k)
  obtain n e v where v: "wr w data = (n, e, v)" by (cases "wr w data") auto
  with written_bound [OF v] Suc.IH show ?case by simp
qed

end

text \<open>A \<open>bytes.Buffer\<close>, the writer tests and \<open>GetTestingOutputBuffer\<close> use, writes everything.\<close>

definition buffer_write :: "string writer" where
  "buffer_write w data = (length data, None, w @ data)"

interpretation buffer: io_writer buffer_write "\<lambda>w. w"
  by unfold_locales (auto simp: buffer_write_def)

text \<open>
  A writer whose writes fall short: a stream with a quota of bytes per call (a pipe that fills up).
\<close>

definition quota_write :: "(nat list \<times> string) writer" where
  "quota_write w data =
     (case w of ([], s) \<Rightarrow> (length data, None, ([], s @ data))
      | (q # qs, s) \<Rightarrow> (min q (length data), None, (qs, s @ take (min q (length data)) data)))"

interpretation quota: io_writer quota_write snd
  by unfold_locales (auto simp: quota_write_def split: prod.splits list.splits)

definition writes_prefix :: "'w writer \<Rightarrow> ('w \<Rightarrow> string) \<Rightarrow> bool" where
  "writes_prefix wr sink \<longleftrightarrow> (\<forall>w data n err w'. wr w data = (n, err, w') \<longrightarrow>
     n \<le> length data \<and> sink w' = sink w @ take n data)"

lemma writes_prefix_io_writer: "writes_prefix wr sink \<longleftrightarrow> io_writer wr sink"
  unfolding writes_prefix_def io_writer_def by blast

text \<open>
  C24. \<open>flushToFirehose\<close> over any \<open>io.Writer\<close>: either it returns and the stream has received exactly
  the data after what was there, or it panics after ten attempts, with a proper prefix written and
  the number of missing bytes reported; it never drops or repeats bytes in between.
\<close>

theorem flushToFirehose_all_or_panic:
  assumes "writes_prefix wr sink" and "data \<noteq> []"
  shows "case flushToFirehose wr data w of
      Flushed w' \<Rightarrow> sink w' = sink w @ data
    | FlushFailed missing err w' \<Rightarrow>
        0 < missing \<and> missing \<le> length data
        \<and> sink w' = sink w @ take (length data - missing) data
    | FlushSliceOutOfRange \<Rightarrow> False"
proof -
  note io = assms(1) [unfolded writes_prefix_io_writer]
  show ?thesis
    using io_writer.flush_loop_Flushed [OF io, of maxWriteAttempts data None w]
      io_writer.flush_loop_Failed [OF io, of maxWriteAttempts data None w]
      io_writer.flush_loop_in_range [OF io, of maxWriteAttempts data None w] assms(2)
    by (auto simp: flushToFirehose_def split: flush_result.split)
qed

theorem flushToFirehose_all_or_panic_witness:
  "writes_prefix quota_write snd
   \<and> (\<exists>w'. flushToFirehose quota_write ''FIRE BLOCK'' ([2, 0, 3], []) = Flushed w'
          \<and> snd w' = ''FIRE BLOCK'')"
proof -
  have w: "writes_prefix quota_write snd"
    by (simp only: writes_prefix_io_writer) unfold_locales
  have returns: "case flushToFirehose quota_write ''FIRE BLOCK'' ([2, 0, 3], []) of
      Flushed w' \<Rightarrow> True | _ \<Rightarrow> False" by code_simp
  from flushToFirehose_all_or_panic [OF w, of "''FIRE BLOCK''" "([2, 0, 3], [])"] returns w
  show ?thesis
    by (cases "flushToFirehose quota_write ''FIRE BLOCK'' ([2, 0, 3], [])") simp_all
qed

end
