(* ===== verification/FlushQueue.thy ===== *)
theory FlushQueue
  imports Printer
begin

section \<open>The concurrent flush queue (concurrency.go)\<close>

text \<open>
  One producer, the tracer, pushes block outputs on a buffered channel; one worker takes them off
  and writes them; \<open>Close\<close> closes the channel and waits for the worker. The interleavings of the
  two are the sequences of the step relation \<open>fq_step\<close>; a step that the channel would block is not
  enabled.
\<close>

record ConcurrentFlushQueue =
  fq_bufferSize :: nat
  fq_jobQueue :: "blockOutput list"
  fq_current :: "blockOutput option"
  fq_written :: "blockOutput list"
  fq_closed :: bool
  fq_workerDone :: bool

definition NewConcurrentFlushQueue :: "nat \<Rightarrow> ConcurrentFlushQueue" where
  "NewConcurrentFlushQueue bufferSize = \<lparr>fq_bufferSize = bufferSize, fq_jobQueue = [],
     fq_current = None, fq_written = [], fq_closed = False, fq_workerDone = False\<rparr>"

datatype fq_event = EvPush blockOutput | EvReceive | EvPrinted | EvClose | EvWorkerExit

subsection \<open>Operations\<close>

text \<open>\<open>jobQueue <- out\<close>: \<open>Inl True\<close> is the panic of a send on a closed channel, \<open>Inl False\<close> blocks.\<close>

definition fq_Push :: "blockOutput \<Rightarrow> ConcurrentFlushQueue \<Rightarrow> bool + ConcurrentFlushQueue" where
  "fq_Push out q =
     (if fq_closed q then Inl True
      else if length (fq_jobQueue q) < fq_bufferSize q
      then Inr (q\<lparr>fq_jobQueue := fq_jobQueue q @ [out]\<rparr>)
      else Inl False)"

text \<open>One turn of the worker: receive, print what was received, or leave the closed empty channel.\<close>

definition fq_receive :: "ConcurrentFlushQueue \<Rightarrow> ConcurrentFlushQueue option" where
  "fq_receive q =
     (if fq_workerDone q \<or> fq_current q \<noteq> None then None
      else case fq_jobQueue q of
             [] \<Rightarrow> None
           | out # rest \<Rightarrow> Some (q\<lparr>fq_jobQueue := rest, fq_current := Some out\<rparr>))"

definition fq_print :: "ConcurrentFlushQueue \<Rightarrow> ConcurrentFlushQueue option" where
  "fq_print q =
     (case fq_current q of
        None \<Rightarrow> None
      | Some out \<Rightarrow> Some (q\<lparr>fq_written := fq_written q @ [out], fq_current := None\<rparr>))"

definition fq_exit :: "ConcurrentFlushQueue \<Rightarrow> ConcurrentFlushQueue option" where
  "fq_exit q =
     (if fq_closed q \<and> fq_jobQueue q = [] \<and> fq_current q = None \<and> \<not> fq_workerDone q
      then Some (q\<lparr>fq_workerDone := True\<rparr>) else None)"

text \<open>\<open>Close\<close>, up to the wait: the first call closes the channel, later ones do nothing.\<close>

definition fq_Close :: "ConcurrentFlushQueue \<Rightarrow> ConcurrentFlushQueue" where
  "fq_Close q = (if fq_closed q then q else q\<lparr>fq_closed := True\<rparr>)"

lemmas fq_ops = fq_Push_def fq_receive_def fq_print_def fq_exit_def fq_Close_def

inductive fq_step :: "ConcurrentFlushQueue \<Rightarrow> fq_event \<Rightarrow> ConcurrentFlushQueue \<Rightarrow> bool" where
  push: "fq_Push out q = Inr q' \<Longrightarrow> fq_step q (EvPush out) q'"
| receive: "fq_receive q = Some q' \<Longrightarrow> fq_step q EvReceive q'"
| printed: "fq_print q = Some q' \<Longrightarrow> fq_step q EvPrinted q'"
| close: "fq_step q EvClose (fq_Close q)"
| exit: "fq_exit q = Some q' \<Longrightarrow> fq_step q EvWorkerExit q'"

inductive_cases fq_step_cases: "fq_step q e q'"

inductive fq_run :: "ConcurrentFlushQueue \<Rightarrow> fq_event list \<Rightarrow> ConcurrentFlushQueue \<Rightarrow> bool" where
  refl: "fq_run q [] q"
| step: "fq_run q es q' \<Longrightarrow> fq_step q' e q'' \<Longrightarrow> fq_run q (es @ [e]) q''"

fun pushed_by :: "fq_event \<Rightarrow> blockOutput list" where
  "pushed_by (EvPush out) = [out]"
| "pushed_by _ = []"

definition pushed :: "fq_event list \<Rightarrow> blockOutput list" where
  "pushed es = concat (map pushed_by es)"

subsection \<open>The interface: a first-in first-out pipe\<close>

text \<open>
  \<open>contents\<close> is everything that went in, oldest first. A producer step appends to it, a consumer
  step leaves it unchanged, and what came out is a prefix of it.
\<close>

locale fifo_pipe =
  fixes step :: "'q \<Rightarrow> 'e \<Rightarrow> 'q \<Rightarrow> bool" and contents :: "'q \<Rightarrow> 'a list"
    and out :: "'q \<Rightarrow> 'a list" and pending :: "'q \<Rightarrow> 'a list" and input :: "'e \<Rightarrow> 'a list"
  assumes step_law: "step q e q' \<Longrightarrow> contents q' = contents q @ input e"
    and contents_split: "contents q = out q @ pending q"
begin

inductive run :: "'q \<Rightarrow> 'e list \<Rightarrow> 'q \<Rightarrow> bool" where
  run_refl: "run q [] q"
| run_step: "run q es q' \<Longrightarrow> step q' e q'' \<Longrightarrow> run q (es @ [e]) q''"

lemma run_contents: "run q es q' \<Longrightarrow> contents q' = contents q @ concat (map input es)"
  by (induction rule: run.induct) (simp_all add: step_law)

lemma run_out:
  assumes "run q es q'" and "contents q = []"
  shows "out q' @ pending q' = concat (map input es)"
  using run_contents [OF assms(1)] assms(2) contents_split [of q'] by simp

end

definition fq_contents :: "ConcurrentFlushQueue \<Rightarrow> blockOutput list" where
  "fq_contents q = fq_written q @ (case fq_current q of None \<Rightarrow> [] | Some out \<Rightarrow> [out]) @ fq_jobQueue q"

definition fq_pending :: "ConcurrentFlushQueue \<Rightarrow> blockOutput list" where
  "fq_pending q = (case fq_current q of None \<Rightarrow> [] | Some out \<Rightarrow> [out]) @ fq_jobQueue q"

interpretation flush_fifo: fifo_pipe fq_step fq_contents fq_written fq_pending pushed_by
proof unfold_locales
  fix q e q'
  show "fq_step q e q' \<Longrightarrow> fq_contents q' = fq_contents q @ pushed_by e"
    by (erule fq_step_cases)
       (auto simp: fq_contents_def fq_ops split: option.splits list.splits if_splits)
qed (simp add: fq_contents_def fq_pending_def)

lemma fq_run_iff: "fq_run q es q' \<longleftrightarrow> flush_fifo.run q es q'"
proof
  show "fq_run q es q' \<Longrightarrow> flush_fifo.run q es q'"
    by (induction rule: fq_run.induct) (auto intro: flush_fifo.run.intros)
  show "flush_fifo.run q es q' \<Longrightarrow> fq_run q es q'"
    by (induction rule: flush_fifo.run.induct) (auto intro: fq_run.intros)
qed

subsection \<open>Order, and what Close guarantees\<close>

lemma fq_done_empty:
  assumes "fq_run (NewConcurrentFlushQueue n) es q"
  shows "fq_workerDone q \<longrightarrow> fq_closed q \<and> fq_pending q = []"
  using assms
proof (induction "NewConcurrentFlushQueue n" es q rule: fq_run.induct)
  case refl
  then show ?case by (simp add: NewConcurrentFlushQueue_def)
next
  case (step es q' e q'')
  from step(3,2) show ?case
    by (elim fq_step_cases)
       (auto simp: fq_pending_def fq_ops split: option.splits list.splits if_splits)
qed

lemma fq_run_order:
  assumes "fq_run (NewConcurrentFlushQueue n) es q"
  shows "fq_written q @ fq_pending q = pushed es"
proof -
  have run: "flush_fifo.run (NewConcurrentFlushQueue n) es q" using assms by (simp add: fq_run_iff)
  have "fq_contents (NewConcurrentFlushQueue n) = []"
    by (simp add: fq_contents_def NewConcurrentFlushQueue_def)
  from flush_fifo.run_out [OF run this] show ?thesis by (simp add: pushed_def)
qed

text \<open>
  C25. In every interleaving of pushes with the worker's turns, the blocks written, followed by the one
  being written and those queued, are exactly the blocks pushed, in the order of the pushes: no
  block is lost, duplicated or overtaken. Once the worker has left, so that \<open>Close\<close> returns, every
  block pushed has been written.
\<close>

theorem flush_queue_fifo:
  assumes "fq_run (NewConcurrentFlushQueue n) es q"
  shows "fq_written q @ fq_pending q = pushed es \<and> (fq_workerDone q \<longrightarrow> fq_written q = pushed es)"
  using fq_run_order [OF assms] fq_done_empty [OF assms] by auto

text \<open>The worker on its own, after \<open>Close\<close>: it takes turns until it leaves.\<close>

definition worker_turn :: "ConcurrentFlushQueue \<Rightarrow> (fq_event \<times> ConcurrentFlushQueue) option" where
  "worker_turn q =
     (case fq_print q of
        Some q' \<Rightarrow> Some (EvPrinted, q')
      | None \<Rightarrow> (case fq_receive q of
                   Some q' \<Rightarrow> Some (EvReceive, q')
                 | None \<Rightarrow> (case fq_exit q of Some q' \<Rightarrow> Some (EvWorkerExit, q') | None \<Rightarrow> None)))"

definition worker_work :: "ConcurrentFlushQueue \<Rightarrow> nat" where
  "worker_work q = 2 * length (fq_jobQueue q) + (if fq_current q = None then 0 else 1)
     + (if fq_workerDone q then 0 else 1)"

lemma worker_turn_decreases: "worker_turn q = Some (e, q') \<Longrightarrow> worker_work q' < worker_work q"
  by (auto simp: worker_turn_def worker_work_def fq_ops split: option.splits if_splits list.splits)

function drain :: "ConcurrentFlushQueue \<Rightarrow> ConcurrentFlushQueue" where
  "drain q = (case worker_turn q of None \<Rightarrow> q | Some (e, q') \<Rightarrow> drain q')"
  by pat_completeness auto
termination
  by (relation "measure worker_work") (auto dest: worker_turn_decreases)

declare drain.simps [simp del]

lemma worker_turn_step: "worker_turn q = Some (e, q') \<Longrightarrow> fq_step q e q'"
  by (auto simp: worker_turn_def split: option.splits intro: fq_step.intros)

lemma worker_turn_inert: "worker_turn q = Some (e, q') \<Longrightarrow> fq_contents q' = fq_contents q
    \<and> fq_closed q' = fq_closed q"
  by (auto simp: worker_turn_def fq_contents_def fq_ops
      split: option.splits if_splits list.splits)

lemma drain_done:
  "fq_closed q \<Longrightarrow> (fq_workerDone q \<Longrightarrow> fq_pending q = []) \<Longrightarrow>
     fq_workerDone (drain q) \<and> fq_written (drain q) = fq_contents q"
proof (induction q rule: drain.induct)
  case (1 q)
  show ?case
  proof (cases "worker_turn q")
    case None
    then have "fq_workerDone q" using "1.prems"
      by (auto simp: worker_turn_def fq_ops split: option.splits list.splits if_splits)
    with None "1.prems" show ?thesis
      by (simp add: drain.simps [of q] fq_contents_def fq_pending_def)
  next
    case (Some eq)
    obtain e q' where eq: "eq = (e, q')" by (cases eq)
    note turn = Some [unfolded eq]
    have done': "fq_workerDone q' \<Longrightarrow> fq_pending q' = []"
      using turn "1.prems"
      by (auto simp: worker_turn_def fq_pending_def fq_ops
          split: option.splits list.splits if_splits)
    have "fq_workerDone (drain q') \<and> fq_written (drain q') = fq_contents q'"
      using "1.IH" [OF Some eq [symmetric]] worker_turn_inert [OF turn] "1.prems"(1) done' by simp
    then show ?thesis
      using worker_turn_inert [OF turn] Some eq by (simp add: drain.simps [of q])
  qed
qed

text \<open>
  C26. \<open>Close\<close> returns: from any reachable state of the queue, once closed, the worker's own turns end
  after finitely many steps with the worker gone and every block pushed written, in order.
\<close>

theorem close_drains:
  assumes "fq_run (NewConcurrentFlushQueue n) es q"
  shows "fq_workerDone (drain (fq_Close q)) \<and> fq_written (drain (fq_Close q)) = pushed es"
proof -
  have p: "fq_pending (fq_Close q) = fq_pending q" "fq_contents (fq_Close q) = fq_contents q"
    "fq_workerDone (fq_Close q) = fq_workerDone q" "fq_closed (fq_Close q)"
    by (simp_all add: fq_Close_def fq_pending_def fq_contents_def)
  have "fq_contents q = pushed es"
    using fq_run_order [OF assms] by (simp add: fq_contents_def fq_pending_def)
  with drain_done [of "fq_Close q"] p fq_done_empty [OF assms] show ?thesis by auto
qed

end
