(* ===== verification/TxSpec.thy ===== *)
theory TxSpec
  imports TracerTx
begin

section \<open>What the transaction hooks compute\<close>

text \<open>
  Contracts of the pieces of \<open>OnTxStart\<close> and \<open>completeTransaction\<close>: the effective gas price, the
  authorizations that are discarded, the receipt logs.
\<close>

subsection \<open>Effective gas price\<close>

text \<open>
  C36. For a transaction with EIP-1559 fields under a base fee it can pay, the effective price lies between
  the base fee and the fee cap, pays at most the offered tip on top of the base fee, and is one of
  the two: the cap, or base fee plus tip. The legacy types always pay the gas price.
\<close>

theorem effectiveGasPrice_bounds:
  assumes "te_MaxFeePerGas event = Some maxFee" and "te_MaxPriorityFeePerGas event = Some tip"
    and "te_Type event \<in> {TxTypeDynamicFee, TxTypeBlob, TxTypeSetCode}"
    and "0 \<le> tip" and "fee \<le> maxFee"
  shows "\<exists>price. computeEffectiveGasPrice event (Some fee) = Some price
    \<and> fee \<le> price \<and> price \<le> maxFee \<and> price - fee \<le> tip
    \<and> (price = maxFee \<or> price = fee + tip)
    \<and> computeEffectiveGasPrice (event\<lparr>te_Type := TxTypeLegacy\<rparr>) (Some fee) = te_GasPrice event"
  using assms
  by (auto simp: computeEffectiveGasPrice_def TxTypeDynamicFee_def TxTypeBlob_def TxTypeSetCode_def
      TxTypeLegacy_def Let_def)

theorem effectiveGasPrice_bounds_witness:
  "\<exists>price. computeEffectiveGasPrice
      \<lparr>te_Type = 2, te_Hash = [], te_From = [], te_To = None, te_Input = [], te_Value = None,
       te_Gas = 0, te_GasPrice = Some 7, te_Nonce = 0, te_Index = 0, te_V = [], te_R = [], te_S = [],
       te_MaxFeePerGas = Some 20, te_MaxPriorityFeePerGas = Some 2, te_AccessList = [],
       te_BlobGasFeeCap = None, te_BlobHashes = [], te_SetCodeAuthorizations = []\<rparr> (Some 10) = Some price
    \<and> 10 \<le> price \<and> price \<le> 20"
  using effectiveGasPrice_bounds [where maxFee = 20 and tip = 2 and fee = 10 and event =
      "\<lparr>te_Type = 2, te_Hash = [], te_From = [], te_To = None, te_Input = [], te_Value = None,
       te_Gas = 0, te_GasPrice = Some 7, te_Nonce = 0, te_Index = 0, te_V = [], te_R = [], te_S = [],
       te_MaxFeePerGas = Some 20, te_MaxPriorityFeePerGas = Some 2, te_AccessList = [],
       te_BlobGasFeeCap = None, te_BlobHashes = [], te_SetCodeAuthorizations = []\<rparr>"]
  by (auto simp: TxTypeDynamicFee_def)

subsection \<open>Discarded authorizations\<close>

text \<open>Authorizations compete for nonce changes only with those of the same authority and nonce.\<close>

definition auth_key :: "PbSetCodeAuthorization \<Rightarrow> bytes \<times> u64" where
  "auth_key auth = (ps_Authority auth, ps_Nonce auth)"

definition matching :: "NonceChange list \<Rightarrow> bytes \<times> u64 \<Rightarrow> nat set" where
  "matching changes k = {i. i < length changes \<and> nonce_change_matches (fst k) (snd k) (changes ! i)}"

text \<open>How many of the authorizations before this one have its key, and how many changes match it.\<close>

definition is_applied :: "NonceChange list \<Rightarrow> (bytes \<times> u64) list \<Rightarrow> PbSetCodeAuthorization \<Rightarrow> bool" where
  "is_applied changes earlier auth \<longleftrightarrow> ps_Authority auth \<noteq> []
     \<and> count_list earlier (auth_key auth) < card (matching changes (auth_key auth))"

lemma matching_finite [simp]: "finite (matching changes k)"
  by (simp add: matching_def)

lemma matching_disjoint: "k \<noteq> k' \<Longrightarrow> matching changes k \<inter> matching changes k' = {}"
  by (cases k; cases k') (auto simp: matching_def nonce_change_matches_def)

lemma find_from_Some:
  "findNonceChange_from n changes a nonce used = Some i \<Longrightarrow>
     n \<le> i \<and> i - n < length changes \<and> nonce_change_matches a nonce (changes ! (i - n)) \<and> i \<notin> set used"
proof (induction changes arbitrary: n)
  case Nil
  then show ?case by simp
next
  case (Cons c cs)
  show ?case
  proof (cases "nonce_change_matches a nonce c \<and> n \<notin> set used")
    case True
    with Cons.prems show ?thesis by auto
  next
    case False
    with Cons.prems have "findNonceChange_from (Suc n) cs a nonce used = Some i" by auto
    note ih = Cons.IH [OF this]
    then have "i - n = Suc (i - Suc n)" by linarith
    with ih show ?thesis by simp
  qed
qed

lemma find_from_None:
  "findNonceChange_from n changes a nonce used = None \<Longrightarrow>
     \<forall>j < length changes. nonce_change_matches a nonce (changes ! j) \<longrightarrow> n + j \<in> set used"
proof (induction changes arbitrary: n)
  case Nil
  then show ?case by simp
next
  case (Cons c cs)
  then have rest: "findNonceChange_from (Suc n) cs a nonce used = None"
    and first: "nonce_change_matches a nonce c \<longrightarrow> n \<in> set used" by (auto split: if_splits)
  show ?case
  proof (intro allI impI)
    fix j
    assume "j < length (c # cs)" and "nonce_change_matches a nonce ((c # cs) ! j)"
    then show "n + j \<in> set used" using first Cons.IH [OF rest] by (cases j) auto
  qed
qed

text \<open>The used positions: for each key, as many as there were earlier authorizations, up to the matches.\<close>

definition used_ok :: "NonceChange list \<Rightarrow> (bytes \<times> u64) list \<Rightarrow> nat list \<Rightarrow> bool" where
  "used_ok changes earlier used \<longleftrightarrow> (\<forall>k. fst k \<noteq> [] \<longrightarrow>
     card (matching changes k \<inter> set used) = min (count_list earlier k) (card (matching changes k)))"

lemma find_applied:
  assumes "used_ok changes earlier used" and "ps_Authority auth \<noteq> []"
  shows "case findNonceChange changes (ps_Authority auth) (ps_Nonce auth) used of
      None \<Rightarrow> \<not> is_applied changes earlier auth \<and> used_ok changes (earlier @ [auth_key auth]) used
    | Some i \<Rightarrow> is_applied changes earlier auth \<and> used_ok changes (earlier @ [auth_key auth]) (i # used)"
proof -
  let ?k = "auth_key auth"
  let ?M = "matching changes ?k"
  have inv: "card (?M \<inter> set used) = min (count_list earlier ?k) (card ?M)"
    using assms by (simp add: used_ok_def auth_key_def)
  show ?thesis
  proof (cases "findNonceChange changes (ps_Authority auth) (ps_Nonce auth) used")
    case None
    then have "?M \<subseteq> set used"
      using find_from_None [of 0 changes "ps_Authority auth" "ps_Nonce auth" used]
      by (auto simp: findNonceChange_def matching_def auth_key_def)
    then have full: "card ?M \<le> count_list earlier ?k" using inv by (simp add: Int_absorb2)
    then have "used_ok changes (earlier @ [?k]) used"
      using assms(1) by (auto simp: used_ok_def)
    with None full show ?thesis by (simp add: is_applied_def)
  next
    case (Some i)
    have i: "i \<in> ?M" "i \<notin> set used"
      using find_from_Some [of 0 changes "ps_Authority auth" "ps_Nonce auth" used i] Some
      by (auto simp: findNonceChange_def matching_def auth_key_def)
    then have "card (?M \<inter> set used) < card ?M"
      by (intro psubset_card_mono) auto
    then have lt: "count_list earlier ?k < card ?M" using inv by simp
    have "used_ok changes (earlier @ [?k]) (i # used)"
      unfolding used_ok_def
    proof (intro allI impI)
      fix k :: "bytes \<times> u64"
      assume k: "fst k \<noteq> []"
      show "card (matching changes k \<inter> set (i # used))
          = min (count_list (earlier @ [?k]) k) (card (matching changes k))"
      proof (cases "k = ?k")
        case True
        have "?M \<inter> set (i # used) = insert i (?M \<inter> set used)" using i by auto
        then have "card (?M \<inter> set (i # used)) = Suc (card (?M \<inter> set used))" using i by simp
        with inv lt True show ?thesis by simp
      next
        case False
        then have "i \<notin> matching changes k" using i(1) matching_disjoint [of k ?k changes] by auto
        then have "matching changes k \<inter> set (i # used) = matching changes k \<inter> set used" by auto
        with False assms(1) k show ?thesis by (cases k) (simp add: used_ok_def)
      qed
    qed
    with Some lt assms(2) show ?thesis by (simp add: is_applied_def)
  qed
qed

lemma discard_loop_spec:
  assumes "used_ok changes earlier used"
  shows "length (discard_loop changes used auths) = length auths \<and>
    (\<forall>i < length auths. discard_loop changes used auths ! i =
       (if is_applied changes (earlier @ map auth_key (take i auths)) (auths ! i) then auths ! i
        else (auths ! i)\<lparr>ps_Discarded := True\<rparr>))"
  using assms
proof (induction auths arbitrary: used earlier)
  case Nil
  then show ?case by simp
next
  case (Cons auth auths)
  have tail: "?case" if "used_ok changes (earlier @ [auth_key auth]) used'"
    and "discard_loop changes used (auth # auths)
      = (if is_applied changes earlier auth then auth else auth\<lparr>ps_Discarded := True\<rparr>)
        # discard_loop changes used' auths" for used'
    using Cons.IH [OF that(1)] that(2) by (auto simp: nth_Cons split: nat.split)
  show ?case
  proof (cases "ps_Authority auth = []")
    case True
    then have "used_ok changes (earlier @ [auth_key auth]) used"
      using Cons.prems by (auto simp: used_ok_def auth_key_def)
    then show ?thesis by (rule tail) (simp add: True is_applied_def)
  next
    case False
    with find_applied [OF Cons.prems False] tail show ?thesis
      by (cases "findNonceChange changes (ps_Authority auth) (ps_Nonce auth) used") simp_all
  qed
qed

text \<open>
  C20. A set code authorization of a completed transaction is left undiscarded exactly when its signature
  recovered to an authority and the root call holds more nonce changes of that authority, from the
  authorization's nonce to the next, than earlier authorizations asked for: each nonce change vouches
  for one authorization, first come first served. Nothing else of an authorization changes.
\<close>

theorem discard_spec:
  "let auths = trx_SetCodeAuthorizations trx;
       result = trx_SetCodeAuthorizations (discardUncommittedSetCodeAuthorizations rootCall trx)
   in length result = length auths \<and> (\<forall>i < length auths. result ! i =
        (if is_applied (call_NonceChanges rootCall) (map auth_key (take i auths)) (auths ! i)
         then auths ! i else (auths ! i)\<lparr>ps_Discarded := True\<rparr>))"
proof -
  have "used_ok (call_NonceChanges rootCall) [] []" by (simp add: used_ok_def)
  from discard_loop_spec [OF this, of "trx_SetCodeAuthorizations trx"] show ?thesis
    by (simp add: discardUncommittedSetCodeAuthorizations_def Let_def)
qed

subsection \<open>Receipt logs\<close>

definition stamp_log :: "Log \<Rightarrow> Log \<Rightarrow> Log" where
  "stamp_log callLog receiptLog =
     receiptLog\<lparr>log_Ordinal := log_Ordinal callLog, log_Index := log_Index callLog\<rparr>"

text \<open>The first position where the block indexes differ.\<close>

definition first_mismatch :: "Log list \<Rightarrow> Log list \<Rightarrow> nat \<Rightarrow> bool" where
  "first_mismatch cl rl i \<longleftrightarrow> i < length cl \<and> i < length rl
     \<and> log_BlockIndex (cl ! i) \<noteq> log_BlockIndex (rl ! i)
     \<and> (\<forall>j < i. log_BlockIndex (cl ! j) = log_BlockIndex (rl ! j))"

lemma first_mismatch_Cons:
  "first_mismatch (c # cl) (r # rl) i \<longleftrightarrow>
     (case i of 0 \<Rightarrow> log_BlockIndex c \<noteq> log_BlockIndex r
      | Suc j \<Rightarrow> log_BlockIndex c = log_BlockIndex r \<and> first_mismatch cl rl j)"
  by (cases i) (auto simp: first_mismatch_def less_Suc_eq_0_disj)

lemma assign_loop_spec:
  "length cl = length rl \<Longrightarrow>
   (case assign_loop t n cl rl of
      Inr logs \<Rightarrow> map log_BlockIndex cl = map log_BlockIndex rl \<and> logs = map2 stamp_log cl rl
    | Inl p \<Rightarrow> \<exists>i. first_mismatch cl rl i \<and> p = panicInvalidState t
        (MsgLogBlockIndexMismatch (n + i) (log_BlockIndex (cl ! i)) (log_BlockIndex (rl ! i))))"
proof (induction cl rl arbitrary: n rule: list_induct2')
  case (4 c cl r rl)
  then have ih: "case assign_loop t (Suc n) cl rl of
      Inr logs \<Rightarrow> map log_BlockIndex cl = map log_BlockIndex rl \<and> logs = map2 stamp_log cl rl
    | Inl p \<Rightarrow> \<exists>i. first_mismatch cl rl i \<and> p = panicInvalidState t
        (MsgLogBlockIndexMismatch (Suc n + i) (log_BlockIndex (cl ! i)) (log_BlockIndex (rl ! i)))"
    by simp
  show ?case
  proof (cases "log_BlockIndex c = log_BlockIndex r")
    case False
    then show ?thesis by (auto simp: check_def first_mismatch_Cons intro!: exI [of _ 0])
  next
    case True
    show ?thesis
    proof (cases "assign_loop t (Suc n) cl rl")
      case (Inl p)
      with ih obtain i where "first_mismatch cl rl i" and "p = panicInvalidState t
        (MsgLogBlockIndexMismatch (Suc n + i) (log_BlockIndex (cl ! i)) (log_BlockIndex (rl ! i)))"
        by auto
      with True Inl show ?thesis
        by (auto simp: check_def first_mismatch_Cons intro!: exI [of _ "Suc i"])
    next
      case (Inr logs)
      with ih True show ?thesis by (simp add: check_def stamp_log_def)
    qed
  qed
qed simp_all

definition receipt_logs :: "TransactionTrace \<Rightarrow> Log list" where
  "receipt_logs trx = (case trx_Receipt trx of None \<Rightarrow> [] | Some r \<Rightarrow> rcp_Logs r)"

lemma map_stamp_ordinals:
  "length cl = length rl \<Longrightarrow> map log_Ordinal (map2 stamp_log cl rl) = map log_Ordinal cl"
  by (induction cl rl rule: list_induct2) (simp_all add: stamp_log_def)

lemma sorted_logs: "map log_Ordinal (SortFunc log_compare logs) = sort (map log_Ordinal logs)"
proof -
  have "SortFunc log_compare logs = sort_key log_Ordinal logs"
    by (rule SortFunc_sort_key) (simp add: log_compare_def cmp_Compare_le_iff)
  then show ?thesis by (simp add: properties_for_sort [of "map log_Ordinal (sort_key log_Ordinal logs)"])
qed

text \<open>
  C13. The receipt's logs against the call logs that survive, sorted by ordinal. When \<open>completeTransaction\<close>
  gets past this step there are as many of each, their block indexes agree one by one, and each
  receipt log has received the ordinal and the index of its call log, so that the receipt's ordinals
  increase; otherwise the counts differ, or the panic names the first position that disagrees.
\<close>

theorem receipt_logs_spec:
  "let callLogs = SortFunc log_compare (surviving_logs (t_config t) (trx_Calls trx)) in
   case assignOrdinalAndIndexToReceiptLogs t trx of
     Inr trx' \<Rightarrow> map log_BlockIndex callLogs = map log_BlockIndex (receipt_logs trx)
       \<and> receipt_logs trx' = map2 stamp_log callLogs (receipt_logs trx)
       \<and> map log_Ordinal (receipt_logs trx')
           = sort (map log_Ordinal (surviving_logs (t_config t) (trx_Calls trx)))
       \<and> trx_Calls trx' = trx_Calls trx
   | Inl p \<Rightarrow>
       length callLogs \<noteq> length (receipt_logs trx)
         \<and> p = LogCountMismatch (length callLogs) (length (receipt_logs trx))
       \<or> (\<exists>i. first_mismatch callLogs (receipt_logs trx) i
         \<and> p = panicInvalidState t (MsgLogBlockIndexMismatch i (log_BlockIndex (callLogs ! i))
                 (log_BlockIndex (receipt_logs trx ! i))))"
proof -
  define cl where "cl = SortFunc log_compare (surviving_logs (t_config t) (trx_Calls trx))"
  define rl where "rl = receipt_logs trx"
  have unf: "assignOrdinalAndIndexToReceiptLogs t trx =
     (if length cl \<noteq> length rl then Inl (LogCountMismatch (length cl) (length rl))
      else bindR (assign_loop t 0 cl rl)
        (\<lambda>logs. Inr (trx\<lparr>trx_Receipt := map_option (\<lambda>r. r\<lparr>rcp_Logs := logs\<rparr>) (trx_Receipt trx)\<rparr>)))"
    by (simp only: assignOrdinalAndIndexToReceiptLogs_def Let_def cl_def rl_def receipt_logs_def)
  have logs': "receipt_logs (trx\<lparr>trx_Receipt := map_option (\<lambda>r. r\<lparr>rcp_Logs := map2 stamp_log cl rl\<rparr>)
      (trx_Receipt trx)\<rparr>) = map2 stamp_log cl rl" if "length cl = length rl"
    using that by (auto simp: receipt_logs_def rl_def split: option.splits)
  show ?thesis
  proof (cases "length cl = length rl")
    case False
    then show ?thesis by (simp add: unf cl_def [symmetric] rl_def [symmetric])
  next
    case True
    show ?thesis
    proof (cases "assign_loop t 0 cl rl")
      case (Inl p)
      then show ?thesis using assign_loop_spec [OF True, of t 0] True
        by (auto simp: unf cl_def [symmetric] rl_def [symmetric] Let_def)
    next
      case (Inr logs)
      then have "logs = map2 stamp_log cl rl" and "map log_BlockIndex cl = map log_BlockIndex rl"
        using assign_loop_spec [OF True, of t 0] by auto
      then show ?thesis
        using True Inr logs' [OF True] map_stamp_ordinals [OF True]
          sorted_logs [of "surviving_logs (t_config t) (trx_Calls trx)"]
        by (simp add: unf cl_def [symmetric] rl_def [symmetric] Let_def)
    qed
  qed
qed

end
