(* ===== verification/DemoRuns.thy ===== *)
theory DemoRuns
  imports ParallelSpec GenesisSpec ChangeOrder Builders DebugViews FlushQueue TxSpec
begin

section \<open>Concrete runs\<close>

text \<open>
  A coordinator with no chain hook set, and a run that traces one block: a balance change outside any
  transaction, then a transaction whose root call changes a balance and logs. The side conditions of
  the reachability relations are evaluated along the run.
\<close>

subsection \<open>Runs as evaluations\<close>

primrec fits_along :: "Crypto \<Rightarrow> (hook \<Rightarrow> tracer \<Rightarrow> bool) \<Rightarrow> hook list \<Rightarrow> tracer \<Rightarrow> bool" where
  "fits_along cr fits [] t = True"
| "fits_along cr fits (h # hs) t = (fits h t \<and>
     (case apply_hook cr h t of Inl _ \<Rightarrow> False | Inr t' \<Rightarrow> fits_along cr fits hs t'))"

primrec after :: "Crypto \<Rightarrow> hook list \<Rightarrow> tracer \<Rightarrow> tracer" where
  "after cr [] t = t"
| "after cr (h # hs) t = (case apply_hook cr h t of Inl _ \<Rightarrow> t | Inr u \<Rightarrow> after cr hs u)"

lemma reachable_after:
  "reachable cr fits t0 t \<Longrightarrow> fits_along cr fits hs t \<Longrightarrow> reachable cr fits t0 (after cr hs t)"
proof (induction hs arbitrary: t)
  case Nil
  then show ?case by simp
next
  case (Cons h hs)
  then obtain u where u: "apply_hook cr h t = Inr u" "fits h t" "fits_along cr fits hs u"
    by (auto split: sum.splits)
  then have "reachable cr fits t0 u" using Cons.prems(1) by (auto intro: reachable.hook)
  with Cons.IH [OF this u(3)] u(1) show ?case by simp
qed

subsection \<open>A coordinator\<close>

definition demo_crypto :: Crypto where
  "demo_crypto = \<lparr>cr_Keccak256 = (\<lambda>b. replicate 32 7), cr_rlp_Encode = (\<lambda>_. Inr [1]),
     cr_RecoverCompact = (\<lambda>_ _. Inr (1, 2)), cr_ecdsa_Sign = (\<lambda>_ _. Inr (5, 6))\<rparr>"

definition demo_chain :: ChainConfig where
  "demo_chain = \<lparr>ch_ChainID = Some 1, ch_ShanghaiTime = Some 0, ch_CancunTime = None, ch_PragueTime = None,
     ch_VerkleTime = None, ch_ShanghaiBlock = None, ch_CancunBlock = None, ch_PragueBlock = None,
     ch_SetCodeAuthRecovery = None\<rparr>"

definition demo_config :: Config where
  "demo_config = \<lparr>cfg_ChainConfig = Some demo_chain, cfg_IgnoreGenesisBlock = False,
     cfg_EnableConcurrentFlushing = False, cfg_ConcurrentBufferSize = 0,
     cfg_DropTransactionsWithoutReceipt = False, cfg_IsNeverRevertedLog = None,
     cfg_BeforeBlockFlush = None\<rparr>"

definition demo_tracer :: tracer where
  "demo_tracer = NewTracer demo_config"

definition demo_event :: BlockEvent where
  "demo_event = \<lparr>ev_Block = zero_BlockData\<lparr>bd_Number := 5\<rparr>, ev_Finalized = None, ev_FlashBlock = None,
     ev_Rules = None\<rparr>"

definition demo_receipt :: ReceiptData where
  "demo_receipt = (genesis_receipt demo_event)\<lparr>rd_Logs := [\<lparr>ld_Address = replicate 20 9, ld_Topics = [],
     ld_Data = [1], ld_BlockIndex = 0\<rparr>]\<rparr>"

definition demo_hooks :: "hook list" where
  "demo_hooks = [HBlockStart demo_event,
     HBalanceChange (replicate 20 3) (Some 0) (Some 2) REASON_GENESIS_BALANCE,
     HTxStart genesis_event None, HCallEnter 0 CallTypeCall (replicate 20 1) (replicate 20 2) [] 9 None,
     HBalanceChange (replicate 20 1) (Some 4) (Some 3) REASON_GENESIS_BALANCE,
     HLog (replicate 20 9) [] [1] 0, HCallExit 0 [] 5 None False]"

lemmas demo_defs = demo_crypto_def demo_chain_def demo_config_def demo_tracer_def demo_event_def
  demo_receipt_def demo_hooks_def genesis_receipt_def

text \<open>
  The side conditions of the reachability relations, evaluated: the counters are small and no
  \<open>BeforeBlockFlush\<close> is set.
\<close>

definition exec_fits :: "hook \<Rightarrow> tracer \<Rightarrow> bool" where
  "exec_fits h t \<longleftrightarrow> ord_value (t_blockOrdinal t) < 1000 \<and> cs_index (t_callStack t) < 1000
     \<and> (case h of
          HBlockStart _ \<Rightarrow> Option.is_none (t_transaction t) \<and> length (cs_stack (t_callStack t)) = 0
            \<and> cs_index (t_callStack t) = 0 \<and> cs_depth (t_callStack t) = 0
            \<and> df_IsEmpty (t_deferredCallState t) \<and> Option.is_none (t_interruptedTransaction t)
            \<and> Option.is_none (t_block t) \<and> \<not> t_transactionIsolated t
        | HBlockEnd _ \<Rightarrow> Option.is_none (cfg_BeforeBlockFlush (t_config t))
        | HSnapshot \<Rightarrow> \<not> t_transactionIsolated t
        | HTxReset \<Rightarrow> Option.is_none (t_interruptedTransaction t)
        | _ \<Rightarrow> True)"

lemma exec_fits_ordinal: "exec_fits h t \<Longrightarrow> ordinal_fits h t"
proof -
  assume e: "exec_fits h t"
  then have "unat (ord_value (t_blockOrdinal t)) < 1000"
    by (simp add: exec_fits_def word_less_nat_alt)
  moreover have "t_callStack t = NewCallStack" if "cs_stack (t_callStack t) = []" "cs_index (t_callStack t) = 0"
    "cs_depth (t_callStack t) = 0"
    using that by (cases "t_callStack t") (simp add: NewCallStack_def)
  ultimately show "ordinal_fits h t"
    using e by (cases h) (auto simp: exec_fits_def ordinal_fits_def idle_def blank_def flush_keeps_def
        Option.is_none_def)
qed

lemma exec_fits_room: "exec_fits h t \<Longrightarrow> call_room h t"
  by (simp add: exec_fits_def call_room_def word_less_nat_alt)

lemma fits_along_mono:
  "fits_along cr fits hs t \<Longrightarrow> (\<And>h t. fits h t \<Longrightarrow> fits' h t) \<Longrightarrow> fits_along cr fits' hs t"
  by (induction hs arbitrary: t) (auto split: sum.splits)

lemma demo_fits: "fits_along demo_crypto exec_fits demo_hooks demo_tracer"
  by code_simp

abbreviation run_demo :: "hook list \<Rightarrow> tracer" where
  "run_demo hs \<equiv> after demo_crypto hs demo_tracer"

lemma demo_reachable:
  "fits_along demo_crypto exec_fits hs demo_tracer \<Longrightarrow> reachable demo_crypto ordinal_fits demo_tracer (run_demo hs)"
  "fits_along demo_crypto exec_fits hs demo_tracer \<Longrightarrow> reachable demo_crypto call_room demo_tracer (run_demo hs)"
  by (auto intro: reachable_after reachable.start fits_along_mono exec_fits_ordinal exec_fits_room)

lemma demo_start: "fresh demo_tracer" "blank demo_tracer"
  by (simp_all add: demo_tracer_def)

end
