(* ===== verification/RunWitnesses.thy ===== *)
theory RunWitnesses
  imports DemoRuns
begin

section \<open>The properties of runs at a concrete run\<close>

text \<open>
  For each property of the hooks that has a hypothesis, a run at which the hypotheses hold.
\<close>

subsection \<open>Invariants\<close>

theorem ordinals_unique_witness:
  "reachable demo_crypto ordinal_fits demo_tracer (run_demo demo_hooks) \<and> fresh demo_tracer
   \<and> count (state_mset (run_demo demo_hooks)) 3 \<le> 1"
  using ordinals_unique [OF demo_reachable(1) [OF demo_fits] demo_start(1), of 3]
    demo_reachable(1) [OF demo_fits] demo_start(1) by simp

definition block_hooks :: "hook list" where
  "block_hooks = demo_hooks @ [HTxEnd (Some demo_receipt) None, HSystemCallStart,
     HCallEnter 0 CallTypeCall (replicate 20 1) (replicate 20 4) [] 9 None, HCallExit 0 [] 5 None False,
     HSystemCallEnd]"

lemma block_fits: "fits_along demo_crypto exec_fits block_hooks demo_tracer"
  by code_simp

lemma flush_keeps_none: "Option.is_none (cfg_BeforeBlockFlush (t_config t)) \<Longrightarrow> flush_keeps t"
  by (simp add: flush_keeps_def Option.is_none_def)

lemma sum_Inr: "\<not> isl x \<Longrightarrow> \<exists>y. x = Inr y"
  by (cases x) auto

theorem flushed_block_ordinals_witness:
  "\<exists>t' out. OnBlockEnd None (run_demo block_hooks) = Inr t'
     \<and> t_output t' = t_output (run_demo block_hooks) @ [BlockLine out]
     \<and> count (block_mset (bo_block out)) 1 \<le> 1"
proof -
  have f: "flush_keeps (run_demo block_hooks)" by (rule flush_keeps_none) code_simp
  have i: "\<not> t_transactionIsolated (run_demo block_hooks)" by code_simp
  have "\<not> isl (OnBlockEnd None (run_demo block_hooks))" by code_simp
  then obtain t' where e: "OnBlockEnd None (run_demo block_hooks) = Inr t'" using sum_Inr by blast
  from flushed_block_ordinals [OF demo_reachable(1) [OF block_fits] demo_start(1) f i e, of 1] e
  show ?thesis by auto
qed

lemma demo_transaction:
  "\<exists>trx. t_transaction (run_demo demo_hooks) = Some trx" "cs_stack (t_callStack (run_demo demo_hooks)) = []"
proof -
  have "\<not> Option.is_none (t_transaction (run_demo demo_hooks))" by code_simp
  then show "\<exists>trx. t_transaction (run_demo demo_hooks) = Some trx" by (auto simp: Option.is_none_def)
  have "length (cs_stack (t_callStack (run_demo demo_hooks))) = 0" by code_simp
  then show "cs_stack (t_callStack (run_demo demo_hooks)) = []" by simp
qed

theorem ended_calls_numbered_witness:
  "\<exists>trx. t_transaction (run_demo demo_hooks) = Some trx \<and> numbered (SortFunc call_compare (trx_Calls trx))"
  using demo_transaction(1)
    ended_calls_numbered [OF demo_reachable(2) [OF demo_fits] demo_start(2) _ demo_transaction(2)] by blast

theorem ended_transaction_marks_witness:
  "\<exists>t' trx. completeTransaction (Some demo_receipt) None (run_demo demo_hooks) = Inr t'
     \<and> t_transaction t' = Some trx
     \<and> (\<forall>i < length (trx_Calls trx). call_StateReverted (trx_Calls trx ! i) \<longleftrightarrow> reverted (trx_Calls trx) i)"
proof -
  have "\<not> isl (completeTransaction (Some demo_receipt) None (run_demo demo_hooks))" by code_simp
  then obtain t' where "completeTransaction (Some demo_receipt) None (run_demo demo_hooks) = Inr t'"
    using sum_Inr by blast
  with ended_transaction_marks [OF demo_reachable(2) [OF demo_fits] demo_start(2) demo_transaction(2),
      of "Some demo_receipt" None]
  show ?thesis by auto
qed

theorem active_calls_wf_witness: "cs_wf (t_callStack (run_demo (take 5 demo_hooks)))"
proof (rule active_calls_wf [OF demo_reachable(2) demo_start(2)])
  show "fits_along demo_crypto exec_fits (take 5 demo_hooks) demo_tracer" by code_simp
qed

definition two_calls :: "Call list" where
  "two_calls = [empty_Call\<lparr>call_Index := 1, call_StatusFailed := True\<rparr>,
     empty_Call\<lparr>call_Index := 2, call_ParentIndex := 1\<rparr>]"

theorem populateStateReverted_spec_witness:
  "numbered two_calls \<and> (\<exists>calls'. populateStateReverted two_calls = Inr calls' \<and> length calls' = 2
     \<and> calls' ! 1 = (two_calls ! 1)\<lparr>call_StateReverted := reverted two_calls 1\<rparr>)"
proof -
  have n: "numbered two_calls"
    by (simp add: numbered_def two_calls_def empty_Call_def less_Suc_eq)
  have "length two_calls = 2" by (simp add: two_calls_def)
  with populateStateReverted_spec [OF n] n show ?thesis by auto
qed

subsection \<open>System calls, flash blocks\<close>

theorem system_call_transparent_witness:
  "\<exists>t1 t2 t3. OnSystemCallStart (run_demo (take 5 demo_hooks)) = Inr t1
     \<and> run_hooks demo_crypto [HCallEnter 0 CallTypeCall [1] [2] [] 9 None, HCallExit 0 [] 5 None False] t1 = Inr t2
     \<and> OnSystemCallEnd t2 = Inr t3
     \<and> transaction_state t3 = transaction_state (run_demo (take 5 demo_hooks))"
proof -
  let ?t = "run_demo (take 5 demo_hooks)"
  let ?hs = "[HCallEnter 0 CallTypeCall [1] [2] [] 9 None, HCallExit 0 [] 5 None False]"
  have "\<not> Option.is_none (t_transaction ?t)" by code_simp
  then have n: "t_transaction ?t \<noteq> None" by (simp add: Option.is_none_def)
  have "\<not> isl (bindR (OnSystemCallStart ?t) (\<lambda>t1. bindR (run_hooks demo_crypto ?hs t1) OnSystemCallEnd))"
    by code_simp
  then obtain t3 where "bindR (OnSystemCallStart ?t) (\<lambda>t1. bindR (run_hooks demo_crypto ?hs t1) OnSystemCallEnd) = Inr t3"
    using sum_Inr by blast
  then obtain t1 t2 where s: "OnSystemCallStart ?t = Inr t1" and r: "run_hooks demo_crypto ?hs t1 = Inr t2"
    and e: "OnSystemCallEnd t2 = Inr t3"
    by (elim bindR_InrE)
  have "list_all inner_hook ?hs" by (simp add: inner_hook_def)
  from system_call_transparent [OF n s r this e] s r e show ?thesis by blast
qed

definition flash_event :: "u64 \<Rightarrow> BlockEvent" where
  "flash_event i = demo_event\<lparr>ev_FlashBlock := Some \<lparr>fb_Idx = i, fb_IsFinal = False\<rparr>\<rparr>"

definition block_change :: hook where
  "block_change = HBalanceChange (replicate 20 3) (Some 0) (Some 2) REASON_GENESIS_BALANCE"

definition flash_tracer :: tracer where
  "flash_tracer = run_demo [HBlockStart (flash_event 1), block_change]"

theorem flash_block_restart_witness:
  "\<exists>t1 t2 t3 t4 b. SnapshotFlashBlockForNextIteration flash_tracer = Inr t1
     \<and> run_hooks demo_crypto [block_change] t1 = Inr t2 \<and> OnBlockEnd None t2 = Inr t3
     \<and> OnBlockStart (flash_event 2) t3 = Inr t4 \<and> t_block flash_tracer = Some b
     \<and> ord_value (t_blockOrdinal t4) = ord_value (t_blockOrdinal flash_tracer)
     \<and> (\<exists>b4. t_block t4 = Some b4 \<and> carried b4 = carried b)"
proof -
  let ?run = "bindR (SnapshotFlashBlockForNextIteration flash_tracer) (\<lambda>t1.
      bindR (run_hooks demo_crypto [block_change] t1) (\<lambda>t2. bindR (OnBlockEnd None t2)
      (\<lambda>t3. OnBlockStart (flash_event 2) t3)))"
  have "\<not> isl ?run" by code_simp
  then obtain t4 where "?run = Inr t4" using sum_Inr by blast
  then obtain t1 t2 t3 where r: "SnapshotFlashBlockForNextIteration flash_tracer = Inr t1"
    "run_hooks demo_crypto [block_change] t1 = Inr t2" "OnBlockEnd None t2 = Inr t3"
    "OnBlockStart (flash_event 2) t3 = Inr t4"
    by (elim bindR_InrE)
  have "t_flashBlockIndex flash_tracer = Some 1" by code_simp
  moreover have "list_all within_block [block_change]" by (simp add: within_block_def block_change_def)
  moreover have "Option.is_none (cfg_BeforeBlockFlush (t_config flash_tracer))" by code_simp
  then have "cfg_BeforeBlockFlush (t_config flash_tracer) = None" by (simp add: Option.is_none_def)
  moreover have "map_option blk_Number (t_block flash_tracer) = Some (bd_Number (ev_Block (flash_event 2)))"
    by code_simp
  then obtain b where b: "t_block flash_tracer = Some b"
    "bd_Number (ev_Block (flash_event 2)) = blk_Number b" by auto
  ultimately show ?thesis
    using flash_block_restart [of flash_tracer t1 1 demo_crypto "[block_change]" t2 t3 "flash_event 2" t4
        "\<lparr>fb_Idx = 2, fb_IsFinal = False\<rparr>" b] r
    by (auto simp: flash_event_def)
qed



subsection \<open>Parallel execution\<close>

definition isolated_hooks :: "hook list" where
  "isolated_hooks = [HTxStart genesis_event None,
     HCallEnter 0 CallTypeCall (replicate 20 1) (replicate 20 2) [] 9 None, HCallExit 0 [] 5 None False,
     HTxEnd (Some (genesis_receipt demo_event)) None]"

definition isolated_system_call :: "hook list" where
  "isolated_system_call = [HSystemCallStart,
     HCallEnter 0 CallTypeCall (replicate 20 1) (replicate 20 2) [] 9 None, HCallExit 0 [] 5 None False,
     HSystemCallEnd]"

text \<open>Hooks on an isolated tracer that shares the coordinator's block, with no side condition.\<close>

primrec traced_freely :: "Crypto \<Rightarrow> hook list \<Rightarrow> tracer \<Rightarrow> tracer \<Rightarrow> go_panic + (tracer \<times> tracer)" where
  "traced_freely cr [] t s = Inr (t, s)"
| "traced_freely cr (h # hs) t s =
     bindR (on_shared (apply_hook cr h) t s) (\<lambda>(t, s). traced_freely cr hs t s)"

definition coordinator :: tracer where
  "coordinator = run_demo (take 2 demo_hooks)"

definition spawned :: tracer where
  "spawned = newIsolatedTransactionTracer coordinator"

text \<open>The first worker of a session runs a list of hooks, the side conditions checked along the run.\<close>

definition worker_ready :: "hook \<Rightarrow> worker \<Rightarrow> bool" where
  "worker_ready h w \<longleftrightarrow> (case wk_phase w of Tracing \<Rightarrow> True | _ \<Rightarrow> False) \<and> exec_fits h (wk_tracer w)
     \<and> within_block h \<and> \<not> t_inSystemCall (wk_tracer w) \<and> off_block h (wk_tracer w)"

primrec traced :: "Crypto \<Rightarrow> hook list \<Rightarrow> tracer \<times> worker \<Rightarrow> (tracer \<times> worker) option" where
  "traced cr [] p = Some p"
| "traced cr (h # hs) p =
     (if worker_ready h (snd p)
      then (case on_worker (apply_hook cr h) (fst p) (snd p) of
              Inl _ \<Rightarrow> None
            | Inr (t, w) \<Rightarrow> traced cr hs
                (t, w\<lparr>wk_phase := (case h of HTxEnd _ _ \<Rightarrow> Ended | _ \<Rightarrow> Tracing)\<rparr>))
      else None)"

lemma isolated_exec:
  "exec_fits h t \<Longrightarrow> within_block h \<Longrightarrow> \<not> t_inSystemCall t \<Longrightarrow> isolated_fits h t"
  using exec_fits_ordinal by (cases h) (simp_all add: isolated_fits_def)

lemma session_traced:
  "session cr t0 \<lparr>pa_coordinator = t, pa_workers = w # ws\<rparr> \<Longrightarrow> traced cr hs (t, w) = Some (t', w') \<Longrightarrow>
     session cr t0 \<lparr>pa_coordinator = t', pa_workers = w' # ws\<rparr>"
proof (induction hs arbitrary: t w)
  case Nil
  then show ?case by simp
next
  case (Cons h hs)
  obtain t1 w1 where run: "on_worker (apply_hook cr h) t w = Inr (t1, w1)" and "worker_ready h w"
    and rest: "traced cr hs (t1, w1\<lparr>wk_phase := (case h of HTxEnd _ _ \<Rightarrow> Ended | _ \<Rightarrow> Tracing)\<rparr>) = Some (t', w')"
    using Cons.prems(2) by (auto split: if_splits sum.splits)
  then have "wk_phase w = Tracing" "isolated_fits h (wk_tracer w)" "off_block h (wk_tracer w)"
    using isolated_exec by (auto simp: worker_ready_def split: phase.splits)
  then have "session cr t0 \<lparr>pa_coordinator = t1,
      pa_workers = w1\<lparr>wk_phase := (case h of HTxEnd _ _ \<Rightarrow> Ended | _ \<Rightarrow> Tracing)\<rparr> # ws\<rparr>"
    using session.trace [OF Cons.prems(1), of 0 h t1 w1] run by simp
  from Cons.IH [OF this rest] show ?case .
qed

definition first_worker :: worker where
  "first_worker = \<lparr>wk_tracer = spawned, wk_shares = True, wk_phase = Tracing\<rparr>"

text \<open>A second tracer is spawned and never used.\<close>

theorem parallel_ordinals_unique_witness:
  "\<exists>t w t' s. traced demo_crypto isolated_hooks (coordinator, first_worker) = Some (t, w)
     \<and> OnTxCommit t (wk_tracer w) = Inr (None, t', s)
     \<and> session demo_crypto demo_tracer \<lparr>pa_coordinator = t',
         pa_workers = [w\<lparr>wk_tracer := s, wk_phase := Committed\<rparr>, first_worker]\<rparr>
     \<and> count (state_mset t') 2 \<le> 1"
proof -
  have "fits_along demo_crypto exec_fits (take 2 demo_hooks) demo_tracer" by code_simp
  then have "reachable demo_crypto ordinal_fits demo_tracer coordinator"
    unfolding coordinator_def by (rule demo_reachable(1))
  then have s0: "session demo_crypto demo_tracer \<lparr>pa_coordinator = coordinator, pa_workers = []\<rparr>"
  proof (induction rule: reachable.induct)
    case (hook t h t')
    then show ?case using session.hook [of demo_crypto demo_tracer t "[]" h t'] by simp
  qed (rule session.start)
  have "\<not> t_transactionIsolated coordinator \<and> \<not> Option.is_none (t_block coordinator)
      \<and> \<not> Option.is_none (t_chainConfig coordinator)" by code_simp
  then have sp: "OnTxSpawn n coordinator = Inr spawned" for n
    by (simp add: OnTxSpawn_def check_def ensureInBlock_def spawned_def Option.is_none_def)
  have s2: "session demo_crypto demo_tracer \<lparr>pa_coordinator = coordinator, pa_workers = [first_worker, first_worker]\<rparr>"
    using session.spawn [OF session.spawn [OF s0 sp] sp] by (simp add: first_worker_def)
  have "case traced demo_crypto isolated_hooks (coordinator, first_worker) of None \<Rightarrow> False
    | Some (t, w) \<Rightarrow> (case wk_phase w of Ended \<Rightarrow> True | _ \<Rightarrow> False) \<and> ord_value (t_blockOrdinal t) < 1000
        \<and> ord_value (t_blockOrdinal (wk_tracer w)) < 1000
        \<and> (case OnTxCommit t (wk_tracer w) of Inl _ \<Rightarrow> False | Inr (e, _) \<Rightarrow> Option.is_none e)"
    by code_simp
  then obtain p where "traced demo_crypto isolated_hooks (coordinator, first_worker) = Some p"
    and p: "case p of (t, w) \<Rightarrow> (case wk_phase w of Ended \<Rightarrow> True | _ \<Rightarrow> False) \<and> ord_value (t_blockOrdinal t) < 1000
        \<and> ord_value (t_blockOrdinal (wk_tracer w)) < 1000
        \<and> (case OnTxCommit t (wk_tracer w) of Inl _ \<Rightarrow> False | Inr (e, _) \<Rightarrow> Option.is_none e)"
    by (cases "traced demo_crypto isolated_hooks (coordinator, first_worker)") auto
  moreover obtain t w where "p = (t, w)" by (cases p)
  ultimately have run: "traced demo_crypto isolated_hooks (coordinator, first_worker) = Some (t, w)"
    and w: "wk_phase w = Ended" and room: "ord_value (t_blockOrdinal t) < 1000"
      "ord_value (t_blockOrdinal (wk_tracer w)) < 1000"
    and "case OnTxCommit t (wk_tracer w) of Inl _ \<Rightarrow> False | Inr (e, _) \<Rightarrow> Option.is_none e"
    by (cases "wk_phase w"; simp)+
  then obtain t' s where c: "OnTxCommit t (wk_tracer w) = Inr (None, t', s)"
    by (cases "OnTxCommit t (wk_tracer w)") (auto simp: Option.is_none_def)
  have s3: "session demo_crypto demo_tracer \<lparr>pa_coordinator = t, pa_workers = [w, first_worker]\<rparr>"
    by (rule session_traced [OF s2 run])
  have "unat (ord_value (t_blockOrdinal t)) + unat (ord_value (t_blockOrdinal (wk_tracer w))) < 2 ^ 64"
    using room by (simp add: word_less_nat_alt)
  then have s4: "session demo_crypto demo_tracer \<lparr>pa_coordinator = t',
      pa_workers = [w\<lparr>wk_tracer := s, wk_phase := Committed\<rparr>, first_worker]\<rparr>"
    using session.commit [OF s3, of 0 None t' s] w c by simp
  show ?thesis
    using parallel_ordinals_unique [OF s4 demo_start(1), of 2] run c s4 by auto
qed

text \<open>
  What keeps system calls off isolated tracers: one that ends on an isolated tracer is recorded in the
  coordinator's block with the ordinals of the isolated tracer, although the coordinator took ordinal 1
  before and stays there.
\<close>

lemma isolated_system_call_clash:
  "\<exists>t s b. OnTxSpawn 0 coordinator = Inr spawned
     \<and> traced_freely demo_crypto isolated_system_call coordinator spawned = Inr (t, s) \<and> t_block t = Some b
     \<and> map bc_Ordinal (blk_BalanceChanges b) = [1] \<and> map call_BeginOrdinal (blk_SystemCalls b) = [1]
     \<and> ord_value (t_blockOrdinal t) = 1"
proof -
  have "\<not> t_transactionIsolated coordinator \<and> \<not> Option.is_none (t_block coordinator)
      \<and> \<not> Option.is_none (t_chainConfig coordinator)" by code_simp
  then have sp: "OnTxSpawn 0 coordinator = Inr spawned"
    by (simp add: OnTxSpawn_def check_def ensureInBlock_def spawned_def Option.is_none_def)
  have "case traced_freely demo_crypto isolated_system_call coordinator spawned of Inl _ \<Rightarrow> False
    | Inr (t, s) \<Rightarrow> (case t_block t of None \<Rightarrow> False
        | Some b \<Rightarrow> map bc_Ordinal (blk_BalanceChanges b) = [1] \<and> map call_BeginOrdinal (blk_SystemCalls b) = [1])
        \<and> ord_value (t_blockOrdinal t) = 1"
    by code_simp
  then show ?thesis using sp by (auto split: sum.splits option.splits)
qed

theorem OnTxCommit_spec_witness:
  "\<exists>t' s'. OnTxCommit coordinator spawned = Inr (Some NothingToCommit, t', s')"
proof -
  have "\<not> Option.is_none (t_block coordinator)
      \<and> \<not> t_transactionIsolated coordinator" by code_simp
  then have b: "t_block coordinator \<noteq> None"
    and "\<not> t_transactionIsolated coordinator" by (auto simp: Option.is_none_def)
  moreover have "t_transactionIsolated spawned" "\<not> t_transactionDropped spawned"
    "t_transactionTransient spawned = None" by (simp_all add: spawned_def newIsolatedTransactionTracer_def)
  ultimately show ?thesis using OnTxCommit_spec [OF b, of spawned] by simp
qed

end
