(* ===== verification/KeccakDepth.thy ===== *)
theory KeccakDepth
  imports KeccakFilter
begin

section \<open>The levels of the preimage filter run out\<close>

text \<open>
  The filter follows at most \<open>keccakFilterMaxDepth\<close> levels of nested hashing. A hash that explains a slot
  at some level does so at a level below the number of hashes recorded, because a shortest explanation
  uses a hash at most once; so a limit that large is no limit.
\<close>

definition first_level :: "Call list \<Rightarrow> recordedPreimage list \<Rightarrow> nat \<Rightarrow> bytes \<Rightarrow> bool" where
  "first_level calls recorded n h \<longleftrightarrow> explains calls recorded n h \<and> (\<forall>m < n. \<not> explains calls recorded m h)"

lemma explains_first: "explains calls recorded n h \<Longrightarrow> \<exists>m \<le> n. first_level calls recorded m h"
  unfolding first_level_def by (induction n rule: less_induct) (metis le_eq_less_or_eq order.trans)

lemma explains_recorded: "explains calls recorded n h \<Longrightarrow> h \<in> hashes_of recorded"
  by (induction rule: explains.induct) (simp_all add: is_slot_base_def)

lemma first_level_below:
  assumes "first_level calls recorded (Suc n) h"
  shows "\<exists>p. first_level calls recorded n p"
proof -
  obtain p w where p: "explains calls recorded n p" "w \<in> set (innerKeccakHashCandidates (preimage_of recorded p))"
    "is_slot_base (hashes_of recorded) w h"
    using assms by (auto simp: first_level_def explains_Suc)
  have "\<not> explains calls recorded m p" if "m < n" for m
  proof
    assume "explains calls recorded m p"
    then have "explains calls recorded (Suc m) h" using p(2,3) by (rule explains.nested)
    then show False using assms that by (auto simp: first_level_def)
  qed
  with p(1) show ?thesis by (auto simp: first_level_def)
qed

lemma first_level_all: "first_level calls recorded n h \<Longrightarrow> m \<le> n \<Longrightarrow> \<exists>p. first_level calls recorded m p"
proof (induction n arbitrary: h)
  case 0
  then show ?case by auto
next
  case (Suc n)
  then show ?case using first_level_below [OF Suc.prems(1)] by (metis le_Suc_eq)
qed

lemma first_level_unique:
  "first_level calls recorded m h \<Longrightarrow> first_level calls recorded n h \<Longrightarrow> m = n"
  unfolding first_level_def by (metis linorder_neqE_nat)

lemma first_level_bound:
  assumes "first_level calls recorded n h"
  shows "n < card (hashes_of recorded)"
proof -
  obtain f where f: "\<And>m. m \<le> n \<Longrightarrow> first_level calls recorded m (f m)"
    using first_level_all [OF assms] by metis
  have "inj_on f {..n}"
    by (rule inj_onI) (metis atMost_iff f first_level_unique)
  moreover have "f ` {..n} \<subseteq> hashes_of recorded"
    using f explains_recorded unfolding first_level_def by blast
  moreover have "finite (hashes_of recorded)" by (simp add: hashes_of_def)
  ultimately have "card {..n} \<le> card (hashes_of recorded)" by (rule card_inj_on_le)
  then show ?thesis by simp
qed

text \<open>
  C17. The worklist over the levels ends by itself: with a limit of at least the number of recorded hashes
  less one it keeps exactly the hashes that explain a slot at any depth, and a larger limit changes
  nothing. So the limit of 16 levels only matters to a transaction that recorded at least 18 hashes.
\<close>

theorem keep_levels_saturate:
  assumes "recorded_wf recorded" and "card (hashes_of recorded) \<le> Suc n"
  shows "keep_levels n (sorted_hashes recorded) (first_preimages recorded)
      (keep_storage_keys (sorted_hashes recorded) calls ({}, []))
    = {h. \<exists>m. explains calls recorded m h}"
proof -
  have "\<exists>k \<le> n. explains calls recorded k h" if e: "explains calls recorded m h" for m h
  proof -
    obtain k where k: "first_level calls recorded k h" using explains_first [OF e] by blast
    then have "k \<le> n" using first_level_bound [OF k] assms(2) by simp
    with k show ?thesis by (auto simp: first_level_def)
  qed
  then show ?thesis unfolding explains_levels [OF assms(1)] by blast
qed

end
