(* ===== verification/ValueWitnesses.thy ===== *)
theory ValueWitnesses
  imports DemoRuns KeccakDepth
begin

section \<open>The properties of single operations at concrete values\<close>

text \<open>
  The genesis block of a small allocation, two authorizations of one account, a storage key next to a
  recorded hash, a rendered line, a queue with one job, and a signature under toy cryptography.
\<close>

subsection \<open>Genesis\<close>

definition demo_alloc :: GenesisAlloc where
  "demo_alloc = [(replicate 20 2, no_account\<lparr>ga_Balance := Some 7\<rparr>),
     (replicate 20 1, no_account\<lparr>ga_Nonce := 1, ga_Storage := [(replicate 32 4, replicate 32 5)]\<rparr>)]"

theorem genesis_order_independent_witness:
  "same_alloc demo_alloc (rev demo_alloc)
   \<and> OnGenesisBlock demo_crypto demo_event demo_alloc demo_tracer
     = OnGenesisBlock demo_crypto demo_event (rev demo_alloc) demo_tracer"
proof -
  have "same_alloc demo_alloc (rev demo_alloc)"
    by (auto simp: same_alloc_def demo_alloc_def map_keys_def map_get_def same_account_def same_map_def
        no_account_def replicate_eq_replicate)
  with genesis_order_independent [OF this] show ?thesis by blast
qed

theorem genesis_block_content_witness:
  "\<exists>t' out trx root. OnGenesisBlock demo_crypto demo_event demo_alloc demo_tracer = Inr t'
    \<and> t_output t' = [BlockLine out] \<and> blk_TransactionTraces (bo_block out) = [trx]
    \<and> trx_Calls trx = [root] \<and> facts root = alloc_facts demo_crypto demo_alloc"
proof -
  have t: "idle demo_tracer" "t_chainConfig demo_tracer \<noteq> None" "t_flashBlockIndex demo_tracer = None"
    "\<not> t_latestCallEnterSuicided demo_tracer" "ev_FlashBlock demo_event = None"
    "\<not> cfg_IgnoreGenesisBlock (t_config demo_tracer)" "cfg_BeforeBlockFlush (t_config demo_tracer) = None"
    "t_output demo_tracer = []"
    by (simp_all add: idle_def demo_tracer_def demo_event_def) (simp_all add: NewTracer_def demo_config_def)
  from genesis_block_content [OF t(1-7), of demo_crypto demo_alloc] t(8) show ?thesis by auto
qed

subsection \<open>Transactions\<close>

definition demo_auth :: PbSetCodeAuthorization where
  "demo_auth = \<lparr>ps_ChainId = [1], ps_Address = [2], ps_Nonce = 7, ps_V = 0, ps_R = [], ps_S = [],
     ps_Authority = [3], ps_Discarded = False\<rparr>"

theorem discard_spec_witness:
  "map ps_Discarded (trx_SetCodeAuthorizations (discardUncommittedSetCodeAuthorizations
     (empty_Call\<lparr>call_NonceChanges := [\<lparr>nc_Address = [3], nc_OldValue = 7, nc_NewValue = 8, nc_Ordinal = 4\<rparr>]\<rparr>)
     (empty_Trace\<lparr>trx_SetCodeAuthorizations := [demo_auth, demo_auth]\<rparr>))) = [False, True]"
proof -
  let ?root = "empty_Call\<lparr>call_NonceChanges :=
    [\<lparr>nc_Address = [3], nc_OldValue = 7, nc_NewValue = 8, nc_Ordinal = 4\<rparr>]\<rparr>"
  let ?trx = "empty_Trace\<lparr>trx_SetCodeAuthorizations := [demo_auth, demo_auth]\<rparr>"
  let ?res = "trx_SetCodeAuthorizations (discardUncommittedSetCodeAuthorizations ?root ?trx)"
  have m: "matching (call_NonceChanges ?root) (auth_key demo_auth) = {0}"
    by (auto simp: matching_def auth_key_def demo_auth_def nonce_change_matches_def)
  have "length ?res = 2 \<and> ?res ! 0 = demo_auth \<and> ?res ! 1 = demo_auth\<lparr>ps_Discarded := True\<rparr>"
    using discard_spec [of ?trx ?root, unfolded Let_def] m
    by (simp add: is_applied_def) (simp add: demo_auth_def)
  then have "?res = [demo_auth, demo_auth\<lparr>ps_Discarded := True\<rparr>]"
    by (cases ?res; cases "tl ?res") (auto simp: numeral_2_eq_2)
  then show ?thesis by (simp add: demo_auth_def)
qed

theorem NewTxEventBuilderFrom_spec_witness:
  "sized_event genesis_event \<and> (\<exists>b. NewTxEventBuilderFrom genesis_event = Inr b
     \<and> te_To (tx_Build b) = Some (replicate 20 0))"
proof -
  have s: "sized_event genesis_event"
    by (simp add: sized_event_def genesis_event_def is_bytes32_def is_bytes20_def)
  have "te_To genesis_event = Some (replicate 20 0)" by (simp add: genesis_event_def)
  with NewTxEventBuilderFrom_spec [OF s] s show ?thesis by auto
qed

subsection \<open>Keccak preimages\<close>

definition demo_preimage :: recordedPreimage where
  "demo_preimage = \<lparr>rp_callIndex = 1, rp_hash = replicate 32 7, rp_preimage = replicate 64 0\<rparr>"

definition storing_call :: Call where
  "storing_call = empty_Call\<lparr>call_Index := 1, call_StorageChanges := [\<lparr>sc_Address = replicate 20 1,
     sc_Key = replicate 31 7 @ [9], sc_OldValue = [], sc_NewValue = [1], sc_Ordinal = 3\<rparr>]\<rparr>"

lemma demo_recorded: "recorded_wf [demo_preimage]" "hashes_of [demo_preimage] = {replicate 32 7}"
  by (simp_all add: recorded_wf_def hashes_of_def is_bytes32_def demo_preimage_def)

theorem keep_levels_saturate_witness:
  "recorded_wf [demo_preimage] \<and> card (hashes_of [demo_preimage]) \<le> Suc 0
   \<and> keep_levels 0 (sorted_hashes [demo_preimage]) (first_preimages [demo_preimage])
      (keep_storage_keys (sorted_hashes [demo_preimage]) [storing_call] ({}, []))
    = {h. \<exists>m. explains [storing_call] [demo_preimage] m h}"
  using keep_levels_saturate [of "[demo_preimage]" 0 "[storing_call]"] demo_recorded by simp

theorem storageSlotHashes_exact_witness:
  "recorded_wf [demo_preimage] \<and> replicate 32 7 \<in> storageSlotHashes [storing_call] [demo_preimage]
   \<and> (\<exists>n \<le> keccakFilterMaxDepth. explains [storing_call] [demo_preimage] n (replicate 32 7))"
proof -
  have w: "recorded_wf [demo_preimage]" by (simp add: recorded_wf_def is_bytes32_def demo_preimage_def)
  have split: "replicate 32 (7 :: byte) = replicate 31 7 @ [7]"
    by (simp add: replicate_append_same flip: replicate_Suc)
  have "hashes_of [demo_preimage] = {replicate 32 7}" by (simp add: hashes_of_def demo_preimage_def)
  moreover have "is_slot_base {replicate 32 7} (replicate 31 7 @ [9]) (replicate 32 7)"
    unfolding is_slot_base_def split by (simp add: be_val_append)
  moreover have "replicate 31 7 @ [9] \<in> storage_words [storing_call]"
    by (simp add: storage_words_def storing_call_def)
  ultimately have "explains [storing_call] [demo_preimage] 0 (replicate 32 7)"
    using explains.direct by metis
  then have "\<exists>n \<le> keccakFilterMaxDepth. explains [storing_call] [demo_preimage] n (replicate 32 7)" by blast
  with storageSlotHashes_exact [OF w, of "replicate 32 7" "[storing_call]"] w show ?thesis by blast
qed

theorem attachStorageSlotPreimages_spec_witness:
  "attachStorageSlotPreimages [storing_call] [demo_preimage]
    = [storing_call\<lparr>call_KeccakPreimages := preimages_for (storageSlotHashes [storing_call] [demo_preimage])
        [demo_preimage] storing_call\<rparr>]"
  using attachStorageSlotPreimages_spec [of "[storing_call]" "[demo_preimage]"] by simp

subsection \<open>Output and the flush queue\<close>

definition demo_encoders :: Encoders where
  "demo_encoders = \<lparr>en_MarshalBlock = (\<lambda>_. Inr [1]), en_base64 = (\<lambda>_. ''AQ==''), en_UnixNano = (\<lambda>_. 0)\<rparr>"

definition demo_output :: blockOutput where
  "demo_output = \<lparr>bo_block = new_Block (ev_Block demo_event), bo_libNum = 0, bo_printedFlashBlockIndex = 0\<rparr>"

theorem render_parses_back_witness:
  "\<exists>line. render demo_encoders demo_output = Inr line \<and> dec_parse (Printer.fields line ! 2) = 5"
proof -
  have "\<exists>line. render demo_encoders demo_output = Inr line"
    by (simp add: render_def demo_encoders_def Let_def)
  then obtain line where r: "render demo_encoders demo_output = Inr line" by blast
  have "unat (blk_Number (bo_block demo_output)) = 5"
    by (simp add: demo_output_def demo_event_def new_Block_def zero_BlockData_def)
  with render_parses_back [OF r] r show ?thesis by auto
qed

lemma demo_queue_run:
  "fq_run (NewConcurrentFlushQueue 2) [EvPush demo_output, EvReceive]
     ((NewConcurrentFlushQueue 2)\<lparr>fq_current := Some demo_output\<rparr>)"
proof -
  have "fq_run (NewConcurrentFlushQueue 2) ([] @ [EvPush demo_output])
      ((NewConcurrentFlushQueue 2)\<lparr>fq_jobQueue := [demo_output]\<rparr>)"
    by (rule fq_run.step [OF fq_run.refl]) (auto simp: NewConcurrentFlushQueue_def fq_Push_def intro!: fq_step.push)
  then have "fq_run (NewConcurrentFlushQueue 2) (([] @ [EvPush demo_output]) @ [EvReceive])
      ((NewConcurrentFlushQueue 2)\<lparr>fq_current := Some demo_output\<rparr>)"
    by (rule fq_run.step) (auto simp: NewConcurrentFlushQueue_def fq_receive_def intro!: fq_step.receive)
  then show ?thesis by simp
qed

theorem flush_queue_fifo_witness:
  "fq_written ((NewConcurrentFlushQueue 2)\<lparr>fq_current := Some demo_output\<rparr>)
     @ fq_pending ((NewConcurrentFlushQueue 2)\<lparr>fq_current := Some demo_output\<rparr>) = [demo_output]"
  using flush_queue_fifo [OF demo_queue_run] by (simp add: pushed_def)

theorem close_drains_witness:
  "fq_written (drain (fq_Close ((NewConcurrentFlushQueue 2)\<lparr>fq_current := Some demo_output\<rparr>))) = [demo_output]"
  using close_drains [OF demo_queue_run] by (simp add: pushed_def)

subsection \<open>Signatures\<close>

definition demo_key :: PrivateKey where
  "demo_key = \<lparr>key_X = 1, key_Y = 2, key_D = 3\<rparr>"

theorem sign_recover_roundtrip_witness:
  "\<exists>auth pub. signSetCodeAuthWithECDSA demo_crypto demo_key 1 (replicate 20 5) 7 = Some (Inr auth)
     \<and> expectedPubKey demo_key = Some pub
     \<and> DefaultSetCodeAuthRecovery demo_crypto (sa_ChainID auth) (sa_Address auth) (sa_Nonce auth)
      (sa_V auth) (sa_R auth) (sa_S auth) = Some (Inr (pubkey_address demo_crypto pub))"
proof -
  have range: "0 < r \<and> r < secp256k1N \<and> 0 < s \<and> s < secp256k1N"
    if "cr_ecdsa_Sign demo_crypto demo_key h = Inr (r, s)" for h r s
    using that by (auto simp: demo_crypto_def secp256k1N_def)
  have "case signSetCodeAuthWithECDSA demo_crypto demo_key 1 (replicate 20 5) 7 of
      Some (Inr auth) \<Rightarrow> True | _ \<Rightarrow> False"
    by (simp add: signSetCodeAuthWithECDSA_def fill_bytes_def be_bytes.simps computeSetCodeSigHash_def
        signECDSA_def findRecoveryID_def expectedPubKey_def recoverPublicKey_def demo_crypto_def demo_key_def
        secp256k1halfN_def secp256k1N_def Let_def)
  then obtain auth where s: "signSetCodeAuthWithECDSA demo_crypto demo_key 1 (replicate 20 5) 7 = Some (Inr auth)"
    by (auto split: option.splits sum.splits)
  have "\<exists>pub. expectedPubKey demo_key = Some pub \<and>
      DefaultSetCodeAuthRecovery demo_crypto (sa_ChainID auth) (sa_Address auth) (sa_Nonce auth)
        (sa_V auth) (sa_R auth) (sa_S auth) = Some (Inr (pubkey_address demo_crypto pub))"
    by (rule sign_recover_roundtrip [OF _ s]) (rule range)
  with s show ?thesis by blast
qed

end
