(* ===== verification/Execution.thy ===== *)
theory Execution
  imports SystemFlash
begin

section \<open>The tracer refines a recursive evaluator of call trees\<close>

text \<open>
  An abstract view of what the EVM does inside a transaction: a tree of calls with the events in
  between. \<open>hooks_of\<close> is the sequence of hooks such a tree makes the node call; \<open>eval_node\<close> is its
  meaning, computed by recursion on the tree without a stack, a deferred state or panics. The
  refinement theorem says that the hooks, run on the tracer, leave exactly what the evaluator
  computes: the calls it returns in the transaction, the stack as it was.
\<close>

subsection \<open>Call trees and their hooks\<close>

record call_args =
  ca_typ :: byte
  ca_caller :: bytes
  ca_target :: bytes
  ca_input :: bytes
  ca_gas :: u64
  ca_value :: "int option"

record call_result =
  cx_output :: bytes
  cx_gasUsed :: u64
  cx_err :: "go_error option"
  cx_reverted :: bool

datatype node =
    Event hook
  | SelfDestructed call_args call_result
  | Invoke call_args "node list" call_result

definition enter_hook :: "nat \<Rightarrow> byte \<Rightarrow> call_args \<Rightarrow> hook" where
  "enter_hook d typ a =
     HCallEnter (int d) typ (ca_caller a) (ca_target a) (ca_input a) (ca_gas a) (ca_value a)"

definition exit_hook :: "nat \<Rightarrow> call_result \<Rightarrow> hook" where
  "exit_hook d x = HCallExit (int d) (cx_output x) (cx_gasUsed x) (cx_err x) (cx_reverted x)"

text \<open>A self-destruct is reported as a call of its own that enters and exits at once.\<close>

fun hooks_of :: "nat \<Rightarrow> node \<Rightarrow> hook list" where
  "hooks_of d (Event h) = [h]"
| "hooks_of d (SelfDestructed a x) = [enter_hook d CallTypeSelfDestruct a, exit_hook d x]"
| "hooks_of d (Invoke a ns x) =
     enter_hook d (ca_typ a) a # concat (map (hooks_of (Suc d)) ns) @ [exit_hook d x]"

text \<open>
  Trees the EVM produces: events are state changes, logs, opcodes and keccak preimages; a call has one
  of the six call opcodes.
\<close>

fun is_event :: "hook \<Rightarrow> bool" where
  "is_event (HOpcode _ _ _ _ _ _ _) = True"
| "is_event (HOpcodeFault _ _ _ _ _ _) = True"
| "is_event (HKeccakPreimage _ _) = True"
| "is_event (HBalanceChange _ _ _ _) = True"
| "is_event (HNonceChange _ _ _) = True"
| "is_event (HCodeChange _ _ _ _ _) = True"
| "is_event (HStorageChange _ _ _ _) = True"
| "is_event (HLog _ _ _ _) = True"
| "is_event _ = False"

fun well_typed :: "node \<Rightarrow> bool" where
  "well_typed (Event h) = is_event h"
| "well_typed (SelfDestructed a x) = True"
| "well_typed (Invoke a ns x) = (callTypeToProto (ca_typ a) \<noteq> UNSPECIFIED \<and> list_all well_typed ns)"

subsection \<open>The evaluator\<close>

text \<open>What a call tree reads and advances: the counters, the preimages, the calls that returned.\<close>

record eval_state =
  es_ordinal :: u64
  es_index :: u32
  es_logs :: u32
  es_preimages :: "recordedPreimage list"
  es_calls :: "Call list"
  es_suicided :: int

definition tick :: "eval_state \<Rightarrow> eval_state" where
  "tick s = s\<lparr>es_ordinal := es_ordinal s + 1\<rparr>"

lemma tick_fields [simp]:
  "es_ordinal (tick s) = es_ordinal s + 1" "es_index (tick s) = es_index s" "es_logs (tick s) = es_logs s"
  "es_preimages (tick s) = es_preimages s" "es_calls (tick s) = es_calls s" "es_suicided (tick s) = es_suicided s"
  by (simp_all add: tick_def)

fun eval_event :: "hook \<Rightarrow> Call \<times> eval_state \<Rightarrow> Call \<times> eval_state" where
  "eval_event (HBalanceChange addr old new reason) (c, s) =
     (if reason = REASON_UNKNOWN \<or> bigIntEqual old new then (c, s)
      else (call_add_balance \<lparr>bc_Ordinal = es_ordinal s + 1, bc_Address = addr,
        bc_OldValue = bigIntToProtobuf old, bc_NewValue = bigIntToProtobuf new, bc_Reason = reason\<rparr> c, tick s))"
| "eval_event (HNonceChange addr old new) (c, s) =
     (if old = new then (c, s)
      else (call_add_nonce \<lparr>nc_Address = addr, nc_OldValue = old, nc_NewValue = new,
        nc_Ordinal = es_ordinal s + 1\<rparr> c, tick s))"
| "eval_event (HCodeChange addr prevHash newHash old new) (c, s) =
     (if prevHash = newHash \<or> call_Suicide c \<and> old \<noteq> [] \<and> new = [] then (c, s)
      else (call_add_code \<lparr>cc_Address = addr, cc_OldHash = prevHash, cc_OldCode = old, cc_NewHash = newHash,
        cc_NewCode = new, cc_Ordinal = es_ordinal s + 1\<rparr> c, tick s))"
| "eval_event (HStorageChange addr slot old new) (c, s) =
     (if old = new then (c, s)
      else (call_add_storage \<lparr>sc_Address = addr, sc_Key = slot, sc_OldValue = old, sc_NewValue = new,
        sc_Ordinal = es_ordinal s + 1\<rparr> c, tick s))"
| "eval_event (HLog addr topics data idx) (c, s) =
     (call_add_log \<lparr>log_Address = addr, log_Topics = topics, log_Data = data, log_Index = es_logs s,
        log_BlockIndex = idx, log_Ordinal = es_ordinal s + 1\<rparr> c, (tick s)\<lparr>es_logs := es_logs s + 1\<rparr>)"
| "eval_event (HOpcode pc op1 gas cost rData depth err) (c, s) =
     (c\<lparr>call_ExecutedCode := True,
        call_Suicide := (if err = None \<and> op1 = 0xff then True else call_Suicide c)\<rparr>, s)"
| "eval_event (HOpcodeFault pc op1 gas cost depth err) (c, s) = (c\<lparr>call_ExecutedCode := True\<rparr>, s)"
| "eval_event (HKeccakPreimage hash preimage) (c, s) =
     (if length preimage > maxKeccakPreimageSize then (c, s)
      else (c, s\<lparr>es_preimages := es_preimages s @
        [\<lparr>rp_callIndex = call_Index c, rp_hash = hash, rp_preimage = preimage\<rparr>]\<rparr>))"
| "eval_event _ (c, s) = (c, s)"

text \<open>
  A call starts with the next index and ordinal, \<open>parent\<close> the index of the caller (0 for the root),
  \<open>deleg\<close> the delegation lookup; it ends with the next ordinal and joins the calls that returned.
\<close>

definition eval_enter ::
    "(CallType \<Rightarrow> bytes \<Rightarrow> bytes option) \<Rightarrow> nat \<Rightarrow> u32 \<Rightarrow> call_args \<Rightarrow> eval_state \<Rightarrow> Call \<times> eval_state" where
  "eval_enter deleg d parent a s =
     (empty_Call\<lparr>call_CallType := callTypeToProto (ca_typ a), call_Caller := ca_caller a,
        call_Address := ca_target a, call_Value := bigIntToProtobuf (ca_value a), call_GasLimit := ca_gas a,
        call_Input := ca_input a, call_BeginOrdinal := es_ordinal s + 1,
        call_AddressDelegatesTo := deleg (callTypeToProto (ca_typ a)) (ca_target a),
        call_Index := es_index s + 1, call_Depth := of_nat d, call_ParentIndex := parent\<rparr>,
      (tick s)\<lparr>es_index := es_index s + 1\<rparr>)"

definition eval_exit :: "call_result \<Rightarrow> Call \<times> eval_state \<Rightarrow> eval_state" where
  "eval_exit x = (\<lambda>(c, s). (tick s)\<lparr>es_calls := es_calls s @
     [(exit_call (cx_output x) (cx_gasUsed x) (cx_err x) (cx_reverted x) c)
        \<lparr>call_EndOrdinal := es_ordinal s + 1\<rparr>]\<rparr>)"

fun eval_node ::
    "(CallType \<Rightarrow> bytes \<Rightarrow> bytes option) \<Rightarrow> nat \<Rightarrow> node \<Rightarrow> Call \<times> eval_state \<Rightarrow> Call \<times> eval_state" where
  "eval_node deleg d (Event h) (c, s) = eval_event h (c, s)"
| "eval_node deleg d (SelfDestructed a x) (c, s) = (c, s\<lparr>es_suicided := int d\<rparr>)"
| "eval_node deleg d (Invoke a ns x) (c, s) =
     (c, eval_exit x (fold (eval_node deleg (Suc d)) ns (eval_enter deleg d (call_Index c) a s)))"

definition eval_nodes ::
    "(CallType \<Rightarrow> bytes \<Rightarrow> bytes option) \<Rightarrow> nat \<Rightarrow> node list \<Rightarrow> Call \<times> eval_state \<Rightarrow> Call \<times> eval_state" where
  "eval_nodes deleg d ns cs = fold (eval_node deleg d) ns cs"

text \<open>The root call starts with the changes that waited in the deferred state.\<close>

definition eval_root ::
    "(CallType \<Rightarrow> bytes \<Rightarrow> bytes option) \<Rightarrow> DeferredCallState \<Rightarrow> call_args \<Rightarrow> node list \<Rightarrow> call_result
      \<Rightarrow> eval_state \<Rightarrow> eval_state" where
  "eval_root deleg d a ns x s =
     (let (c, s) = eval_enter deleg 0 0 a s
      in eval_exit x (eval_nodes deleg 1 ns (prepend_deferred d c, s)))"

subsection \<open>The states of the tracer that stand for states of the evaluator\<close>

text \<open>
  \<open>conc t cs s\<close>: the tracer \<open>t\<close> with the calls \<open>cs\<close> active and the counters, preimages and returned
  calls of \<open>s\<close>. \<open>abst\<close> reads the evaluator's state off a tracer.
\<close>

definition conc :: "tracer \<Rightarrow> Call list \<Rightarrow> eval_state \<Rightarrow> tracer" where
  "conc t cs s = t\<lparr>t_blockOrdinal := \<lparr>ord_value = es_ordinal s\<rparr>,
     t_transaction := map_option (\<lambda>x. x\<lparr>trx_Calls := es_calls s\<rparr>) (t_transaction t),
     t_transactionLogIndex := es_logs s, t_transactionKeccakPreimages := es_preimages s,
     t_callStack := \<lparr>cs_stack = cs, cs_index = es_index s, cs_depth = int (length cs)\<rparr>,
     t_latestCallEnterSuicidedDepth := es_suicided s\<rparr>"

definition abst :: "tracer \<Rightarrow> eval_state" where
  "abst t = \<lparr>es_ordinal = ord_value (t_blockOrdinal t), es_index = cs_index (t_callStack t),
     es_logs = t_transactionLogIndex t, es_preimages = t_transactionKeccakPreimages t,
     es_calls = (case t_transaction t of None \<Rightarrow> [] | Some x \<Rightarrow> trx_Calls x),
     es_suicided = t_latestCallEnterSuicidedDepth t\<rparr>"

text \<open>A transaction is being traced.\<close>

definition in_transaction :: "tracer \<Rightarrow> bool" where
  "in_transaction t \<longleftrightarrow> t_chainConfig t \<noteq> None \<and> t_block t \<noteq> None \<and> t_transaction t \<noteq> None \<and> t_transactionTransient t = None
     \<and> \<not> t_latestCallEnterSuicided t"

definition delegation :: "tracer \<Rightarrow> CallType \<Rightarrow> bytes \<Rightarrow> bytes option" where
  "delegation t typ addr = delegates_to typ addr t"

lemma conc_fields [simp]:
  "t_block (conc t cs s) = t_block t"
  "t_chainConfig (conc t cs s) = t_chainConfig t"
  "t_transaction (conc t cs s) = None \<longleftrightarrow> t_transaction t = None"
  "t_transactionTransient (conc t cs s) = t_transactionTransient t"
  "t_latestCallEnterSuicided (conc t cs s) = t_latestCallEnterSuicided t"
  "t_deferredCallState (conc t cs s) = t_deferredCallState t"
  "ord_value (t_blockOrdinal (conc t cs s)) = es_ordinal s"
  "t_transactionLogIndex (conc t cs s) = es_logs s"
  "t_callStack (conc t cs s) = \<lparr>cs_stack = cs, cs_index = es_index s, cs_depth = int (length cs)\<rparr>"
  "active_call (conc t (cs @ [c]) s) = Some c"
  "delegates_to typ addr (conc t cs s) = delegation t typ addr"
  by (simp_all add: conc_def active_call_def cs_Peek_def delegation_def delegates_to_def)

lemma delegation_conc [simp]: "delegation (conc t cs s) = delegation t"
  by (simp add: delegation_def fun_eq_iff)

lemma conc_tick:
  "(conc t cs s)\<lparr>t_blockOrdinal := snd (ordinal_Next (t_blockOrdinal (conc t cs s)))\<rparr> = conc t cs (tick s)"
  by (simp add: conc_def tick_def ordinal_defs)

lemma conc_active: "update_active f (conc t (cs @ [c]) s) = conc t (cs @ [f c]) s"
  by (simp add: conc_def update_active_def cs_update_top_def)

lemma conc_logs: "(conc t cs s)\<lparr>t_transactionLogIndex := n\<rparr> = conc t cs (s\<lparr>es_logs := n\<rparr>)"
  by (simp add: conc_def)

lemma conc_stack:
  "k = int (length cs') \<Longrightarrow>
     (conc t cs s)\<lparr>t_callStack := \<lparr>cs_stack = cs', cs_index = i, cs_depth = k\<rparr>\<rparr> = conc t cs' (s\<lparr>es_index := i\<rparr>)"
  by (simp add: conc_def)

lemma conc_preimages:
  "(conc t cs s)\<lparr>t_transactionKeccakPreimages := k\<rparr> = conc t cs (s\<lparr>es_preimages := k\<rparr>)"
  "t_transactionKeccakPreimages (conc t cs s) = es_preimages s"
  by (simp_all add: conc_def)

lemma in_transaction_conc [simp]: "in_transaction (conc t cs s) = in_transaction t"
  by (simp add: in_transaction_def)

lemmas conc_steps = conc_tick conc_active conc_logs conc_stack conc_preimages

lemma conc_abst:
  assumes "in_transaction t" and "cs_stack (t_callStack t) = []" and "cs_depth (t_callStack t) = 0"
  shows "conc t [] (abst t) = t"
  using assms by (cases t) (auto simp: conc_def abst_def in_transaction_def split: option.splits)

subsection \<open>The simulation\<close>

lemma event_step:
  assumes "in_transaction t" and "is_event h"
  shows "apply_hook cr h (conc t (cs @ [c]) s)
    = Inr (case eval_event h (c, s) of (c', s') \<Rightarrow> conc t (cs @ [c']) s')"
proof -
  obtain g b x where block: "t_chainConfig t = Some g" "t_block t = Some b" and trx: "t_transaction t = Some x"
    using assms(1) by (auto simp: in_transaction_def)
  note change = change_hook_defs Let_def check_def ensure_defs conc_steps df_add_defs
  show ?thesis
  proof (cases h)
    case (HBalanceChange addr old new reason)
    then show ?thesis using block trx by (simp add: change)
  next
    case (HNonceChange addr old new)
    then show ?thesis using block trx by (simp add: change)
  next
    case (HCodeChange addr ph nh old new)
    then show ?thesis using block trx by (simp add: change)
  next
    case (HStorageChange addr slot old new)
    then show ?thesis using block trx by (simp add: change)
  next
    case (HLog addr topics data idx)
    then show ?thesis using block trx by (simp add: change)
  next
    case (HOpcode pc op1 gas cost rData depth err)
    then show ?thesis by (simp add: OnOpcode_def Let_def conc_steps)
  next
    case (HOpcodeFault pc op1 gas cost depth err)
    then show ?thesis by (simp add: OnOpcodeFault_def conc_steps)
  next
    case (HKeccakPreimage hash preimage)
    then show ?thesis using block trx by (simp add: OnKeccakPreimage_def change)
  qed (use assms(2) in simp_all)
qed

lemma enter_step:
  assumes "in_transaction t" and "callTypeToProto (ca_typ a) \<noteq> UNSPECIFIED"
  shows "apply_hook cr (enter_hook (Suc (length cs)) (ca_typ a) a) (conc t (cs @ [c]) s)
    = Inr (case eval_enter (delegation t) (Suc (length cs)) (call_Index c) a s of
             (c', s') \<Rightarrow> conc t (cs @ [c, c']) s')"
proof -
  have "ca_typ a \<noteq> CallTypeSelfDestruct"
    using assms(2) by (auto simp: callTypeToProto_def CallType_defs)
  then show ?thesis using assms
    by (simp add: enter_hook_def OnCallEnter_def Let_def check_def eval_enter_def conc_steps cs_Push_def cs_Peek_def empty_Call_def)
qed

lemma exit_step:
  assumes "in_transaction t"
  shows "apply_hook cr (exit_hook d x) (conc t (cs @ [c]) s) = Inr (conc t cs (eval_exit x (c, s)))"
proof -
  obtain g b y where "t_chainConfig t = Some g" "t_block t = Some b" and "t_transaction t = Some y"
    using assms by (auto simp: in_transaction_def)
  then show ?thesis using assms
    by (simp add: exit_hook_def OnCallExit_def ensure_defs check_def cs_Pop_def Let_def eval_exit_def
        in_transaction_def conc_def update_transaction_def tick_def ordinal_defs)
qed

lemma self_destruct_step:
  assumes "in_transaction t"
  shows "run_hooks cr [enter_hook d CallTypeSelfDestruct a, exit_hook d x] (conc t cs s)
    = Inr (conc t cs (s\<lparr>es_suicided := int d\<rparr>))"
  using assms by (simp add: enter_hook_def exit_hook_def OnCallEnter_def OnCallExit_def conc_def in_transaction_def)

definition simulates :: "Crypto \<Rightarrow> tracer \<Rightarrow> node \<Rightarrow> bool" where
  "simulates cr t n \<longleftrightarrow> (\<forall>cs c s. run_hooks cr (hooks_of (Suc (length cs)) n) (conc t (cs @ [c]) s)
     = Inr (case eval_node (delegation t) (Suc (length cs)) n (c, s) of (c', s') \<Rightarrow> conc t (cs @ [c']) s'))"

lemma simulates_list:
  assumes "list_all (simulates cr t) ns"
  shows "run_hooks cr (concat (map (hooks_of (Suc (length cs))) ns)) (conc t (cs @ [c]) s)
    = Inr (case eval_nodes (delegation t) (Suc (length cs)) ns (c, s) of (c', s') \<Rightarrow> conc t (cs @ [c']) s')"
  using assms
proof (induction ns arbitrary: c s)
  case Nil
  then show ?case by (simp add: eval_nodes_def)
next
  case (Cons n ns)
  obtain c1 s1 where e: "eval_node (delegation t) (Suc (length cs)) n (c, s) = (c1, s1)" by fastforce
  have "run_hooks cr (hooks_of (Suc (length cs)) n) (conc t (cs @ [c]) s) = Inr (conc t (cs @ [c1]) s1)"
    using Cons.prems e by (simp add: simulates_def)
  then show ?case using Cons.IH [of c1 s1] Cons.prems by (simp add: run_hooks_append eval_nodes_def e)
qed

lemma simulation:
  assumes "in_transaction t" and "well_typed n"
  shows "simulates cr t n"
  using assms(2)
proof (induction n)
  case (Event h)
  then show ?case using event_step [OF assms(1)] by (simp add: simulates_def)
next
  case (SelfDestructed a x)
  show ?case unfolding simulates_def hooks_of.simps self_destruct_step [OF assms(1)] by simp
next
  case (Invoke a ns x)
  have ns: "list_all (simulates cr t) ns" and ty: "callTypeToProto (ca_typ a) \<noteq> UNSPECIFIED"
    using Invoke by (auto simp: list_all_iff)
  show ?case
    unfolding simulates_def
  proof (intro allI)
    fix cs :: "Call list" and c :: Call and s :: eval_state
    let ?d = "Suc (length cs)"
    obtain c1 s1 where e1: "eval_enter (delegation t) ?d (call_Index c) a s = (c1, s1)" by fastforce
    obtain c2 s2 where e2: "eval_nodes (delegation t) (Suc ?d) ns (c1, s1) = (c2, s2)" by fastforce
    have "run_hooks cr (concat (map (hooks_of (Suc ?d)) ns)) (conc t (cs @ [c, c1]) s1)
        = Inr (conc t (cs @ [c, c2]) s2)"
      using simulates_list [OF ns, of "cs @ [c]" c1 s1] e2 by simp
    moreover have "apply_hook cr (exit_hook ?d x) (conc t (cs @ [c, c2]) s2)
        = Inr (conc t (cs @ [c]) (eval_exit x (c2, s2)))"
      using exit_step [OF assms(1), of cr ?d x "cs @ [c]" c2 s2] by simp
    ultimately show "run_hooks cr (hooks_of ?d (Invoke a ns x)) (conc t (cs @ [c]) s)
      = Inr (case eval_node (delegation t) ?d (Invoke a ns x) (c, s) of (c', s') \<Rightarrow> conc t (cs @ [c']) s')"
      using enter_step [OF assms(1) ty, of cr cs c s] e1 e2
      by (simp add: run_hooks_append eval_nodes_def)
  qed
qed

lemma conc_deferred:
  "conc (t\<lparr>t_deferredCallState := d\<rparr>) cs s = (conc t cs s)\<lparr>t_deferredCallState := d\<rparr>"
  by (simp add: conc_def)

lemma root_enter_step:
  assumes "in_transaction t" and "callTypeToProto (ca_typ a) \<noteq> UNSPECIFIED"
  shows "apply_hook cr (enter_hook 0 (ca_typ a) a) (conc t [] s)
    = Inr (case eval_enter (delegation t) 0 0 a s of
        (c, s') \<Rightarrow> conc (t\<lparr>t_deferredCallState := NewDeferredCallState\<rparr>)
          [prepend_deferred (t_deferredCallState t) c] s')"
proof -
  have "ca_typ a \<noteq> CallTypeSelfDestruct"
    using assms(2) by (auto simp: callTypeToProto_def CallType_defs)
  then show ?thesis using assms
    by (simp add: enter_hook_def OnCallEnter_def Let_def check_def eval_enter_def conc_steps cs_Push_def
        cs_Peek_def empty_Call_def conc_deferred populate_enter prepend_deferred_def)
       (simp add: conc_def)
qed

lemma root_call_step:
  assumes "in_transaction t" and "cs_stack (t_callStack t) = []" and "cs_depth (t_callStack t) = 0"
    and "well_typed (Invoke a ns x)"
  shows "run_hooks cr (hooks_of 0 (Invoke a ns x)) t
    = Inr (conc (t\<lparr>t_deferredCallState := NewDeferredCallState\<rparr>) []
        (eval_root (delegation t) (t_deferredCallState t) a ns x (abst t)))"
proof -
  let ?t = "t\<lparr>t_deferredCallState := NewDeferredCallState\<rparr>"
  have in1: "in_transaction ?t" and deleg: "delegation ?t = delegation t"
    using assms(1) by (auto simp: in_transaction_def delegation_def delegates_to_def fun_eq_iff)
  have ty: "callTypeToProto (ca_typ a) \<noteq> UNSPECIFIED" and ns: "list_all (simulates cr ?t) ns"
    using assms(4) simulation [OF in1] by (auto simp: list_all_iff)
  obtain c s where e1: "eval_enter (delegation t) 0 0 a (abst t) = (c, s)" by fastforce
  let ?c = "prepend_deferred (t_deferredCallState t) c"
  obtain c2 s2 where e2: "eval_nodes (delegation t) 1 ns (?c, s) = (c2, s2)" by fastforce
  have "apply_hook cr (enter_hook 0 (ca_typ a) a) t = Inr (conc ?t [?c] s)"
    using root_enter_step [OF assms(1) ty, of cr "abst t"] conc_abst [OF assms(1-3)] e1 by simp
  moreover have "run_hooks cr (concat (map (hooks_of 1) ns)) (conc ?t [?c] s) = Inr (conc ?t [c2] s2)"
    using simulates_list [OF ns, of "[]" ?c s] e2 deleg by simp
  moreover have "apply_hook cr (exit_hook 0 x) (conc ?t [c2] s2) = Inr (conc ?t [] (eval_exit x (c2, s2)))"
    using exit_step [OF in1, of cr 0 x "[]" c2 s2] by simp
  ultimately show ?thesis using e1 e2 by (simp add: run_hooks_append eval_root_def)
qed

lemma abst_conc:
  "t_transaction t \<noteq> None \<Longrightarrow> abst ((conc t cs s)\<lparr>t_deferredCallState := d\<rparr>) = s"
  by (auto simp: abst_def conc_def)

text \<open>
  C4. The tracer refines the recursive evaluator: for every tree of calls the EVM can execute, the hooks of
  the tree, run on a tracer with a transaction and no active call, do not panic, and the state they
  leave abstracts to what the evaluator computes from the abstraction of the state before: counters,
  preimages, and the completed calls of the tree. The deferred state is emptied into the root call and
  nothing else of the tracer changes.
\<close>

theorem execution_refines:
  assumes "in_transaction t" and "cs_stack (t_callStack t) = []" and "cs_depth (t_callStack t) = 0"
    and "well_typed (Invoke a ns x)"
  shows "\<exists>t'. run_hooks cr (hooks_of 0 (Invoke a ns x)) t = Inr t'
    \<and> abst t' = eval_root (delegation t) (t_deferredCallState t) a ns x (abst t)
    \<and> t' = (conc t [] (abst t'))\<lparr>t_deferredCallState := NewDeferredCallState\<rparr>"
proof -
  have "t_transaction t \<noteq> None" using assms(1) by (simp add: in_transaction_def)
  then show ?thesis
    using root_call_step [OF assms, of cr] abst_conc by (simp add: conc_deferred)
qed

end
