(* ===== verification/ExecutionSpec.thy ===== *)
theory ExecutionSpec
  imports Execution OrdinalInv
begin

section \<open>What the evaluator of call trees guarantees\<close>

text \<open>
  Three facts about the calls of an executed tree, each a relation between the state before a node and
  the state after it: the ordinals taken are recorded once and none is lost (\<open>keeps_record\<close>), the
  intervals of the calls nest as the calls do (\<open>keeps_nesting\<close>), and every list of changes increases
  (\<open>keeps_order\<close>). The locale says what such a relation must satisfy to hold of a whole tree; its
  number bounds the ordinals the node takes, so that nothing is claimed when the counter wraps.
\<close>

locale eval_relation =
  fixes rel :: "nat \<Rightarrow> Call \<times> eval_state \<Rightarrow> Call \<times> eval_state \<Rightarrow> bool"
  assumes rel_refl: "rel m p p"
    and rel_trans: "rel m p q \<Longrightarrow> rel n q r \<Longrightarrow> rel (m + n) p r"
    and rel_event: "is_event h \<Longrightarrow> rel 1 p (eval_event h p)"
    and rel_suicided: "rel m (c, s) (c, s\<lparr>es_suicided := k\<rparr>)"
    and rel_invoke: "rel m (eval_enter deleg d (call_Index c) a s) (c2, s2)
      \<Longrightarrow> rel (m + 2) (c, s) (c, eval_exit x (c2, s2))"
begin

lemma nodes_rel:
  assumes "\<And>n p. n \<in> set ns \<Longrightarrow> rel (length (hooks_of d n)) p (eval_node deleg d n p)"
  shows "rel (length (concat (map (hooks_of d) ns))) p (eval_nodes deleg d ns p)"
  using assms
proof (induction ns arbitrary: p)
  case Nil
  then show ?case by (simp add: eval_nodes_def rel_refl)
next
  case (Cons n ns)
  have "rel (length (hooks_of d n)) p (eval_node deleg d n p)" using Cons.prems by simp
  moreover have "rel (length (concat (map (hooks_of d) ns))) (eval_node deleg d n p)
      (eval_nodes deleg d ns (eval_node deleg d n p))"
    using Cons by simp
  ultimately show ?case
    by (auto simp: eval_nodes_def dest: rel_trans)
qed

lemma node_rel: "well_typed n \<Longrightarrow> rel (length (hooks_of d n)) p (eval_node deleg d n p)"
proof (induction n arbitrary: d p)
  case (Event h)
  then show ?case using rel_event by (cases p) simp
next
  case (SelfDestructed a x)
  then show ?case using rel_suicided by (cases p) simp
next
  case (Invoke a ns x)
  obtain c s where p: "p = (c, s)" by fastforce
  obtain c2 s2 where e: "eval_nodes deleg (Suc d) ns (eval_enter deleg d (call_Index c) a s) = (c2, s2)"
    by fastforce
  have "rel (length (concat (map (hooks_of (Suc d)) ns))) (eval_enter deleg d (call_Index c) a s) (c2, s2)"
    using nodes_rel [of ns "Suc d" deleg "eval_enter deleg d (call_Index c) a s"] Invoke
    by (simp add: list_all_iff e)
  from rel_invoke [OF this, of x] e show ?case by (simp add: p eval_nodes_def)
qed

lemma all_nodes_rel:
  "list_all well_typed ns \<Longrightarrow>
     rel (length (concat (map (hooks_of d) ns))) p (eval_nodes deleg d ns p)"
  by (intro nodes_rel node_rel) (simp_all add: list_all_iff)

end

subsection \<open>Every ordinal is recorded once\<close>

text \<open>The ordinals after \<open>m\<close> up to \<open>n\<close>.\<close>

definition span :: "nat \<Rightarrow> nat \<Rightarrow> ordinals" where
  "span m n = mset (map of_nat [Suc m..<Suc n])"

lemma span_refl [simp]: "span n n = {#}"
  by (simp add: span_def)

lemma span_join: "l \<le> m \<Longrightarrow> m \<le> n \<Longrightarrow> span l m + span m n = span l n"
  unfolding span_def by (metis Suc_le_mono map_append mset_append upt_add_eq_append le_add_diff_inverse)

lemma span_next: "span (unat w) (Suc (unat w)) = {#w + 1#}"
  by (simp add: span_def)

definition now :: "eval_state \<Rightarrow> nat" where
  "now s = unat (es_ordinal s)"

definition proceeds :: "nat \<Rightarrow> eval_state \<Rightarrow> eval_state \<Rightarrow> bool" where
  "proceeds m s s' \<longleftrightarrow> now s \<le> now s' \<and> now s' \<le> now s + m"

lemma proceeds_trans: "proceeds m s s' \<Longrightarrow> proceeds n s' s'' \<Longrightarrow> proceeds (m + n) s s''"
  by (simp add: proceeds_def)

lemma now_tick: "now s + 1 < 2 ^ 64 \<Longrightarrow> now (tick s) = now s + 1"
  by (simp add: now_def unat_add_one)

definition eval_mset :: "Call \<times> eval_state \<Rightarrow> ordinals" where
  "eval_mset = (\<lambda>(c, s). call_mset c + calls_mset (es_calls s))"

definition keeps_record :: "nat \<Rightarrow> Call \<times> eval_state \<Rightarrow> Call \<times> eval_state \<Rightarrow> bool" where
  "keeps_record m p q \<longleftrightarrow> (now (snd p) + m < 2 ^ 64 \<longrightarrow> proceeds m (snd p) (snd q)
     \<and> call_EndOrdinal (fst q) = call_EndOrdinal (fst p)
     \<and> eval_mset q = eval_mset p + span (now (snd p)) (now (snd q)))"

lemma change_ordinals_adds:
  "change_ordinals (call_add_balance b c) = (change_ordinals c)[0 := change_ordinals c ! 0 @ [bc_Ordinal b]]"
  "change_ordinals (call_add_nonce n c) = (change_ordinals c)[1 := change_ordinals c ! 1 @ [nc_Ordinal n]]"
  "change_ordinals (call_add_code k c) = (change_ordinals c)[2 := change_ordinals c ! 2 @ [cc_Ordinal k]]"
  "change_ordinals (call_add_storage g c) = (change_ordinals c)[3 := change_ordinals c ! 3 @ [sc_Ordinal g]]"
  "change_ordinals (call_add_log l c) = (change_ordinals c)[4 := change_ordinals c ! 4 @ [log_Ordinal l]]"
  "change_ordinals (c\<lparr>call_ExecutedCode := u\<rparr>) = change_ordinals c"
  "change_ordinals (c\<lparr>call_ExecutedCode := u, call_Suicide := v\<rparr>) = change_ordinals c"
  by (simp_all add: change_ordinals_def call_add_defs numeral_nat)

lemma length_change_ordinals [simp]: "length (change_ordinals c) = 5"
  by (simp add: change_ordinals_def)

text \<open>The place of a call in the trace, and one more ordinal at the end of one of its lists.\<close>

definition place :: "Call \<Rightarrow> u32 \<times> u32 \<times> u64 \<times> u64" where
  "place c = (call_Index c, call_ParentIndex c, call_BeginOrdinal c, call_EndOrdinal c)"

definition one_more :: "u64 list list \<Rightarrow> u64 \<Rightarrow> u64 list list \<Rightarrow> bool" where
  "one_more oss x oss' \<longleftrightarrow> (\<exists>i < length oss. oss' = oss[i := oss ! i @ [x]])"

lemma one_more_mset: "one_more oss x oss' \<Longrightarrow> mset (concat oss') = add_mset x (mset (concat oss))"
proof -
  assume "one_more oss x oss'"
  then obtain i where i: "i < length oss" "oss' = oss[i := oss ! i @ [x]]" by (auto simp: one_more_def)
  then show ?thesis by (simp add: upd_conv_take_nth_drop) (subst (3) id_take_nth_drop [OF i(1)], simp)
qed

lemma one_more_at: "i < length oss \<Longrightarrow> one_more oss x (oss[i := oss ! i @ [x]])"
  by (auto simp: one_more_def)

lemma one_more_adds [simp]:
  "bc_Ordinal b = x \<Longrightarrow> one_more (change_ordinals c) x (change_ordinals (call_add_balance b c))"
  "nc_Ordinal n = x \<Longrightarrow> one_more (change_ordinals c) x (change_ordinals (call_add_nonce n c))"
  "cc_Ordinal k = x \<Longrightarrow> one_more (change_ordinals c) x (change_ordinals (call_add_code k c))"
  "sc_Ordinal g = x \<Longrightarrow> one_more (change_ordinals c) x (change_ordinals (call_add_storage g c))"
  "log_Ordinal l = x \<Longrightarrow> one_more (change_ordinals c) x (change_ordinals (call_add_log l c))"
  by (simp_all add: change_ordinals_adds one_more_at)

lemma place_adds [simp]:
  "place (call_add_balance b c) = place c" "place (call_add_nonce n c) = place c"
  "place (call_add_code k c) = place c" "place (call_add_storage g c) = place c"
  "place (call_add_log l c) = place c" "place (c\<lparr>call_ExecutedCode := u\<rparr>) = place c"
  "place (c\<lparr>call_ExecutedCode := u, call_Suicide := v\<rparr>) = place c"
  by (simp_all add: place_def call_add_defs)

lemma event_effect:
  assumes "is_event h" and "eval_event h (c, s) = (c', s')"
  shows "place c' = place c \<and> es_calls s' = es_calls s \<and> es_index s' = es_index s \<and>
    (es_ordinal s' = es_ordinal s \<and> change_ordinals c' = change_ordinals c
     \<or> es_ordinal s' = es_ordinal s + 1 \<and> one_more (change_ordinals c) (es_ordinal s + 1) (change_ordinals c'))"
  using assms
  by (cases h; auto simp: change_ordinals_adds(6,7) split: if_splits)

lemma call_mset_place:
  "place c' = place c \<Longrightarrow> call_mset c' + mset (concat (change_ordinals c)) = call_mset c + mset (concat (change_ordinals c'))"
  by (simp add: call_mset_def place_def ac_simps)

lemma enter_effect:
  assumes "eval_enter deleg d parent a s = (c, s1)"
  shows "place c = (es_index s + 1, parent, es_ordinal s + 1, 0)" and "change_ordinals c = [[], [], [], [], []]"
    and "es_ordinal s1 = es_ordinal s + 1" and "es_calls s1 = es_calls s" and "es_index s1 = es_index s + 1"
  using assms by (auto simp: eval_enter_def place_def change_ordinals_def empty_Call_def)

definition returned :: "call_result \<Rightarrow> Call \<Rightarrow> u64 \<Rightarrow> Call" where
  "returned x c o1 = (exit_call (cx_output x) (cx_gasUsed x) (cx_err x) (cx_reverted x) c)\<lparr>call_EndOrdinal := o1\<rparr>"

lemma exit_effect:
  "es_ordinal (eval_exit x (c, s)) = es_ordinal s + 1" "es_index (eval_exit x (c, s)) = es_index s"
  "es_calls (eval_exit x (c, s)) = es_calls s @ [returned x c (es_ordinal s + 1)]"
  by (simp_all add: eval_exit_def returned_def)

lemma returned_effect [simp]:
  "change_ordinals (returned x c o1) = change_ordinals c"
  "call_Index (returned x c o1) = call_Index c" "call_ParentIndex (returned x c o1) = call_ParentIndex c"
  "call_BeginOrdinal (returned x c o1) = call_BeginOrdinal c" "call_EndOrdinal (returned x c o1) = o1"
  by (simp_all add: returned_def change_ordinals_def)

lemma returned_mset:
  "call_EndOrdinal c = 0 \<Longrightarrow> call_mset (returned x c o1) + {#0#} = add_mset o1 (call_mset c)"
  by (simp add: call_mset_def)

lemma span_of_next: "now s + 1 < 2 ^ 64 \<Longrightarrow> es_ordinal s' = es_ordinal s + 1 \<Longrightarrow>
    now s' = now s + 1 \<and> span (now s) (now s') = {#es_ordinal s + 1#}"
  using span_next [of "es_ordinal s"] by (simp add: now_def unat_add_one)

lemma keeps_record_event:
  assumes "is_event h"
  shows "keeps_record 1 p (eval_event h p)"
proof -
  obtain c s where p: "p = (c, s)" by fastforce
  obtain c' s' where e: "eval_event h (c, s) = (c', s')" by fastforce
  note effect = event_effect [OF assms e]
  then have end1: "call_EndOrdinal c' = call_EndOrdinal c" by (simp add: place_def)
  from effect consider
      "es_ordinal s' = es_ordinal s" "change_ordinals c' = change_ordinals c"
    | "es_ordinal s' = es_ordinal s + 1" "one_more (change_ordinals c) (es_ordinal s + 1) (change_ordinals c')"
    by blast
  then show ?thesis
  proof cases
    case 1
    then have "call_mset c' = call_mset c" using call_mset_place [of c' c] effect by simp
    with 1 effect end1 show ?thesis
      by (simp add: keeps_record_def p e eval_mset_def proceeds_def now_def)
  next
    case 2
    have "call_mset c' = add_mset (es_ordinal s + 1) (call_mset c)"
      using call_mset_place [of c' c] one_more_mset [OF 2(2)] effect by simp
    with effect end1 span_of_next [OF _ 2(1)] show ?thesis
      by (auto simp: keeps_record_def p e eval_mset_def proceeds_def)
  qed
qed

text \<open>The ordinals a call runs from and to.\<close>

definition begins :: "Call \<Rightarrow> nat" where
  "begins k = unat (call_BeginOrdinal k)"

definition ends :: "Call \<Rightarrow> nat" where
  "ends k = unat (call_EndOrdinal k)"

lemma exit_now:
  assumes "proceeds m s s2" and "now s + m + 1 < 2 ^ 64"
  shows "now (eval_exit x (c2, s2)) = now s2 + 1"
    and "span (now s2) (now s2 + 1) = {#es_ordinal s2 + 1#}"
proof -
  have "now (eval_exit x (c2, s2)) = now s2 + 1
      \<and> span (now s2) (now (eval_exit x (c2, s2))) = {#es_ordinal s2 + 1#}"
    using assms by (intro span_of_next [OF _ exit_effect(1)]) (simp add: proceeds_def)
  then show "now (eval_exit x (c2, s2)) = now s2 + 1"
    and "span (now s2) (now s2 + 1) = {#es_ordinal s2 + 1#}" by auto
qed

lemma enter_now:
  assumes "eval_enter deleg d parent a s = (c1, s1)" and "now s + 1 < 2 ^ 64"
  shows "now s1 = now s + 1" and "span (now s) (now s + 1) = {#es_ordinal s + 1#}"
    and "begins c1 = now s1"
  using span_of_next [OF assms(2) enter_effect(3) [OF assms(1)]] enter_effect(1,3) [OF assms(1)]
  by (auto simp: place_def begins_def now_def)

text \<open>A call that returns after its nodes.\<close>

lemma record_returns:
  assumes "keeps_record m (c1, s1) (c2, s2)" and "now s1 + m + 1 < 2 ^ 64" and "call_EndOrdinal c1 = 0"
  shows "proceeds (m + 1) s1 (eval_exit x (c2, s2))
    \<and> add_mset 0 (calls_mset (es_calls (eval_exit x (c2, s2))))
        = eval_mset (c1, s1) + span (now s1) (now (eval_exit x (c2, s2)))"
proof -
  have g: "proceeds m s1 s2" and end2: "call_EndOrdinal c2 = 0"
    and ms: "eval_mset (c2, s2) = eval_mset (c1, s1) + span (now s1) (now s2)"
    using assms by (simp_all add: keeps_record_def)
  note n = exit_now [OF g assms(2)]
  have "add_mset 0 (calls_mset (es_calls (eval_exit x (c2, s2))))
      = calls_mset (es_calls s2) + (call_mset (returned x c2 (es_ordinal s2 + 1)) + {#0#})"
    by (simp add: exit_effect(3))
  also have "\<dots> = eval_mset (c2, s2) + {#es_ordinal s2 + 1#}"
    unfolding returned_mset [OF end2] by (simp add: eval_mset_def)
  also have "\<dots> = eval_mset (c1, s1) + (span (now s1) (now s2) + span (now s2) (now s2 + 1))"
    unfolding ms n(2) by (simp add: ac_simps)
  also have "span (now s1) (now s2) + span (now s2) (now s2 + 1) = span (now s1) (now s2 + 1)"
    using g by (intro span_join) (simp_all add: proceeds_def)
  finally show ?thesis using g n(1) by (simp add: proceeds_def)
qed

lemma keeps_record_invoke:
  assumes "keeps_record m (eval_enter deleg d parent a s) (c2, s2)"
  shows "keeps_record (m + 2) (c, s) (c, eval_exit x (c2, s2))"
proof -
  obtain c1 s1 where e: "eval_enter deleg d parent a s = (c1, s1)" by fastforce
  note enter = enter_effect [OF e]
  show ?thesis
    unfolding keeps_record_def fst_conv snd_conv
  proof
    assume room: "now s + (m + 2) < 2 ^ 64"
    then have n1: "now s1 = now s + 1" "span (now s) (now s + 1) = {#es_ordinal s + 1#}"
      using enter_now [OF e] by simp_all
    let ?r = "eval_exit x (c2, s2)"
    have r: "proceeds (m + 1) s1 ?r" and ms: "add_mset 0 (calls_mset (es_calls ?r)) = eval_mset (c1, s1) + span (now s1) (now ?r)"
      using record_returns [of m c1 s1 c2 s2 x] assms e room n1(1) enter(1) by (simp_all add: place_def)
    have "add_mset 0 (calls_mset (es_calls ?r))
        = {#0#} + calls_mset (es_calls s) + (span (now s) (now s + 1) + span (now s + 1) (now ?r))"
      using enter(1,2,4) unfolding ms n1 by (simp add: eval_mset_def call_mset_def place_def)
    also have "span (now s) (now s + 1) + span (now s + 1) (now ?r) = span (now s) (now ?r)"
      using r n1(1) by (intro span_join) (simp_all add: proceeds_def)
    finally show "proceeds (m + 2) s ?r \<and> call_EndOrdinal c = call_EndOrdinal c
        \<and> eval_mset (c, ?r) = eval_mset (c, s) + span (now s) (now ?r)"
      using r n1(1) by (simp add: eval_mset_def proceeds_def)
  qed
qed

interpretation recording: eval_relation keeps_record
proof
  show "keeps_record m p p" for m p
    by (simp add: keeps_record_def proceeds_def)
  show "keeps_record (m + n) p r" if "keeps_record m p q" "keeps_record n q r" for m n p q r
    using that by (auto simp: keeps_record_def proceeds_def span_join ac_simps)
  show "is_event h \<Longrightarrow> keeps_record 1 p (eval_event h p)" for h p
    by (rule keeps_record_event)
  show "keeps_record m (c, s) (c, s\<lparr>es_suicided := k\<rparr>)" for m c s k
    by (simp add: keeps_record_def proceeds_def eval_mset_def now_def)
  show "keeps_record m (eval_enter deleg d (call_Index c) a s) (c2, s2)
      \<Longrightarrow> keeps_record (m + 2) (c, s) (c, eval_exit x (c2, s2))" for m deleg d c a s c2 s2 x
    by (rule keeps_record_invoke)
qed

subsection \<open>The intervals of the calls nest\<close>

definition encloses :: "Call \<Rightarrow> Call \<Rightarrow> bool" where
  "encloses p k \<longleftrightarrow> begins p < begins k \<and> ends k < ends p"

definition apart :: "Call \<Rightarrow> Call \<Rightarrow> bool" where
  "apart k k' \<longleftrightarrow> ends k < begins k' \<or> ends k' < begins k"

text \<open>
  The calls \<open>new\<close> that returned between the ordinals \<open>lo\<close> and \<open>hi\<close> under the call of index \<open>i\<close>.
\<close>

definition nested :: "u32 \<Rightarrow> nat \<Rightarrow> nat \<Rightarrow> Call list \<Rightarrow> bool" where
  "nested i lo hi new \<longleftrightarrow>
     (\<forall>k \<in> set new. lo < begins k \<and> begins k < ends k \<and> ends k \<le> hi \<and>
        (call_ParentIndex k = i \<or> (\<exists>p \<in> set new. call_Index p = call_ParentIndex k \<and> encloses p k)))
     \<and> (\<forall>k \<in> set new. \<forall>k' \<in> set new. begins k = begins k' \<or> apart k k' \<or> encloses k k' \<or> encloses k' k)"

lemma nested_Nil [simp]: "nested i lo hi []"
  by (simp add: nested_def)

lemma nested_append:
  assumes "nested i lo mid new" and "nested i mid hi new'" and "lo \<le> mid" and "mid \<le> hi"
  shows "nested i lo hi (new @ new')"
proof -
  have "apart k k'" if "k \<in> set new" "k' \<in> set new'" for k k'
  proof -
    have "ends k \<le> mid" "mid < begins k'" using assms(1,2) that by (auto simp: nested_def)
    then show ?thesis by (simp add: apart_def)
  qed
  then have across: "apart k k' \<and> apart k' k" if "k \<in> set new" "k' \<in> set new'" for k k'
    using that by (auto simp: apart_def)
  have left: "lo < begins k \<and> begins k < ends k \<and> ends k \<le> hi" if "k \<in> set new \<union> set new'" for k
    using assms that by (fastforce simp: nested_def)
  show ?thesis
    unfolding nested_def
  proof (intro conjI ballI)
    fix k assume k: "k \<in> set (new @ new')"
    then show "lo < begins k" "begins k < ends k" "ends k \<le> hi" using left by auto
    from k show "call_ParentIndex k = i
        \<or> (\<exists>p \<in> set (new @ new'). call_Index p = call_ParentIndex k \<and> encloses p k)"
      using assms(1,2) by (fastforce simp: nested_def)
  next
    fix k k' assume "k \<in> set (new @ new')" and "k' \<in> set (new @ new')"
    then show "begins k = begins k' \<or> apart k k' \<or> encloses k k' \<or> encloses k' k"
      using assms(1,2) across unfolding nested_def set_append by blast
  qed
qed

lemma nested_call:
  assumes "nested (call_Index k) lo hi new" and "call_ParentIndex k = i"
    and "begins k = lo" and "ends k = Suc hi" and "lo \<le> hi" and "0 < lo"
  shows "nested i (lo - 1) (Suc hi) (new @ [k])"
proof -
  have inside: "encloses k j" if "j \<in> set new" for j
    using assms that by (fastforce simp: nested_def encloses_def)
  show ?thesis
    unfolding nested_def
  proof (intro conjI ballI)
    fix j assume j: "j \<in> set (new @ [k])"
    from j assms show "lo - 1 < begins j" "begins j < ends j" "ends j \<le> Suc hi"
      by (fastforce simp: nested_def)+
    from j assms inside show "call_ParentIndex j = i
        \<or> (\<exists>p \<in> set (new @ [k]). call_Index p = call_ParentIndex j \<and> encloses p j)"
      by (fastforce simp: nested_def)
  next
    fix j j' assume "j \<in> set (new @ [k])" and "j' \<in> set (new @ [k])"
    then show "begins j = begins j' \<or> apart j j' \<or> encloses j j' \<or> encloses j' j"
      using assms(1) inside unfolding nested_def by auto
  qed
qed

definition keeps_nesting :: "nat \<Rightarrow> Call \<times> eval_state \<Rightarrow> Call \<times> eval_state \<Rightarrow> bool" where
  "keeps_nesting m p q \<longleftrightarrow> (now (snd p) + m < 2 ^ 64 \<longrightarrow> proceeds m (snd p) (snd q)
     \<and> place (fst q) = place (fst p)
     \<and> (\<exists>new. es_calls (snd q) = es_calls (snd p) @ new
          \<and> nested (call_Index (fst p)) (now (snd p)) (now (snd q)) new))"

lemma keeps_nesting_event:
  assumes "is_event h"
  shows "keeps_nesting 1 p (eval_event h p)"
proof -
  obtain c s where p: "p = (c, s)" by fastforce
  obtain c' s' where e: "eval_event h (c, s) = (c', s')" by fastforce
  have "proceeds 1 s s'" if "now s + 1 < 2 ^ 64"
    using event_effect [OF assms e] unat_add_one [of "es_ordinal s"] that
    by (auto simp: proceeds_def now_def)
  then show ?thesis using event_effect [OF assms e]
    by (auto simp: keeps_nesting_def p e)
qed

lemma nesting_returns:
  assumes "keeps_nesting m (c1, s1) (c2, s2)" and "now s1 + m + 1 < 2 ^ 64"
    and "begins c1 = now s1" and "0 < now s1"
  shows "proceeds (m + 1) s1 (eval_exit x (c2, s2))
    \<and> (\<exists>new. es_calls (eval_exit x (c2, s2)) = es_calls s1 @ new
         \<and> nested (call_ParentIndex c1) (now s1 - 1) (now (eval_exit x (c2, s2))) new)"
proof -
  obtain new where g: "proceeds m s1 s2" and pl: "place c2 = place c1"
    and calls: "es_calls s2 = es_calls s1 @ new" and nest: "nested (call_Index c1) (now s1) (now s2) new"
    using assms by (auto simp: keeps_nesting_def)
  note n = exit_now [OF g assms(2)]
  let ?k = "returned x c2 (es_ordinal s2 + 1)"
  have k: "call_Index ?k = call_Index c1" "call_ParentIndex ?k = call_ParentIndex c1" "begins ?k = now s1"
    "ends ?k = Suc (now s2)"
    using assms(3) pl n(1) by (simp_all add: place_def begins_def ends_def now_def exit_effect(1))
  have "nested (call_ParentIndex c1) (now s1 - 1) (Suc (now s2)) (new @ [?k])"
    using nest g assms(4) k by (intro nested_call) (simp_all add: proceeds_def)
  then show ?thesis using g n(1) calls by (auto simp: proceeds_def exit_effect(3))
qed

lemma keeps_nesting_invoke:
  assumes "keeps_nesting m (eval_enter deleg d (call_Index c) a s) (c2, s2)"
  shows "keeps_nesting (m + 2) (c, s) (c, eval_exit x (c2, s2))"
proof -
  obtain c1 s1 where e: "eval_enter deleg d (call_Index c) a s = (c1, s1)" by fastforce
  note enter = enter_effect [OF e]
  show ?thesis
    unfolding keeps_nesting_def fst_conv snd_conv
  proof
    assume room: "now s + (m + 2) < 2 ^ 64"
    then have n1: "now s1 = now s + 1" and b1: "begins c1 = now s1" using enter_now [OF e] by simp_all
    show "proceeds (m + 2) s (eval_exit x (c2, s2)) \<and> place c = place c
      \<and> (\<exists>new. es_calls (eval_exit x (c2, s2)) = es_calls s @ new
         \<and> nested (call_Index c) (now s) (now (eval_exit x (c2, s2))) new)"
      using nesting_returns [OF assms [unfolded e] _ b1, of x] room n1 enter(1,4)
      by (auto simp: proceeds_def place_def)
  qed
qed

interpretation nesting: eval_relation keeps_nesting
proof
  show "keeps_nesting m p p" for m p
    by (simp add: keeps_nesting_def proceeds_def)
  show "keeps_nesting (m + n) p r" if pq: "keeps_nesting m p q" and qr: "keeps_nesting n q r" for m n p q r
    unfolding keeps_nesting_def
  proof
    assume room: "now (snd p) + (m + n) < 2 ^ 64"
    obtain new where a: "proceeds m (snd p) (snd q)" "place (fst q) = place (fst p)"
      "es_calls (snd q) = es_calls (snd p) @ new" "nested (call_Index (fst p)) (now (snd p)) (now (snd q)) new"
      using pq room by (auto simp: keeps_nesting_def)
    obtain new' where b: "proceeds n (snd q) (snd r)" "place (fst r) = place (fst q)"
      "es_calls (snd r) = es_calls (snd q) @ new'" "nested (call_Index (fst q)) (now (snd q)) (now (snd r)) new'"
      using qr room a(1) by (auto simp: keeps_nesting_def proceeds_def)
    have "nested (call_Index (fst p)) (now (snd p)) (now (snd r)) (new @ new')"
      using a b by (intro nested_append [OF a(4)]) (auto simp: proceeds_def place_def)
    with a b show "proceeds (m + n) (snd p) (snd r) \<and> place (fst r) = place (fst p)
      \<and> (\<exists>new. es_calls (snd r) = es_calls (snd p) @ new
         \<and> nested (call_Index (fst p)) (now (snd p)) (now (snd r)) new)"
      by (auto intro: proceeds_trans)
  qed
  show "is_event h \<Longrightarrow> keeps_nesting 1 p (eval_event h p)" for h p
    by (rule keeps_nesting_event)
  show "keeps_nesting m (c, s) (c, s\<lparr>es_suicided := k\<rparr>)" for m c s k
    by (simp add: keeps_nesting_def proceeds_def now_def)
  show "keeps_nesting m (eval_enter deleg d (call_Index c) a s) (c2, s2)
      \<Longrightarrow> keeps_nesting (m + 2) (c, s) (c, eval_exit x (c2, s2))" for m deleg d c a s c2 s2 x
    by (rule keeps_nesting_invoke)
qed

subsection \<open>The changes of a call are in chronological order\<close>

text \<open>Lists of ordinals that increase and are taken by \<open>n\<close>.\<close>

definition chronological :: "u64 list list \<Rightarrow> nat \<Rightarrow> bool" where
  "chronological oss n \<longleftrightarrow> in_order oss \<and> (\<forall>x \<in> set (concat oss). unat x \<le> n)"

lemma chronological_mono: "chronological oss n \<Longrightarrow> n \<le> n' \<Longrightarrow> chronological oss n'"
  by (auto simp: chronological_def intro: order_trans)

lemma chronological_one_more:
  assumes "chronological oss n" and "one_more oss x oss'" and "unat x = Suc n"
  shows "chronological oss' (Suc n)"
proof -
  obtain i where i: "i < length oss" "oss' = oss[i := oss ! i @ [x]]"
    using assms(2) by (auto simp: one_more_def)
  have le: "unat y \<le> n" if "y \<in> set (concat oss)" for y
    using assms(1) that by (auto simp: chronological_def)
  then have lt: "y < x" if "y \<in> set (oss ! i)" for y
    using that i(1) assms(3) by (fastforce simp: word_less_nat_alt)
  have "sorted_wrt (<) (oss ! i @ [x])"
    using assms(1) i(1) lt by (simp add: chronological_def in_order_def list_all_length sorted_wrt_append)
  then have "in_order oss'"
    using assms(1) i by (auto simp: chronological_def in_order_def list_all_length nth_list_update)
  moreover have "mset (concat oss') = add_mset x (mset (concat oss))"
    by (rule one_more_mset [OF assms(2)])
  then have "set (concat oss') = insert x (set (concat oss))"
    by (metis set_mset_add_mset_insert set_mset_mset)
  ultimately show ?thesis using le assms(3) by (fastforce simp: chronological_def)
qed

definition keeps_order :: "nat \<Rightarrow> Call \<times> eval_state \<Rightarrow> Call \<times> eval_state \<Rightarrow> bool" where
  "keeps_order m p q \<longleftrightarrow> (now (snd p) + m < 2 ^ 64 \<longrightarrow> proceeds m (snd p) (snd q)
     \<and> (chronological (change_ordinals (fst p)) (now (snd p))
          \<longrightarrow> chronological (change_ordinals (fst q)) (now (snd q)))
     \<and> (\<exists>new. es_calls (snd q) = es_calls (snd p) @ new \<and> (\<forall>k \<in> set new. chronological (change_ordinals k) (now (snd q)))))"

lemma keeps_order_event:
  assumes "is_event h"
  shows "keeps_order 1 p (eval_event h p)"
proof -
  obtain c s where p: "p = (c, s)" by fastforce
  obtain c' s' where e: "eval_event h (c, s) = (c', s')" by fastforce
  note effect = event_effect [OF assms e]
  then consider
      "es_ordinal s' = es_ordinal s" "change_ordinals c' = change_ordinals c"
    | "es_ordinal s' = es_ordinal s + 1" "one_more (change_ordinals c) (es_ordinal s + 1) (change_ordinals c')"
    by blast
  then show ?thesis
  proof cases
    case 1
    with effect show ?thesis by (simp add: keeps_order_def p e proceeds_def now_def)
  next
    case 2
    show ?thesis
      unfolding keeps_order_def p e fst_conv snd_conv
    proof
      assume "now s + 1 < 2 ^ 64"
      then have n: "now s' = Suc (now s)" "unat (es_ordinal s + 1) = Suc (now s)"
        using 2(1) unat_add_one [of "es_ordinal s"] by (simp_all add: now_def)
      then show "proceeds 1 s s' \<and> (chronological (change_ordinals c) (now s) \<longrightarrow> chronological (change_ordinals c') (now s'))
          \<and> (\<exists>new. es_calls s' = es_calls s @ new \<and> (\<forall>k \<in> set new. chronological (change_ordinals k) (now s')))"
        using chronological_one_more [OF _ 2(2) n(2)] effect by (auto simp: proceeds_def)
    qed
  qed
qed

lemma order_returns:
  assumes "keeps_order m (c1, s1) (c2, s2)" and "now s1 + m + 1 < 2 ^ 64"
    and "chronological (change_ordinals c1) (now s1)"
  shows "proceeds (m + 1) s1 (eval_exit x (c2, s2))
    \<and> (\<exists>new. es_calls (eval_exit x (c2, s2)) = es_calls s1 @ new
         \<and> (\<forall>k \<in> set new. chronological (change_ordinals k) (now (eval_exit x (c2, s2)))))"
proof -
  obtain new where g: "proceeds m s1 s2" and c2: "chronological (change_ordinals c2) (now s2)"
    and calls: "es_calls s2 = es_calls s1 @ new" and new: "\<forall>k \<in> set new. chronological (change_ordinals k) (now s2)"
    using assms by (auto simp: keeps_order_def)
  note n = exit_now [OF g assms(2)]
  show ?thesis using g n(1) calls new c2
    by (auto simp: proceeds_def exit_effect(3) intro: chronological_mono)
qed

lemma keeps_order_invoke:
  assumes "keeps_order m (eval_enter deleg d parent a s) (c2, s2)"
  shows "keeps_order (m + 2) (c, s) (c, eval_exit x (c2, s2))"
proof -
  obtain c1 s1 where e: "eval_enter deleg d parent a s = (c1, s1)" by fastforce
  note enter = enter_effect [OF e]
  show ?thesis
    unfolding keeps_order_def fst_conv snd_conv
  proof
    assume room: "now s + (m + 2) < 2 ^ 64"
    then have n1: "now s1 = now s + 1" using enter_now [OF e] by simp
    have "chronological (change_ordinals c1) (now s1)"
      by (simp add: enter(2) chronological_def in_order_def)
    from order_returns [OF assms [unfolded e] _ this, of x]
    show "proceeds (m + 2) s (eval_exit x (c2, s2))
      \<and> (chronological (change_ordinals c) (now s) \<longrightarrow> chronological (change_ordinals c) (now (eval_exit x (c2, s2))))
      \<and> (\<exists>new. es_calls (eval_exit x (c2, s2)) = es_calls s @ new
         \<and> (\<forall>k \<in> set new. chronological (change_ordinals k) (now (eval_exit x (c2, s2)))))"
      using room n1 enter(4) by (auto simp: proceeds_def intro: chronological_mono)
  qed
qed

interpretation ordering: eval_relation keeps_order
proof
  show "keeps_order m p p" for m p
    by (simp add: keeps_order_def proceeds_def)
  show "keeps_order (m + n) p r" if pq: "keeps_order m p q" and qr: "keeps_order n q r" for m n p q r
    unfolding keeps_order_def
  proof
    assume room: "now (snd p) + (m + n) < 2 ^ 64"
    obtain new where a: "proceeds m (snd p) (snd q)" "es_calls (snd q) = es_calls (snd p) @ new"
      "\<forall>k \<in> set new. chronological (change_ordinals k) (now (snd q))"
      and ca: "chronological (change_ordinals (fst p)) (now (snd p))
        \<longrightarrow> chronological (change_ordinals (fst q)) (now (snd q))"
      using pq room by (auto simp: keeps_order_def)
    obtain new' where b: "proceeds n (snd q) (snd r)" "es_calls (snd r) = es_calls (snd q) @ new'"
      "\<forall>k \<in> set new'. chronological (change_ordinals k) (now (snd r))"
      and cb: "chronological (change_ordinals (fst q)) (now (snd q))
        \<longrightarrow> chronological (change_ordinals (fst r)) (now (snd r))"
      using qr room a(1) by (auto simp: keeps_order_def proceeds_def)
    show "proceeds (m + n) (snd p) (snd r) \<and> (chronological (change_ordinals (fst p)) (now (snd p))
          \<longrightarrow> chronological (change_ordinals (fst r)) (now (snd r)))
      \<and> (\<exists>new. es_calls (snd r) = es_calls (snd p) @ new \<and> (\<forall>k \<in> set new. chronological (change_ordinals k) (now (snd r))))"
      using a b ca cb by (auto intro: proceeds_trans chronological_mono simp: proceeds_def)
  qed
  show "is_event h \<Longrightarrow> keeps_order 1 p (eval_event h p)" for h p
    by (rule keeps_order_event)
  show "keeps_order m (c, s) (c, s\<lparr>es_suicided := k\<rparr>)" for m c s k
    by (simp add: keeps_order_def proceeds_def now_def)
  show "keeps_order m (eval_enter deleg d (call_Index c) a s) (c2, s2)
      \<Longrightarrow> keeps_order (m + 2) (c, s) (c, eval_exit x (c2, s2))" for m deleg d c a s c2 s2 x
    by (rule keeps_order_invoke)
qed

end
