(* ===== verification/TransactionSpec.thy ===== *)
theory TransactionSpec
  imports ExecutionSpec
begin

section \<open>The trace of a whole transaction\<close>

text \<open>
  A transaction as the node runs it: the start, changes before the root call (buying gas, raising the
  nonce), the tree of calls, changes after it (refunds, fees), and the end with a receipt. The changes
  around the root call wait in the deferred state. The theorems say what the trace in the block holds.
\<close>

subsection \<open>Changes outside any call\<close>

fun is_change :: "hook \<Rightarrow> bool" where
  "is_change (HBalanceChange _ _ _ _) = True"
| "is_change (HNonceChange _ _ _) = True"
| "is_change (HCodeChange _ _ _ _ _) = True"
| "is_change (HStorageChange _ _ _ _) = True"
| "is_change (HLog _ _ _ _) = True"
| "is_change _ = False"

text \<open>A tracer after changes that wait: only the counters and the deferred state moved.\<close>

definition waiting :: "tracer \<Rightarrow> Ordinal \<Rightarrow> u32 \<Rightarrow> DeferredCallState \<Rightarrow> tracer" where
  "waiting t o1 l d = t\<lparr>t_blockOrdinal := o1, t_transactionLogIndex := l, t_deferredCallState := d\<rparr>"

lemma waiting_fields [simp]:
  "t_blockOrdinal (waiting t o1 l d) = o1" "t_deferredCallState (waiting t o1 l d) = d"
  "t_transactionLogIndex (waiting t o1 l d) = l"
  "t_callStack (waiting t o1 l d) = t_callStack t" "t_transaction (waiting t o1 l d) = t_transaction t"
  "t_block (waiting t o1 l d) = t_block t"
  "t_transactionIsolated (waiting t o1 l d) = t_transactionIsolated t"
  "in_transaction (waiting t o1 l d) = in_transaction t"
  "waiting (waiting t o1 l d) o2 l2 d2 = waiting t o2 l2 d2"
  "waiting t (t_blockOrdinal t) (t_transactionLogIndex t) (t_deferredCallState t) = t"
  by (simp_all add: waiting_def in_transaction_def)

lemma one_more_deferred [simp]:
  "bc_Ordinal b = x \<Longrightarrow> one_more (deferred_ordinals d) x (deferred_ordinals (df_AddBalanceChange b d))"
  "nc_Ordinal n = x \<Longrightarrow> one_more (deferred_ordinals d) x (deferred_ordinals (df_AddNonceChange n d))"
  "cc_Ordinal k = x \<Longrightarrow> one_more (deferred_ordinals d) x (deferred_ordinals (df_AddCodeChange k d))"
  "sc_Ordinal g = x \<Longrightarrow> one_more (deferred_ordinals d) x (deferred_ordinals (df_AddStorageChange g d))"
  "log_Ordinal l = x \<Longrightarrow> one_more (deferred_ordinals d) x (deferred_ordinals (df_AddLog l d))"
  using one_more_at [of 0 "deferred_ordinals d" x] one_more_at [of 1 "deferred_ordinals d" x]
    one_more_at [of 2 "deferred_ordinals d" x] one_more_at [of 3 "deferred_ordinals d" x]
    one_more_at [of 4 "deferred_ordinals d" x]
  by (simp_all add: deferred_ordinals_def df_add_defs numeral_nat)

definition waits :: "tracer \<Rightarrow> tracer \<Rightarrow> bool" where
  "waits t t' \<longleftrightarrow> (\<exists>o1 l d. t' = waiting t o1 l d \<and>
    (ord_value o1 = ord_value (t_blockOrdinal t) \<and> deferred_ordinals d = deferred_ordinals (t_deferredCallState t)
      \<or> ord_value o1 = ord_value (t_blockOrdinal t) + 1
        \<and> one_more (deferred_ordinals (t_deferredCallState t)) (ord_value o1) (deferred_ordinals d)))"

lemma waits_same: "waits t t"
  unfolding waits_def
  by (rule exI [of _ "t_blockOrdinal t"], rule exI [of _ "t_transactionLogIndex t"],
      rule exI [of _ "t_deferredCallState t"]) simp

lemma waits_next:
  assumes "one_more (deferred_ordinals (t_deferredCallState t)) (ord_value (t_blockOrdinal t) + 1) (deferred_ordinals (f (t_deferredCallState t)))"
  shows "waits t (update_deferred f (t\<lparr>t_blockOrdinal := snd (ordinal_Next (t_blockOrdinal t))\<rparr>))"
    and "waits t ((update_deferred f (t\<lparr>t_blockOrdinal := snd (ordinal_Next (t_blockOrdinal t))\<rparr>))\<lparr>t_transactionLogIndex := l\<rparr>)"
  unfolding waits_def using assms
  by (rule_tac exI [of _ "snd (ordinal_Next (t_blockOrdinal t))"], rule_tac exI [of _ "t_transactionLogIndex t"],
      rule_tac exI [of _ "f (t_deferredCallState t)"], simp add: waiting_def update_deferred_def,
      rule_tac exI [of _ "snd (ordinal_Next (t_blockOrdinal t))"], rule_tac exI [of _ l],
      rule_tac exI [of _ "f (t_deferredCallState t)"], simp add: waiting_def update_deferred_def)

lemma change_waits:
  assumes "in_transaction t" and "cs_stack (t_callStack t) = []" and "is_change h"
  shows "\<exists>t'. apply_hook cr h t = Inr t' \<and> waits t t'"
proof -
  obtain g b x where "t_chainConfig t = Some g" "t_block t = Some b" "t_transaction t = Some x"
    using assms(1) by (auto simp: in_transaction_def)
  then show ?thesis using assms(2,3)
    by (cases h; simp add: change_hook_defs Let_def check_def ensure_defs active_call_def cs_Peek_def
        waits_same waits_next)
qed

definition clock :: "tracer \<Rightarrow> nat" where
  "clock t = unat (ord_value (t_blockOrdinal t))"

abbreviation waiting_ordinals :: "tracer \<Rightarrow> u64 list list" where
  "waiting_ordinals t \<equiv> deferred_ordinals (t_deferredCallState t)"

definition waited :: "nat \<Rightarrow> tracer \<Rightarrow> tracer \<Rightarrow> bool" where
  "waited m t t' \<longleftrightarrow> (\<exists>o1 l d. t' = waiting t o1 l d) \<and> (clock t + m < 2 ^ 64 \<longrightarrow>
     clock t \<le> clock t' \<and> clock t' \<le> clock t + m
     \<and> mset (concat (waiting_ordinals t')) = mset (concat (waiting_ordinals t)) + span (clock t) (clock t')
     \<and> (chronological (waiting_ordinals t) (clock t) \<longrightarrow> chronological (waiting_ordinals t') (clock t')))"

lemma waited_same: "waited m t t"
  unfolding waited_def
  by (intro conjI exI [of _ "t_blockOrdinal t"] exI [of _ "t_transactionLogIndex t"]
      exI [of _ "t_deferredCallState t"]) simp_all

lemma waited_trans:
  assumes "waited m t t'" and "waited n t' t''"
  shows "waited (m + n) t t''"
proof -
  obtain o1 l d o2 l2 d2 where w: "t' = waiting t o1 l d" "t'' = waiting t' o2 l2 d2"
    using assms by (auto simp: waited_def)
  show ?thesis
    unfolding waited_def
  proof (intro conjI impI)
    show "\<exists>o1 l d. t'' = waiting t o1 l d" using w by auto
    assume room: "clock t + (m + n) < 2 ^ 64"
    have a: "clock t \<le> clock t'" "clock t' \<le> clock t + m"
      "mset (concat (waiting_ordinals t')) = mset (concat (waiting_ordinals t)) + span (clock t) (clock t')"
      "chronological (waiting_ordinals t) (clock t) \<longrightarrow> chronological (waiting_ordinals t') (clock t')"
      using assms(1) room by (simp_all add: waited_def)
    have b: "clock t' \<le> clock t''" "clock t'' \<le> clock t' + n"
      "mset (concat (waiting_ordinals t'')) = mset (concat (waiting_ordinals t')) + span (clock t') (clock t'')"
      "chronological (waiting_ordinals t') (clock t') \<longrightarrow> chronological (waiting_ordinals t'') (clock t'')"
      using assms(2) room a(2) by (simp_all add: waited_def)
    show "clock t \<le> clock t''" "clock t'' \<le> clock t + (m + n)" using a b by simp_all
    show "mset (concat (waiting_ordinals t'')) = mset (concat (waiting_ordinals t)) + span (clock t) (clock t'')"
      unfolding b(3) a(3) add.assoc span_join [OF a(1) b(1)] ..
    show "chronological (waiting_ordinals t'') (clock t'')" if "chronological (waiting_ordinals t) (clock t)"
      using that a(4) b(4) by blast
  qed
qed

lemma waits_waited:
  assumes "waits t t'"
  shows "waited 1 t t'"
proof -
  obtain o1 l d where t': "t' = waiting t o1 l d" and
    c: "ord_value o1 = ord_value (t_blockOrdinal t) \<and> deferred_ordinals d = waiting_ordinals t
      \<or> ord_value o1 = ord_value (t_blockOrdinal t) + 1 \<and> one_more (waiting_ordinals t) (ord_value o1) (deferred_ordinals d)"
    using assms by (auto simp: waits_def)
  from c show ?thesis
  proof
    assume "ord_value o1 = ord_value (t_blockOrdinal t) \<and> deferred_ordinals d = waiting_ordinals t"
    then have "clock t' = clock t" and "waiting_ordinals t' = waiting_ordinals t"
      by (simp_all add: t' clock_def)
    then show ?thesis using t' unfolding waited_def by auto
  next
    assume n: "ord_value o1 = ord_value (t_blockOrdinal t) + 1
      \<and> one_more (waiting_ordinals t) (ord_value o1) (deferred_ordinals d)"
    then have more: "one_more (waiting_ordinals t) (ord_value o1) (waiting_ordinals t')" by (auto simp: t')
    show ?thesis
      unfolding waited_def
    proof (intro conjI impI)
      show "\<exists>o1 l d. t' = waiting t o1 l d" using t' by blast
      assume "clock t + 1 < 2 ^ 64"
      then have k: "clock t' = Suc (clock t)" "unat (ord_value o1) = Suc (clock t)"
        using n unat_add_one [of "ord_value (t_blockOrdinal t)"] by (simp_all add: t' clock_def)
      have sp: "span (clock t) (Suc (clock t)) = {#ord_value o1#}"
        using n span_next [of "ord_value (t_blockOrdinal t)"] by (simp add: clock_def)
      show "clock t \<le> clock t'" "clock t' \<le> clock t + 1" using k by simp_all
      show "mset (concat (waiting_ordinals t')) = mset (concat (waiting_ordinals t)) + span (clock t) (clock t')"
        unfolding k(1) sp using one_more_mset [OF more] by simp
      show "chronological (waiting_ordinals t') (clock t')" if "chronological (waiting_ordinals t) (clock t)"
        using chronological_one_more [OF that more k(2)] k(1) by simp
    qed
  qed
qed

lemma changes_wait:
  assumes "in_transaction t" and "cs_stack (t_callStack t) = []" and "list_all is_change hs"
  shows "\<exists>t'. run_hooks cr hs t = Inr t' \<and> waited (length hs) t t'"
  using assms
proof (induction hs arbitrary: t)
  case Nil
  then show ?case by (simp add: waited_same)
next
  case (Cons h hs)
  obtain t1 where t1: "apply_hook cr h t = Inr t1" "waits t t1"
    using change_waits [OF Cons.prems(1,2), of h cr] Cons.prems(3) by auto
  have "in_transaction t1" "cs_stack (t_callStack t1) = []"
    using t1(2) Cons.prems(1,2) by (auto simp: waits_def)
  then obtain t' where "run_hooks cr hs t1 = Inr t'" "waited (length hs) t1 t'"
    using Cons.IH Cons.prems(3) by auto
  then show ?case using t1(1) waited_trans [OF waits_waited [OF t1(2)]] by auto
qed

subsection \<open>The root call\<close>

lemma eval_root_facts:
  fixes d :: DeferredCallState and deleg :: "CallType \<Rightarrow> bytes \<Rightarrow> bytes option"
  assumes ty: "well_typed (Invoke a ns x)" and none: "es_calls s = []"
    and room: "now s + length (hooks_of 0 (Invoke a ns x)) < 2 ^ 64"
  defines "s' \<equiv> eval_root deleg d a ns x s"
  shows "now s \<le> now s' \<and> now s' \<le> now s + length (hooks_of 0 (Invoke a ns x))"
    and "es_calls s' \<noteq> []"
    and "calls_mset (es_calls s') = mset (concat (deferred_ordinals d)) + span (now s) (now s')"
    and "nested 0 (now s) (now s') (es_calls s')"
    and "chronological (deferred_ordinals d) (now s) \<longrightarrow>
      (\<forall>k \<in> set (es_calls s'). chronological (change_ordinals k) (now s'))"
proof -
  obtain c1 s1 where e: "eval_enter deleg 0 0 a s = (c1, s1)" by fastforce
  note enter = enter_effect [OF e]
  let ?c = "prepend_deferred d c1" and ?m = "length (concat (map (hooks_of (Suc 0)) ns))"
  obtain c2 s2 where ns: "eval_nodes deleg (Suc 0) ns (?c, s1) = (c2, s2)" by fastforce
  have s': "s' = eval_exit x (c2, s2)" using e ns by (simp add: s'_def eval_root_def)
  have len: "length (hooks_of 0 (Invoke a ns x)) = ?m + 2" by simp
  have wt: "list_all well_typed ns" using ty by simp
  have n1: "now s1 = now s + 1" "span (now s) (now s + 1) = {#es_ordinal s + 1#}" and b1: "begins ?c = now s1"
    using enter_now [OF e] room len by (simp_all add: begins_def)
  have room1: "now s1 + ?m + 1 < 2 ^ 64" using room len n1 by simp
  have pl: "place ?c = place c1" by (simp add: place_def)
  have record1: "proceeds (?m + 1) s1 s' \<and> add_mset 0 (calls_mset (es_calls s')) = eval_mset (?c, s1) + span (now s1) (now s')"
    unfolding s' using recording.all_nodes_rel [OF wt, of "Suc 0" "(?c, s1)" deleg] room1 enter(1) pl
    by (intro record_returns) (simp_all add: ns place_def)
  have nest1: "\<exists>new. es_calls s' = es_calls s1 @ new \<and> nested (call_ParentIndex ?c) (now s1 - 1) (now s') new"
    unfolding s' using nesting.all_nodes_rel [OF wt, of "Suc 0" "(?c, s1)" deleg] room1 b1 n1
    by (intro nesting_returns [THEN conjunct2]) (simp_all add: ns)
  show grow: "now s \<le> now s' \<and> now s' \<le> now s + length (hooks_of 0 (Invoke a ns x))"
    using record1 n1 len by (simp add: proceeds_def)
  show "es_calls s' \<noteq> []" by (simp add: s' exit_effect(3))
  have "add_mset 0 (calls_mset (es_calls s'))
      = {#0#} + mset (concat (deferred_ordinals d)) + (span (now s) (now s + 1) + span (now s + 1) (now s'))"
    using record1 none enter(1,2,4) unfolding n1 by (simp add: eval_mset_def call_mset_def [of c1] place_def)
  also have "span (now s) (now s + 1) + span (now s + 1) (now s') = span (now s) (now s')"
    using record1 n1 by (intro span_join) (simp_all add: proceeds_def)
  finally show "calls_mset (es_calls s') = mset (concat (deferred_ordinals d)) + span (now s) (now s')" by simp
  show "nested 0 (now s) (now s') (es_calls s')"
    using nest1 none enter(1,4) n1 pl by (simp add: place_def)
  show "chronological (deferred_ordinals d) (now s) \<longrightarrow>
      (\<forall>k \<in> set (es_calls s'). chronological (change_ordinals k) (now s'))"
  proof
    assume "chronological (deferred_ordinals d) (now s)"
    then have "chronological (change_ordinals ?c) (now s1)"
      using enter(2) n1 by (auto simp: chronological_def in_order_def change_ordinals_def deferred_ordinals_def
          prepend_deferred_def intro: le_SucI)
    then have "\<exists>new. es_calls s' = es_calls s1 @ new \<and> (\<forall>k \<in> set new. chronological (change_ordinals k) (now s'))"
      unfolding s' using ordering.all_nodes_rel [OF wt, of "Suc 0" "(?c, s1)" deleg] room1
      by (intro order_returns [THEN conjunct2]) (simp_all add: ns)
    then show "\<forall>k \<in> set (es_calls s'). chronological (change_ordinals k) (now s')"
      using none enter(4) by auto
  qed
qed

subsection \<open>From the start to the end of a transaction\<close>

lemma in_transaction_deferred [simp]:
  "in_transaction (t\<lparr>t_deferredCallState := d\<rparr>) = in_transaction t"
  by (simp add: in_transaction_def)

definition transaction_hooks ::
    "TxEvent \<Rightarrow> StateReader option \<Rightarrow> hook list \<Rightarrow> call_args \<Rightarrow> node list \<Rightarrow> call_result \<Rightarrow> hook list
      \<Rightarrow> ReceiptData \<Rightarrow> go_error option \<Rightarrow> hook list" where
  "transaction_hooks event reader pre a ns x post receipt err =
     HTxStart event reader # pre @ hooks_of 0 (Invoke a ns x) @ post @ [HTxEnd (Some receipt) err]"

text \<open>Between two transactions of a block, on a tracer that is not isolated.\<close>

definition between_transactions :: "tracer \<Rightarrow> bool" where
  "between_transactions t \<longleftrightarrow> t_chainConfig t \<noteq> None \<and> t_block t \<noteq> None \<and> blank t
     \<and> t_transactionTransient t = None \<and> \<not> t_latestCallEnterSuicided t \<and> \<not> t_transactionIsolated t"

text \<open>
  What \<open>completeTransaction\<close> finds: the calls \<open>calls\<close> between the ordinals \<open>mid1\<close> and \<open>mid2\<close>, and the
  changes after them \<open>late\<close>. \<open>seen\<close> is what
  no pass over the completed trace changes.
\<close>

definition seen :: "Call \<Rightarrow> (u32 \<times> u32 \<times> u64 \<times> u64) \<times> u64 list list" where
  "seen c = (place c, change_ordinals c)"

lemma seen_blind: "blind seen"
  by (auto simp: blind_def seen_def place_def change_ordinals_def)

definition traced_between :: "nat \<Rightarrow> nat \<Rightarrow> nat \<Rightarrow> nat \<Rightarrow> Call list \<Rightarrow> DeferredCallState \<Rightarrow> TransactionTrace \<Rightarrow> bool" where
  "traced_between lo mid1 mid2 hi calls late x \<longleftrightarrow>
     unat (trx_BeginOrdinal x) = lo + 1 \<and> unat (trx_EndOrdinal x) = hi
     \<and> calls \<noteq> [] \<and> map seen (trx_Calls x) = map seen (settled_calls late calls)
     \<and> lo < mid1 \<and> mid1 \<le> mid2 \<and> mid2 < hi \<and> hi < 2 ^ 64 \<and> nested 0 mid1 mid2 calls
     \<and> calls_mset calls = span (lo + 1) mid2
     \<and> mset (concat (deferred_ordinals late)) = span mid2 (hi - 1)
     \<and> (\<forall>k \<in> set calls. chronological (change_ordinals k) mid2)
     \<and> chronological (deferred_ordinals late) (hi - 1)"

lemma completeTransaction_seen:
  assumes "completeTransaction receipt err t = Inr t'" and "t_transaction t' = Some trx'"
    and "t_transaction t = Some trx" and "trx_Calls trx \<noteq> []"
  shows "trx_BeginOrdinal trx' = trx_BeginOrdinal trx"
    and "trx_EndOrdinal trx' = ord_value (t_blockOrdinal t) + 1"
    and "map seen (trx_Calls trx') = map seen (settled_calls (t_deferredCallState t) (trx_Calls trx))"
proof -
  obtain x x' where x: "t_transaction t = Some x"
    and t': "t' = t\<lparr>t_blockOrdinal := snd (ordinal_Next (t_blockOrdinal t)),
        t_transaction := Some x', t_transactionTransient := t_transactionTransient t',
        t_deferredCallState := t_deferredCallState t',
        t_transactionKeccakPreimages := t_transactionKeccakPreimages t'\<rparr>"
    and be: "trx_BeginOrdinal x' = trx_BeginOrdinal x" "trx_EndOrdinal x' = ord_value (t_blockOrdinal t) + 1"
    and calls: "trx_Calls x = [] \<and> trx_Calls x' = [] \<and> t_deferredCallState t' = t_deferredCallState t
      \<or> trx_Calls x \<noteq> [] \<and> t_deferredCallState t' = NewDeferredCallState
        \<and> (\<forall>f :: Call \<Rightarrow> (u32 \<times> u32 \<times> u64 \<times> u64) \<times> u64 list list. blind f \<longrightarrow>
             map f (trx_Calls x') = map f (settled_calls (t_deferredCallState t) (trx_Calls x)))"
    using completeTransaction_elim [OF assms(1)] by metis
  have "t_transaction t' = Some x'" by (subst t') simp
  then have eqs: "x = trx" "x' = trx'" using x assms(2,3) by simp_all
  show "trx_BeginOrdinal trx' = trx_BeginOrdinal trx" "trx_EndOrdinal trx' = ord_value (t_blockOrdinal t) + 1"
    using be by (simp_all add: eqs)
  show "map seen (trx_Calls trx') = map seen (settled_calls (t_deferredCallState t) (trx_Calls trx))"
    using calls assms(4) seen_blind unfolding eqs by blast
qed

text \<open>What a transaction leaves alone, and what a block hook needs of a tracer.\<close>

definition carried :: "tracer \<Rightarrow> _" where
  "carried t = (t_config t, t_output t, t_flashBlockIndex t, t_chainConfig t, t_interruptedTransaction t,
     t_transactionIsolated t)"

lemma carried_simps [simp]:
  "carried (waiting t o1 l d) = carried t"
  "carried (conc t cs s) = carried t"
  "carried (update_block f t) = carried t"
  "carried (resetTransaction t) = carried t"
  "carried (t\<lparr>t_deferredCallState := d\<rparr>) = carried t"
  "carried (t\<lparr>t_blockOrdinal := o1\<rparr>) = carried t"
  "carried (t\<lparr>t_inSystemCall := y, t_transaction := x\<rparr>) = carried t"
  "carried (t\<lparr>t_transactionStateReader := r, t_blockOrdinal := o1, t_transaction := x\<rparr>) = carried t"
  "carried (t\<lparr>t_blockOrdinal := o1, t_transaction := x, t_transactionTransient := x',
     t_deferredCallState := d, t_transactionKeccakPreimages := p\<rparr>) = carried t"
  by (simp_all add: carried_def waiting_def conc_def update_block_def resetTransaction_def)

lemma carried_reset:
  assumes "t' = resetTransaction s" and "carried s = carried t" and "between_transactions t" and "t_block s \<noteq> None"
  shows "between_transactions t' \<and> carried t' = carried t"
proof -
  have "\<not> t_latestCallEnterSuicided (resetTransaction s)" by (simp add: resetTransaction_def)
  with assms show ?thesis by (auto simp: between_transactions_def blank_def carried_def)
qed

lemma completeTransaction_carried:
  assumes "completeTransaction receipt err t = Inr t'"
  shows "carried t' = carried t"
proof -
  obtain x' where "t' = t\<lparr>t_blockOrdinal := snd (ordinal_Next (t_blockOrdinal t)),
        t_transaction := Some x', t_transactionTransient := t_transactionTransient t',
        t_deferredCallState := t_deferredCallState t',
        t_transactionKeccakPreimages := t_transactionKeccakPreimages t'\<rparr>"
    using completeTransaction_elim [OF assms] by metis
  then show ?thesis by (metis carried_simps(9))
qed

lemma transaction_runs:
  assumes ready: "between_transactions t" and "t_block t = Some b"
    and ty: "well_typed (Invoke a ns x)" and pre: "list_all is_change pre" and post: "list_all is_change post"
    and run: "run_hooks cr (transaction_hooks event reader pre a ns x post receipt err) t = Inr t'"
    and room: "clock t + length (transaction_hooks event reader pre a ns x post receipt err) < 2 ^ 64"
  shows "\<exists>trx mid1 mid2 calls late.
    t_block t' = Some (b\<lparr>blk_TransactionTraces := blk_TransactionTraces b @ [trx]\<rparr>)
    \<and> between_transactions t' \<and> carried t' = carried t
    \<and> clock t' \<le> clock t + length (transaction_hooks event reader pre a ns x post receipt err)
    \<and> traced_between (clock t) mid1 mid2 (clock t') calls late trx"
proof -
  obtain t1 t2 t3 t4 where h1: "OnTxStart cr event reader t = Inr t1" and h2: "run_hooks cr pre t1 = Inr t2"
    and h3: "run_hooks cr (hooks_of 0 (Invoke a ns x)) t2 = Inr t3" and h4: "run_hooks cr post t3 = Inr t4"
    and h5: "OnTxEnd (Some receipt) err t4 = Inr t'"
    using run by (auto simp: transaction_hooks_def run_hooks_append bindR_Inr_iff simp del: hooks_of.simps)
  let ?l = "length (hooks_of 0 (Invoke a ns x))"
  have room: "clock t + (length pre + ?l + length post + 2) < 2 ^ 64"
    using room by (simp add: transaction_hooks_def)
  have blank: "t_callStack t = NewCallStack" "t_deferredCallState t = NewDeferredCallState"
    using ready by (simp_all add: between_transactions_def blank_def)
  obtain trx1 where t1: "t1 = t\<lparr>t_transactionStateReader := reader,
        t_blockOrdinal := snd (ordinal_Next (t_blockOrdinal t)), t_transaction := Some trx1\<rparr>"
    and trx1: "trx_Calls trx1 = []" "trx_BeginOrdinal trx1 = ord_value (t_blockOrdinal t) + 1"
    using OnTxStart_elim [OF h1] by metis
  have in1: "in_transaction t1" "cs_stack (t_callStack t1) = []"
    using ready blank by (auto simp: t1 in_transaction_def between_transactions_def)
  have k1: "clock t1 = clock t + 1"
    using room unat_add_one [of "ord_value (t_blockOrdinal t)"] by (simp add: t1 clock_def)
  have d1: "waiting_ordinals t1 = [[], [], [], [], []]" by (simp add: t1 blank)
  have w2: "waited (length pre) t1 t2" using changes_wait [OF in1 pre, of cr] h2 by auto
  then obtain o2 l2 d2 where t2: "t2 = waiting t1 o2 l2 d2" by (auto simp: waited_def)
  have k2: "clock t1 \<le> clock t2" "clock t2 \<le> clock t1 + length pre"
    "mset (concat (waiting_ordinals t2)) = span (clock t1) (clock t2)"
    "chronological (waiting_ordinals t2) (clock t2)"
    using w2 room k1 by (simp_all add: waited_def d1 chronological_def in_order_def)
  let ?s = "abst t2" and ?t = "t2\<lparr>t_deferredCallState := NewDeferredCallState\<rparr>"
  define s3 where "s3 = eval_root (delegation t2) (t_deferredCallState t2) a ns x ?s"
  have s: "now ?s = clock t2" "es_calls ?s = []"
    by (simp_all add: abst_def now_def clock_def t2 t1 trx1)
  have t3: "t3 = conc ?t [] s3"
    using root_call_step [OF _ _ _ ty, of t2 cr] in1 h3 blank by (simp add: t2 t1 s3_def)
  have roomr: "now ?s + ?l < 2 ^ 64" using s(1) room k1 k2(2) by linarith
  note facts = eval_root_facts [where deleg = "delegation t2" and d = "t_deferredCallState t2", OF ty s(2) roomr,
    folded s3_def]
  have k3: "clock t3 = now s3" by (simp add: clock_def now_def t3)
  have in3: "in_transaction t3" "cs_stack (t_callStack t3) = []"
    using in1 by (simp_all add: t3 t2)
  have d3: "waiting_ordinals t3 = [[], [], [], [], []]" by (simp add: t3)
  have w4: "waited (length post) t3 t4" using changes_wait [OF in3 post, of cr] h4 by auto
  then obtain o4 l4 d4 where t4: "t4 = waiting t3 o4 l4 d4" by (auto simp: waited_def)
  have k4: "clock t3 \<le> clock t4" "clock t4 \<le> clock t3 + length post"
    "mset (concat (waiting_ordinals t4)) = span (clock t3) (clock t4)"
    "chronological (waiting_ordinals t4) (clock t4)"
    using w4 room k1 k2(2) k3 facts(1) s(1) by (simp_all add: waited_def d3 chronological_def in_order_def)
  have trx4: "t_transaction t4 = Some (trx1\<lparr>trx_Calls := es_calls s3\<rparr>)" and b4: "t_block t4 = Some b"
    and iso4: "\<not> t_transactionIsolated t4"
    using assms(2) ready by (simp_all add: t4 t3 t2 t1 conc_def between_transactions_def)
  have "\<exists>t5 trx. completeTransaction (Some receipt) err t4 = Inr t5 \<and> t_transaction t5 = Some trx
      \<and> t' = resetTransaction (update_block
        (\<lambda>b. b\<lparr>blk_TransactionTraces := blk_TransactionTraces b @ [trx]\<rparr>) t5)"
    using h5
  proof (cases rule: OnTxEnd_elim)
    case (3 t5 trx)
    then show ?thesis using completeTransaction_mset [OF 3(1)] iso4 by simp
  qed auto
  then obtain t5 trx where c5: "completeTransaction (Some receipt) err t4 = Inr t5" and trx: "t_transaction t5 = Some trx"
    and t': "t' = resetTransaction (update_block
        (\<lambda>b. b\<lparr>blk_TransactionTraces := blk_TransactionTraces b @ [trx]\<rparr>) t5)" by blast
  have b5: "t_block t5 = Some b" and k5: "ord_value (t_blockOrdinal t5) = ord_value (t_blockOrdinal t4) + 1"
    using completeTransaction_mset [OF c5] b4 by auto
  have x: "trx_BeginOrdinal trx = trx_BeginOrdinal trx1" "trx_EndOrdinal trx = ord_value (t_blockOrdinal t4) + 1"
    "map seen (trx_Calls trx) = map seen (settled_calls (t_deferredCallState t4) (es_calls s3))"
    using completeTransaction_seen [OF c5 trx trx4] facts(2) by simp_all
  have k': "clock t' = clock t4 + 1"
    using k5 unat_add_one [of "ord_value (t_blockOrdinal t4)"] room k1 k2(2) k3 k4(2) facts(1) s(1)
    by (simp add: t' update_block_def clock_def)
  have "traced_between (clock t) (clock t2) (clock t3) (clock t') (es_calls s3) (t_deferredCallState t4) trx"
    unfolding traced_between_def
  proof (intro conjI)
    show "unat (trx_BeginOrdinal trx) = clock t + 1"
      using x(1) trx1(2) k1 by (simp add: t1 clock_def)
    show "unat (trx_EndOrdinal trx) = clock t'" using x(2) k5 by (simp add: t' update_block_def clock_def)
    show "es_calls s3 \<noteq> []" by (rule facts(2))
    show "map seen (trx_Calls trx) = map seen (settled_calls (t_deferredCallState t4) (es_calls s3))" by (rule x(3))
    show "clock t < clock t2" using k1 k2(1) by simp
    show "clock t2 \<le> clock t3" using facts(1) k3 s(1) by simp
    show "clock t3 < clock t'" using k4(1) k' by simp
    show "clock t' < 2 ^ 64" using room k' k1 k2(2) k3 k4(2) facts(1) s(1) by simp
    show "nested 0 (clock t2) (clock t3) (es_calls s3)" using facts(4) k3 s(1) by simp
    show "calls_mset (es_calls s3) = span (clock t + 1) (clock t3)"
      using facts(1,3) k1 k2(1,3) k3 s(1) by (simp add: span_join)
    show "mset (concat (waiting_ordinals t4)) = span (clock t3) (clock t' - 1)" using k4(3) k' by simp
    show "\<forall>k \<in> set (es_calls s3). chronological (change_ordinals k) (clock t3)"
      using facts(5) k2(4) k3 s(1) by simp
    show "chronological (waiting_ordinals t4) (clock t' - 1)" using k4(4) k' by simp
  qed
  moreover have blk: "t_block t' = Some (b\<lparr>blk_TransactionTraces := blk_TransactionTraces b @ [trx]\<rparr>)"
    using b5 by (simp add: t' update_block_def)
  moreover have "between_transactions t' \<and> carried t' = carried t"
  proof (rule carried_reset [OF t' _ ready])
    show "carried (update_block (\<lambda>b. b\<lparr>blk_TransactionTraces := blk_TransactionTraces b @ [trx]\<rparr>) t5) = carried t"
      using completeTransaction_carried [OF c5] by (simp add: t4 t3 t2 t1)
    show "t_block (update_block (\<lambda>b. b\<lparr>blk_TransactionTraces := blk_TransactionTraces b @ [trx]\<rparr>) t5) \<noteq> None"
      using b5 by (simp add: update_block_def)
  qed
  moreover have "clock t' \<le> clock t + length (transaction_hooks event reader pre a ns x post receipt err)"
    using k' k1 k2(2) k3 k4(2) facts(1) s(1) by (simp add: transaction_hooks_def del: hooks_of.simps)
  ultimately show ?thesis by blast
qed

lemma transaction_trace:
  assumes "between_transactions t" and "t_block t = Some b" and "well_typed (Invoke a ns x)"
    and "list_all is_change pre" and "list_all is_change post"
    and "run_hooks cr (transaction_hooks event reader pre a ns x post receipt err) t = Inr t'"
    and "clock t + length (transaction_hooks event reader pre a ns x post receipt err) < 2 ^ 64"
  shows "\<exists>trx mid1 mid2 calls late. map_option blk_TransactionTraces (t_block t') = Some (blk_TransactionTraces b @ [trx])
    \<and> traced_between (clock t) mid1 mid2 (clock t') calls late trx"
  using transaction_runs [OF assms] by fastforce

subsection \<open>Reading the trace off\<close>

lemma calls_mset_seen:
  assumes "map seen xs = map seen ys"
  shows "calls_mset xs = calls_mset ys"
proof -
  define g :: "(u32 \<times> u32 \<times> u64 \<times> u64) \<times> u64 list list \<Rightarrow> ordinals" where
    "g = (\<lambda>((i, p, b, e), oss). {#b, e#} + mset (concat oss))"
  have "call_mset c = g (seen c)" for c by (simp add: g_def seen_def place_def call_mset_def)
  then have "map call_mset = (\<lambda>zs. map g (map seen zs))" by (simp add: fun_eq_iff)
  then show ?thesis by (intro calls_mset_map) (simp only: assms)
qed

lemma u64_of_nat: "n < 2 ^ 64 \<Longrightarrow> unat (of_nat n :: u64) = n"
  by (simp add: unat_of_nat take_bit_nat_eq_self)

lemma span_mem: "x \<in># span m n \<Longrightarrow> n < 2 ^ 64 \<Longrightarrow> m < unat x \<and> unat x \<le> n"
  by (auto simp: span_def u64_of_nat)

lemma span_count:
  assumes "n < 2 ^ 64"
  shows "count (span m n) x \<le> 1"
proof -
  have "inj_on (of_nat :: nat \<Rightarrow> u64) {Suc m..<Suc n}"
    by (rule inj_on_inverseI [where g = unat]) (use assms in \<open>simp add: u64_of_nat\<close>)
  then have "distinct (map (of_nat :: nat \<Rightarrow> u64) [Suc m..<Suc n])"
    by (simp add: distinct_map del: upt_Suc)
  then show ?thesis
    unfolding span_def by (simp add: distinct_count_atmost_1 del: upt_Suc map_append)
qed

lemma span_single:
  assumes "unat x = Suc n"
  shows "span n (Suc n) = {#x#}"
proof -
  have "(of_nat (Suc n) :: u64) = x" unfolding assms [symmetric] of_nat_unat by simp
  then show ?thesis by (simp add: span_def)
qed

lemma traced_mset:
  assumes "traced_between lo mid1 mid2 hi calls late x"
  shows "trx_mset x = span lo hi"
proof -
  note tr = assms [unfolded traced_between_def]
  have "calls_mset (trx_Calls x) = mset (concat (deferred_ordinals late)) + calls_mset calls"
    using calls_mset_seen [of "trx_Calls x" "settled_calls late calls"] settled_mset [of calls late] tr by simp
  also have "\<dots> = span (lo + 1) mid2 + span mid2 (hi - 1)" using tr by simp
  also have "\<dots> = span (lo + 1) (hi - 1)" using tr by (intro span_join) auto
  finally have calls: "calls_mset (trx_Calls x) = span (lo + 1) (hi - 1)" .
  have ends: "{#trx_BeginOrdinal x#} = span lo (lo + 1)" "{#trx_EndOrdinal x#} = span (hi - 1) hi"
    using tr span_single [of "trx_BeginOrdinal x" lo] span_single [of "trx_EndOrdinal x" "hi - 1"] by simp_all
  have "trx_mset x = span lo (lo + 1) + span (lo + 1) (hi - 1) + span (hi - 1) hi"
    using ends calls by (simp add: trx_mset_def ac_simps)
  also have "span lo (lo + 1) + span (lo + 1) (hi - 1) = span lo (hi - 1)" using tr by (intro span_join) auto
  also have "span lo (hi - 1) + span (hi - 1) hi = span lo hi" using tr by (intro span_join) auto
  finally show ?thesis .
qed

lemma settled_places: "mset (map place (settled_calls d calls)) = mset (map place calls)"
proof -
  let ?s = "SortFunc call_compare calls"
  have "map place (?s[0 := append_deferred d (?s ! 0)]) = map place ?s"
    by (cases ?s) (simp_all add: place_def)
  then show ?thesis by (simp add: settled_calls_def Let_def call_sort.mset_srt)
qed

lemma nested_places:
  assumes "nested i lo hi xs" and "set (map place ys) = set (map place xs)" and "lo' \<le> lo" and "hi \<le> hi'"
  shows "nested i lo' hi' ys"
proof -
  have eqs: "call_Index c = call_Index c' \<and> call_ParentIndex c = call_ParentIndex c'
      \<and> begins c = begins c' \<and> ends c = ends c'" if "place c = place c'" for c c'
    using that by (simp add: place_def begins_def ends_def)
  have to: "\<exists>x \<in> set xs. place x = place y" if "y \<in> set ys" for y
    using that assms(2) by (metis (no_types, lifting) image_iff list.set_map)
  have fro: "\<exists>y \<in> set ys. place y = place x" if "x \<in> set xs" for x
    using that assms(2) by (metis (no_types, lifting) image_iff list.set_map)
  show ?thesis
    unfolding nested_def
  proof (intro conjI ballI)
    fix k assume k: "k \<in> set ys"
    then obtain x where x: "x \<in> set xs" "place x = place k" using to by blast
    with assms(1,3,4) show "lo' < begins k" "begins k < ends k" "ends k \<le> hi'"
      using eqs [OF x(2)] by (fastforce simp: nested_def)+
    show "call_ParentIndex k = i \<or> (\<exists>p \<in> set ys. call_Index p = call_ParentIndex k \<and> encloses p k)"
    proof (cases "call_ParentIndex k = i")
      case False
      then obtain p where p: "p \<in> set xs" "call_Index p = call_ParentIndex x" "encloses p x"
        using assms(1) x eqs [OF x(2)] by (auto simp: nested_def)
      obtain q where "q \<in> set ys" "place q = place p" using fro [OF p(1)] by blast
      with p(2,3) eqs [OF x(2)] eqs [of q p] show ?thesis by (auto simp: encloses_def)
    qed simp
  next
    fix k k' assume "k \<in> set ys" and "k' \<in> set ys"
    then obtain x x' where x: "x \<in> set xs" "place x = place k" "x' \<in> set xs" "place x' = place k'"
      using to by metis
    have "begins x = begins x' \<or> apart x x' \<or> encloses x x' \<or> encloses x' x"
      using assms(1) x(1,3) by (simp add: nested_def)
    then show "begins k = begins k' \<or> apart k k' \<or> encloses k k' \<or> encloses k' k"
      using eqs [OF x(2)] eqs [OF x(4)] by (simp add: apart_def encloses_def)
  qed
qed

lemma traced_nested:
  assumes "traced_between lo mid1 mid2 hi calls late x"
  shows "nested 0 (unat (trx_BeginOrdinal x)) (unat (trx_EndOrdinal x) - 1) (trx_Calls x)"
proof -
  note tr = assms [unfolded traced_between_def]
  have fst_seen: "map place zs = map fst (map seen zs)" for zs by (simp add: seen_def)
  have "map place (trx_Calls x) = map place (settled_calls late calls)"
    using tr by (elim conjE) (simp only: fst_seen)
  then have eq: "set (map place (trx_Calls x)) = set (map place calls)"
    using mset_eq_setD [OF settled_places [of late calls]] by (simp only:)
  have nest: "nested 0 mid1 mid2 calls" using tr by blast
  show ?thesis by (rule nested_places [OF nest eq]) (use tr in linarith)+
qed

lemma begins_distinct:
  assumes "trx_mset x = span lo hi" and "hi < 2 ^ 64"
  shows "distinct (map call_BeginOrdinal (trx_Calls x))"
proof -
  have "mset (map call_BeginOrdinal cs) \<subseteq># calls_mset cs" for cs
  proof (induction cs)
    case (Cons c cs)
    have "{#call_BeginOrdinal c#} \<subseteq># call_mset c" by (simp add: call_mset_def)
    from subset_mset.add_mono [OF this Cons.IH] show ?case by simp
  qed simp
  moreover have "calls_mset (trx_Calls x) \<subseteq># span lo hi"
    unfolding assms(1) [symmetric] by (simp add: trx_mset_def)
  ultimately have "mset (map call_BeginOrdinal (trx_Calls x)) \<subseteq># span lo hi"
    by (rule subset_mset.order_trans)
  then have le: "count (mset (map call_BeginOrdinal (trx_Calls x))) o1 \<le> 1" for o1
    by (rule order_trans [OF mset_subset_eq_count span_count [OF assms(2)]])
  show ?thesis
    unfolding distinct_count_atmost_1
  proof
    fix o1
    show "count (mset (map call_BeginOrdinal (trx_Calls x))) o1
      = (if o1 \<in> set (map call_BeginOrdinal (trx_Calls x)) then 1 else 0)"
    proof (cases "o1 \<in> set (map call_BeginOrdinal (trx_Calls x))")
      case True
      then have "0 < count (mset (map call_BeginOrdinal (trx_Calls x))) o1"
        by (simp only: count_greater_zero_iff set_mset_mset)
      with le [of o1] True show ?thesis by (simp only: if_True)
    next
      case False
      then show ?thesis by (simp only: if_False count_eq_zero_iff set_mset_mset not_False_eq_True)
    qed
  qed
qed

lemma chronological_before:
  assumes "chronological oss m" and "mset (concat late) = span m n" and "n < 2 ^ 64"
  shows "all_before oss late"
proof -
  have "m < unat y" if "y \<in> set (concat late)" for y
    using that span_mem [of y m n] assms(2,3) by (metis set_mset_mset)
  then show ?thesis using assms(1)
    by (force simp: all_before_def chronological_def word_less_nat_alt)
qed

lemma traced_ordered:
  assumes "traced_between lo mid1 mid2 hi calls late x" and "c \<in> set (trx_Calls x)"
  shows "in_order (change_ordinals c)"
proof -
  note tr = assms(1) [unfolded traced_between_def]
  have "seen c \<in> set (map seen (settled_calls late calls))"
    using assms(2) tr by (metis (no_types, lifting) image_eqI list.set_map)
  then obtain c1 where c1: "c1 \<in> set (settled_calls late calls)" "change_ordinals c = change_ordinals c1"
    by (auto simp: seen_def)
  let ?s = "SortFunc call_compare calls"
  have s: "set ?s = set calls" by (metis call_sort.mset_srt set_mset_mset)
  with tr have "?s \<noteq> []" by auto
  then have "c1 \<in> set ?s \<or> (\<exists>r \<in> set ?s. c1 = append_deferred late r)"
    using c1(1) by (cases ?s) (auto simp: settled_calls_def Let_def)
  moreover have "in_order (change_ordinals (append_deferred late r))" if "r \<in> set calls" for r
    using that tr by (intro append_in_order chronological_before [of _ mid2 _ "hi - 1"])
      (auto simp: chronological_def)
  ultimately show ?thesis using c1(2) s tr by (auto simp: chronological_def)
qed

subsection \<open>The properties\<close>

text \<open>
  C3. A transaction's trace is complete: whatever calls and changes a transaction makes, before, in and
  after its root call, the trace that ends up in the block records every ordinal from its begin to its
  end exactly once. No change, log or call is lost, recorded twice or left in the deferred state.
\<close>

theorem transaction_complete:
  assumes "between_transactions t" and "t_block t = Some b" and "well_typed (Invoke a ns x)"
    and "list_all is_change pre" and "list_all is_change post"
    and "run_hooks cr (transaction_hooks event reader pre a ns x post receipt err) t = Inr t'"
    and "clock t + length (transaction_hooks event reader pre a ns x post receipt err) < 2 ^ 64"
  shows "\<exists>trx. map_option blk_TransactionTraces (t_block t') = Some (blk_TransactionTraces b @ [trx])
    \<and> trx_mset trx = mset (map of_nat [Suc (clock t)..<Suc (clock t')])"
  using transaction_trace [OF assms] traced_mset unfolding span_def by blast

text \<open>
  C7. The ordinals of the calls nest as the calls do: in the trace of such a transaction each call's
  interval lies inside the transaction's and inside that of its parent, the intervals of two calls are
  apart or one encloses the other, and no two calls begin at the same ordinal.
\<close>

theorem transaction_calls_nest:
  assumes "between_transactions t" and "t_block t = Some b" and "well_typed (Invoke a ns x)"
    and "list_all is_change pre" and "list_all is_change post"
    and "run_hooks cr (transaction_hooks event reader pre a ns x post receipt err) t = Inr t'"
    and "clock t + length (transaction_hooks event reader pre a ns x post receipt err) < 2 ^ 64"
  shows "\<exists>trx. map_option blk_TransactionTraces (t_block t') = Some (blk_TransactionTraces b @ [trx])
    \<and> nested 0 (unat (trx_BeginOrdinal trx)) (unat (trx_EndOrdinal trx) - 1) (trx_Calls trx)
    \<and> distinct (map call_BeginOrdinal (trx_Calls trx))"
proof -
  obtain trx mid1 mid2 calls late where trx: "map_option blk_TransactionTraces (t_block t') = Some (blk_TransactionTraces b @ [trx])"
    and tr: "traced_between (clock t) mid1 mid2 (clock t') calls late trx"
    using transaction_trace [OF assms] by blast
  have "clock t' < 2 ^ 64" using tr by (simp only: traced_between_def)
  then show ?thesis using trx traced_nested [OF tr] begins_distinct [OF traced_mset [OF tr]] by blast
qed

text \<open>
  C8. Changes are recorded in chronological order: in the trace of such a transaction every list of changes
  and of logs of every call has increasing ordinals, those made before the root call, which wait in
  the deferred state, at the front of its lists, and those made after it at the end.
\<close>

theorem transaction_changes_ordered:
  assumes "between_transactions t" and "t_block t = Some b" and "well_typed (Invoke a ns x)"
    and "list_all is_change pre" and "list_all is_change post"
    and "run_hooks cr (transaction_hooks event reader pre a ns x post receipt err) t = Inr t'"
    and "clock t + length (transaction_hooks event reader pre a ns x post receipt err) < 2 ^ 64"
  shows "\<exists>trx. map_option blk_TransactionTraces (t_block t') = Some (blk_TransactionTraces b @ [trx])
    \<and> (\<forall>c \<in> set (trx_Calls trx). in_order (change_ordinals c))"
proof -
  obtain trx mid1 mid2 calls late where trx: "map_option blk_TransactionTraces (t_block t') = Some (blk_TransactionTraces b @ [trx])"
    and tr: "traced_between (clock t) mid1 mid2 (clock t') calls late trx"
    using transaction_trace [OF assms] by blast
  then show ?thesis using traced_ordered [OF tr] by blast
qed

end
