(* ===== verification/ParallelEquiv.thy ===== *)
theory ParallelEquiv
  imports ParallelSpec TransactionSpec
begin

section \<open>Parallel execution is equivalent to sequential execution\<close>

text \<open>
  The coordinator could have traced a transaction itself instead of committing what an isolated tracer
  traced. \<open>lift t k z s\<close> is the coordinator \<open>t\<close> in the middle of the transaction that the isolated tracer
  \<open>s\<close> is tracing: the transaction state of \<open>s\<close> with every ordinal \<open>k\<close> later, and \<open>z\<close> in the field
  \<open>latestCallEnterSuicidedDepth\<close>, which no hook acts on. Each hook of a transaction
  commutes with \<open>lift\<close>, and so does the completion of the trace.
\<close>

subsection \<open>The shifted state\<close>

definition shift_active :: "u64 \<Rightarrow> Call \<Rightarrow> Call" where
  "shift_active k c = (reorderCallOrdinals k c)\<lparr>call_EndOrdinal := call_EndOrdinal c\<rparr>"

definition shift_deferred :: "u64 \<Rightarrow> DeferredCallState \<Rightarrow> DeferredCallState" where
  "shift_deferred k d = d\<lparr>
     df_balanceChanges := map (\<lambda>c. c\<lparr>bc_Ordinal := bc_Ordinal c + k\<rparr>) (df_balanceChanges d),
     df_nonceChanges := map (\<lambda>c. c\<lparr>nc_Ordinal := nc_Ordinal c + k\<rparr>) (df_nonceChanges d),
     df_codeChanges := map (\<lambda>c. c\<lparr>cc_Ordinal := cc_Ordinal c + k\<rparr>) (df_codeChanges d),
     df_storageChanges := map (\<lambda>c. c\<lparr>sc_Ordinal := sc_Ordinal c + k\<rparr>) (df_storageChanges d),
     df_logs := map (\<lambda>l. l\<lparr>log_Ordinal := log_Ordinal l + k\<rparr>) (df_logs d)\<rparr>"

definition shift_trx :: "u64 \<Rightarrow> TransactionTrace \<Rightarrow> TransactionTrace" where
  "shift_trx k x = x\<lparr>trx_BeginOrdinal := trx_BeginOrdinal x + k,
     trx_Calls := map (reorderCallOrdinals k) (trx_Calls x)\<rparr>"

definition shift_stack :: "u64 \<Rightarrow> CallStack \<Rightarrow> CallStack" where
  "shift_stack k cs = cs\<lparr>cs_stack := map (shift_active k) (cs_stack cs)\<rparr>"

definition lift :: "tracer \<Rightarrow> u64 \<Rightarrow> int \<Rightarrow> tracer \<Rightarrow> tracer" where
  "lift t k z s = t\<lparr>t_transaction := map_option (shift_trx k) (t_transaction s),
     t_blockOrdinal := \<lparr>ord_value = ord_value (t_blockOrdinal s) + k\<rparr>,
     t_transactionLogIndex := t_transactionLogIndex s,
     t_transactionStateReader := t_transactionStateReader s,
     t_transactionKeccakPreimages := t_transactionKeccakPreimages s,
     t_callStack := shift_stack k (t_callStack s),
     t_deferredCallState := shift_deferred k (t_deferredCallState s),
     t_latestCallEnterSuicided := t_latestCallEnterSuicided s,
     t_latestCallEnterSuicidedDepth := z\<rparr>"

text \<open>What the isolated tracer has in common with the coordinator.\<close>

definition alike :: "tracer \<Rightarrow> tracer \<Rightarrow> bool" where
  "alike t s \<longleftrightarrow> t_config s = t_config t \<and> t_chainConfig s = t_chainConfig t \<and> t_block s = t_block t
     \<and> t_block t \<noteq> None \<and> t_blockBaseFee s = t_blockBaseFee t \<and> t_blockRules s = t_blockRules t
     \<and> t_blockIsGenesis s = t_blockIsGenesis t \<and> t_inSystemCall s = t_inSystemCall t
     \<and> t_transactionTransient s = None \<and> t_transactionTransient t = None"

lemma lift_fields [simp]:
  "t_config (lift t k z s) = t_config t" "t_chainConfig (lift t k z s) = t_chainConfig t"
  "t_block (lift t k z s) = t_block t" "t_blockBaseFee (lift t k z s) = t_blockBaseFee t"
  "t_blockRules (lift t k z s) = t_blockRules t" "t_blockIsGenesis (lift t k z s) = t_blockIsGenesis t"
  "t_inSystemCall (lift t k z s) = t_inSystemCall t"
  "t_transactionIsolated (lift t k z s) = t_transactionIsolated t"
  "t_transactionTransient (lift t k z s) = t_transactionTransient t"
  "t_transaction (lift t k z s) = map_option (shift_trx k) (t_transaction s)"
  "ord_value (t_blockOrdinal (lift t k z s)) = ord_value (t_blockOrdinal s) + k"
  "t_transactionLogIndex (lift t k z s) = t_transactionLogIndex s"
  "t_transactionStateReader (lift t k z s) = t_transactionStateReader s"
  "t_transactionKeccakPreimages (lift t k z s) = t_transactionKeccakPreimages s"
  "t_callStack (lift t k z s) = shift_stack k (t_callStack s)"
  "t_deferredCallState (lift t k z s) = shift_deferred k (t_deferredCallState s)"
  "t_latestCallEnterSuicided (lift t k z s) = t_latestCallEnterSuicided s"
  by (simp_all add: lift_def)

lemma shift_stack_fields [simp]:
  "cs_stack (shift_stack k cs) = map (shift_active k) (cs_stack cs)"
  "cs_index (shift_stack k cs) = cs_index cs" "cs_depth (shift_stack k cs) = cs_depth cs"
  by (simp_all add: shift_stack_def)

lemma shift_active_fields [simp]:
  "call_Index (shift_active k c) = call_Index c" "call_Suicide (shift_active k c) = call_Suicide c"
  by (simp_all add: shift_active_def reorderCallOrdinals_def)

lemma shift_adds:
  "call_add_balance b (shift_active k c) = shift_active k (call_add_balance (b\<lparr>bc_Ordinal := bc_Ordinal b - k\<rparr>) c)"
  "call_add_nonce n (shift_active k c) = shift_active k (call_add_nonce (n\<lparr>nc_Ordinal := nc_Ordinal n - k\<rparr>) c)"
  "call_add_code d (shift_active k c) = shift_active k (call_add_code (d\<lparr>cc_Ordinal := cc_Ordinal d - k\<rparr>) c)"
  "call_add_storage g (shift_active k c) = shift_active k (call_add_storage (g\<lparr>sc_Ordinal := sc_Ordinal g - k\<rparr>) c)"
  "call_add_log l (shift_active k c) = shift_active k (call_add_log (l\<lparr>log_Ordinal := log_Ordinal l - k\<rparr>) c)"
  "(shift_active k c)\<lparr>call_ExecutedCode := u\<rparr> = shift_active k (c\<lparr>call_ExecutedCode := u\<rparr>)"
  "(shift_active k c)\<lparr>call_Suicide := u\<rparr> = shift_active k (c\<lparr>call_Suicide := u\<rparr>)"
  by (simp_all add: shift_active_def reorderCallOrdinals_def call_add_defs)

lemma shift_deferred_adds:
  "df_AddBalanceChange b (shift_deferred k d) = shift_deferred k (df_AddBalanceChange (b\<lparr>bc_Ordinal := bc_Ordinal b - k\<rparr>) d)"
  "df_AddNonceChange n (shift_deferred k d) = shift_deferred k (df_AddNonceChange (n\<lparr>nc_Ordinal := nc_Ordinal n - k\<rparr>) d)"
  "df_AddCodeChange c (shift_deferred k d) = shift_deferred k (df_AddCodeChange (c\<lparr>cc_Ordinal := cc_Ordinal c - k\<rparr>) d)"
  "df_AddStorageChange g (shift_deferred k d) = shift_deferred k (df_AddStorageChange (g\<lparr>sc_Ordinal := sc_Ordinal g - k\<rparr>) d)"
  "df_AddLog l (shift_deferred k d) = shift_deferred k (df_AddLog (l\<lparr>log_Ordinal := log_Ordinal l - k\<rparr>) d)"
  by (simp_all add: shift_deferred_def df_add_defs)

subsection \<open>The hooks of a transaction commute with the shift\<close>

lemma lift_next:
  "(lift t k z s)\<lparr>t_blockOrdinal := snd (ordinal_Next (t_blockOrdinal (lift t k z s)))\<rparr>
    = lift t k z (s\<lparr>t_blockOrdinal := snd (ordinal_Next (t_blockOrdinal s))\<rparr>)"
  by (simp add: lift_def ordinal_defs ac_simps)

lemma lift_active:
  assumes "\<And>c. f (shift_active k c) = shift_active k (f' c)"
  shows "update_active f (lift t k z s) = lift t k z (update_active f' s)"
proof -
  have "map (shift_active k) (update_last f' cs) = update_last f (map (shift_active k) cs)" for cs
    using assms by (cases cs rule: rev_cases) simp_all
  then show ?thesis by (simp add: lift_def update_active_def cs_update_top_def shift_stack_def)
qed

lemma lift_deferred:
  assumes "\<And>d. g (shift_deferred k d) = shift_deferred k (g' d)"
  shows "update_deferred g (lift t k z s) = lift t k z (update_deferred g' s)"
  using assms by (simp add: lift_def update_deferred_def)

lemma lift_adds:
  "update_active (call_add_balance b) (lift t k z s) = lift t k z (update_active (call_add_balance (b\<lparr>bc_Ordinal := bc_Ordinal b - k\<rparr>)) s)"
  "update_active (call_add_nonce n) (lift t k z s) = lift t k z (update_active (call_add_nonce (n\<lparr>nc_Ordinal := nc_Ordinal n - k\<rparr>)) s)"
  "update_active (call_add_code c) (lift t k z s) = lift t k z (update_active (call_add_code (c\<lparr>cc_Ordinal := cc_Ordinal c - k\<rparr>)) s)"
  "update_active (call_add_storage g) (lift t k z s) = lift t k z (update_active (call_add_storage (g\<lparr>sc_Ordinal := sc_Ordinal g - k\<rparr>)) s)"
  "update_active (call_add_log l) (lift t k z s) = lift t k z (update_active (call_add_log (l\<lparr>log_Ordinal := log_Ordinal l - k\<rparr>)) s)"
  "update_active (\<lambda>c. c\<lparr>call_ExecutedCode := u\<rparr>) (lift t k z s) = lift t k z (update_active (\<lambda>c. c\<lparr>call_ExecutedCode := u\<rparr>) s)"
  "update_active (\<lambda>c. c\<lparr>call_Suicide := u\<rparr>) (lift t k z s) = lift t k z (update_active (\<lambda>c. c\<lparr>call_Suicide := u\<rparr>) s)"
  by (rule lift_active, rule shift_adds)+

lemma lift_deferred_adds:
  "update_deferred (df_AddBalanceChange b) (lift t k z s) = lift t k z (update_deferred (df_AddBalanceChange (b\<lparr>bc_Ordinal := bc_Ordinal b - k\<rparr>)) s)"
  "update_deferred (df_AddNonceChange n) (lift t k z s) = lift t k z (update_deferred (df_AddNonceChange (n\<lparr>nc_Ordinal := nc_Ordinal n - k\<rparr>)) s)"
  "update_deferred (df_AddCodeChange c) (lift t k z s) = lift t k z (update_deferred (df_AddCodeChange (c\<lparr>cc_Ordinal := cc_Ordinal c - k\<rparr>)) s)"
  "update_deferred (df_AddStorageChange g) (lift t k z s) = lift t k z (update_deferred (df_AddStorageChange (g\<lparr>sc_Ordinal := sc_Ordinal g - k\<rparr>)) s)"
  "update_deferred (df_AddLog l) (lift t k z s) = lift t k z (update_deferred (df_AddLog (l\<lparr>log_Ordinal := log_Ordinal l - k\<rparr>)) s)"
  by (rule lift_deferred, rule shift_deferred_adds)+

lemma lift_logs:
  "(lift t k z s)\<lparr>t_transactionLogIndex := l\<rparr> = lift t k z (s\<lparr>t_transactionLogIndex := l\<rparr>)"
  "(lift t k z s)\<lparr>t_transactionKeccakPreimages := p\<rparr> = lift t k z (s\<lparr>t_transactionKeccakPreimages := p\<rparr>)"
  "(lift t k z s)\<lparr>t_latestCallEnterSuicided := b\<rparr> = lift t k z (s\<lparr>t_latestCallEnterSuicided := b\<rparr>)"
  "(lift t k z s)\<lparr>t_latestCallEnterSuicidedDepth := m\<rparr> = lift t k m s"
  "lift t k z (s\<lparr>t_latestCallEnterSuicidedDepth := m\<rparr>) = lift t k z s"
  by (simp_all add: lift_def)

lemma lift_peek:
  "active_call (lift t k z s) = map_option (shift_active k) (active_call s)"
  "cs_Peek (shift_stack k cs) = map_option (shift_active k) (cs_Peek cs)"
  by (simp_all add: active_call_def cs_Peek_def last_map)

lemma ensure_lift:
  assumes "alike t s" and "t_chainConfig s \<noteq> None"
  shows "ensureInBlockAndInTrx s = None \<Longrightarrow> ensureInBlockAndInTrx (lift t k z s) = None"
    and "ensureInBlockOrTrx s = None \<Longrightarrow> ensureInBlockOrTrx (lift t k z s) = None"
    and "ensureInBlockAndInTrxAndInCall s = None \<Longrightarrow> ensureInBlockAndInTrxAndInCall (lift t k z s) = None"
  using assms by (auto simp: ensure_None_iff alike_def)

lemmas lift_steps = lift_next lift_adds lift_deferred_adds lift_logs lift_peek

lemma change_hooks_lift:
  assumes "alike t s" and "t_chainConfig s \<noteq> None" and "t_transaction s \<noteq> None"
  shows "OnBalanceChange addr old new reason s = Inr s' \<Longrightarrow> OnBalanceChange addr old new reason (lift t k z s) = Inr (lift t k z s')"
    and "OnNonceChange addr n n' s = Inr s' \<Longrightarrow> OnNonceChange addr n n' (lift t k z s) = Inr (lift t k z s')"
    and "OnCodeChange addr ph nh oc nc s = Inr s' \<Longrightarrow> OnCodeChange addr ph nh oc nc (lift t k z s) = Inr (lift t k z s')"
    and "OnStorageChange addr slot ov nv s = Inr s' \<Longrightarrow> OnStorageChange addr slot ov nv (lift t k z s) = Inr (lift t k z s')"
    and "OnLog addr topics data bi s = Inr s' \<Longrightarrow> OnLog addr topics data bi (lift t k z s) = Inr (lift t k z s')"
  using assms(3) ensure_lift [OF assms(1,2)]
  by (auto simp: change_hook_defs guard_Inr_iff Let_def lift_steps active_call_def cs_Peek_Some_iff last_map
      split: if_splits option.splits)

lemma opcode_hooks_lift:
  assumes "alike t s" and "t_chainConfig s \<noteq> None"
  shows "OnOpcode pc op1 gas cost rd depth err s = Inr s' \<Longrightarrow> OnOpcode pc op1 gas cost rd depth err (lift t k z s) = Inr (lift t k z s')"
    and "OnOpcodeFault pc op1 gas cost depth err s = Inr s' \<Longrightarrow> OnOpcodeFault pc op1 gas cost depth err (lift t k z s) = Inr (lift t k z s')"
    and "OnKeccakPreimage h p s = Inr s' \<Longrightarrow> OnKeccakPreimage h p (lift t k z s) = Inr (lift t k z s')"
  using ensure_lift [OF assms]
  by (auto simp: OnOpcode_def OnOpcodeFault_def OnKeccakPreimage_def guard_Inr_iff Let_def lift_steps
      active_call_def cs_Peek_Some_iff last_map split: if_splits option.splits)

lemma shift_prepend: "prepend_deferred (shift_deferred k d) (shift_active k c) = shift_active k (prepend_deferred d c)"
  by (simp add: shift_active_def shift_deferred_def prepend_deferred_def reorderCallOrdinals_def)

lemma shift_append:
  "append_deferred (shift_deferred k d) (reorderCallOrdinals k c) = reorderCallOrdinals k (append_deferred d c)"
  by (simp add: shift_deferred_def append_deferred_def reorderCallOrdinals_def)

lemma shift_new_deferred [simp]: "shift_deferred k NewDeferredCallState = NewDeferredCallState"
  by (simp add: shift_deferred_def NewDeferredCallState_def)

lemma shift_push: "cs_Push (shift_active k c) (shift_stack k cs) = shift_stack k (cs_Push c cs)"
proof -
  have stamp: "(shift_active k c)\<lparr>call_Index := i\<rparr> = shift_active k (c\<lparr>call_Index := i\<rparr>)"
    "(shift_active k c)\<lparr>call_Depth := d\<rparr> = shift_active k (c\<lparr>call_Depth := d\<rparr>)"
    "(shift_active k c)\<lparr>call_ParentIndex := i\<rparr> = shift_active k (c\<lparr>call_ParentIndex := i\<rparr>)" for c i d
    by (simp_all add: shift_active_def reorderCallOrdinals_def)
  show ?thesis
    by (simp add: cs_Push_def shift_stack_def cs_Peek_def last_map stamp Let_def)
qed

lemma lift_call:
  "(lift t k z s)\<lparr>t_callStack := shift_stack k cs\<rparr> = lift t k z (s\<lparr>t_callStack := cs\<rparr>)"
  "(lift t k z s)\<lparr>t_deferredCallState := shift_deferred k d\<rparr> = lift t k z (s\<lparr>t_deferredCallState := d\<rparr>)"
  "(lift t k z s)\<lparr>t_deferredCallState := NewDeferredCallState\<rparr> = lift t k z (s\<lparr>t_deferredCallState := NewDeferredCallState\<rparr>)"
  by (simp_all add: lift_def shift_deferred_def NewDeferredCallState_def)

lemma delegates_lift: "alike t s \<Longrightarrow> delegates_to ty addr (lift t k z s) = delegates_to ty addr s"
  by (simp add: delegates_to_def alike_def)

definition new_call ::
    "byte \<Rightarrow> bytes \<Rightarrow> bytes \<Rightarrow> bytes \<Rightarrow> u64 \<Rightarrow> int option \<Rightarrow> u64 \<Rightarrow> bytes option \<Rightarrow> Call" where
  "new_call ty caller target input gas v o1 del = empty_Call\<lparr>call_CallType := callTypeToProto ty,
     call_Caller := caller, call_Address := target, call_Value := bigIntToProtobuf v, call_GasLimit := gas,
     call_GasConsumed := 0, call_Input := input, call_BeginOrdinal := o1, call_AddressDelegatesTo := del\<rparr>"

lemma OnCallEnter_new:
  assumes "ty \<noteq> CallTypeSelfDestruct" and "callTypeToProto ty \<noteq> UNSPECIFIED"
  shows "OnCallEnter depth ty caller target input gas v t = Inr
    (let c = new_call ty caller target input gas v (ord_value (t_blockOrdinal t) + 1)
           (delegates_to (callTypeToProto ty) target t);
         t1 = t\<lparr>t_blockOrdinal := snd (ordinal_Next (t_blockOrdinal t))\<rparr>
     in if depth = 0
        then t1\<lparr>t_deferredCallState := NewDeferredCallState,
               t_callStack := cs_Push (prepend_deferred (t_deferredCallState t) c) (t_callStack t)\<rparr>
        else t1\<lparr>t_callStack := cs_Push c (t_callStack t)\<rparr>)"
  using assms
  by (simp add: OnCallEnter_def Let_def check_def populate_enter new_call_def delegates_to_def)

lemma new_call_lift: "new_call ty caller target input gas v (o1 + k + 1) del
    = shift_active k (new_call ty caller target input gas v (o1 + 1) del)"
  by (simp add: new_call_def shift_active_def reorderCallOrdinals_def empty_Call_def ac_simps)

lemma OnCallEnter_lift:
  assumes "alike t s" and "OnCallEnter depth ty caller target input gas v s = Inr s'"
  shows "\<exists>z'. OnCallEnter depth ty caller target input gas v (lift t k z s) = Inr (lift t k z' s')"
proof (cases "ty = CallTypeSelfDestruct")
  case True
  then show ?thesis using assms(2) by (auto simp: OnCallEnter_def lift_logs)
next
  case False
  with assms(2) have ok: "callTypeToProto ty \<noteq> UNSPECIFIED"
    by (auto simp: OnCallEnter_def Let_def guard_Inr_iff check_None_iff)
  show ?thesis
    using assms(2) OnCallEnter_new [OF False ok, of depth caller target input gas v s]
      OnCallEnter_new [OF False ok, of depth caller target input gas v "lift t k z s"]
    by (auto simp: Let_def delegates_lift [OF assms(1)] new_call_lift shift_prepend shift_push lift_call lift_next)
qed

lemma shift_pop:
  "fst (cs_Pop (shift_stack k cs)) = map_option (shift_active k) (fst (cs_Pop cs))"
  "snd (cs_Pop (shift_stack k cs)) = shift_stack k (snd (cs_Pop cs))"
  by (simp_all add: cs_Pop_def shift_stack_def last_map map_butlast)

lemma exit_call_shift:
  "(exit_call outp gasUsed err rev1 (shift_active k c))\<lparr>call_EndOrdinal := e + k\<rparr>
    = reorderCallOrdinals k ((exit_call outp gasUsed err rev1 c)\<lparr>call_EndOrdinal := e\<rparr>)"
  by (simp add: exit_call_def Let_def shift_active_def reorderCallOrdinals_def)

lemma OnCallExit_pop:
  assumes "\<not> t_latestCallEnterSuicided t" and "ensureInBlockAndInTrxAndInCall t = None"
    and "fst (cs_Pop (t_callStack t)) = Some c"
  shows "OnCallExit depth outp gasUsed err rev1 t = Inr (update_transaction
      (\<lambda>trx. trx\<lparr>trx_Calls := trx_Calls trx @ [(exit_call outp gasUsed err rev1 c)
         \<lparr>call_EndOrdinal := ord_value (t_blockOrdinal t) + 1\<rparr>]\<rparr>)
      (t\<lparr>t_callStack := snd (cs_Pop (t_callStack t)), t_blockOrdinal := snd (ordinal_Next (t_blockOrdinal t))\<rparr>))"
  using assms by (cases "cs_Pop (t_callStack t)") (simp add: OnCallExit_def Let_def)

lemma OnCallExit_lift:
  assumes "alike t s" and "t_chainConfig s \<noteq> None"
    and e: "OnCallExit depth outp gasUsed err rev1 s = Inr s'"
  shows "OnCallExit depth outp gasUsed err rev1 (lift t k z s) = Inr (lift t k z s')"
proof (cases "t_latestCallEnterSuicided s")
  case True
  then show ?thesis using e by (auto simp: OnCallExit_def lift_logs)
next
  case False
  with e obtain c where ok: "ensureInBlockAndInTrxAndInCall s = None" and c: "fst (cs_Pop (t_callStack s)) = Some c"
    by (auto simp: OnCallExit_def guard_Inr_iff split: prod.splits option.splits)
  have ok': "ensureInBlockAndInTrxAndInCall (lift t k z s) = None" by (rule ensure_lift(3) [OF assms(1,2) ok])
  have none: "t_transactionTransient s = None" "t_transactionTransient t = None"
    using assms(1) by (simp_all add: alike_def)
  let ?c = "(exit_call outp gasUsed err rev1 c)\<lparr>call_EndOrdinal := ord_value (t_blockOrdinal s) + 1\<rparr>"
  have s': "s' = update_transaction (\<lambda>trx. trx\<lparr>trx_Calls := trx_Calls trx @ [?c]\<rparr>)
      (s\<lparr>t_callStack := snd (cs_Pop (t_callStack s)), t_blockOrdinal := snd (ordinal_Next (t_blockOrdinal s))\<rparr>)"
    using e OnCallExit_pop [OF False ok c, of depth outp gasUsed err rev1] by simp
  have o1: "ord_value (t_blockOrdinal s) + k + 1 = ord_value (t_blockOrdinal s) + 1 + k" by (simp add: ac_simps)
  have "OnCallExit depth outp gasUsed err rev1 (lift t k z s)
      = Inr (update_transaction (\<lambda>trx. trx\<lparr>trx_Calls := trx_Calls trx @ [reorderCallOrdinals k ?c]\<rparr>)
        ((lift t k z s)\<lparr>t_callStack := snd (cs_Pop (shift_stack k (t_callStack s))),
           t_blockOrdinal := snd (ordinal_Next (t_blockOrdinal (lift t k z s)))\<rparr>))"
    using OnCallExit_pop [OF _ ok', of "shift_active k c" depth outp gasUsed err rev1] False c
    by (simp add: shift_pop o1 exit_call_shift)
  also have "\<dots> = Inr (lift t k z s')"
    using none unfolding s' shift_pop
    by (cases "t_transaction s") (simp_all add: update_transaction_def lift_def shift_trx_def ordinal_defs o1)
  finally show ?thesis .
qed

lemma new_trace_shift:
  "new_trace event price (o1 + k + 1) addr = shift_trx k (new_trace event price (o1 + 1) addr)"
  by (simp add: new_trace_def Let_def shift_trx_def empty_Trace_def ac_simps)

text \<open>What \<open>OnTxStart\<close> takes from the tracer beside the ordinal: the base fee and the recovery function.\<close>

definition authorized :: "Crypto \<Rightarrow> TxEvent \<Rightarrow> tracer \<Rightarrow> TransactionTrace \<Rightarrow> go_panic + TransactionTrace" where
  "authorized cr event t x = (if length (te_SetCodeAuthorizations event) > 0
     then bindR (authorizations_to_proto (recovery_func cr t) (te_SetCodeAuthorizations event))
            (\<lambda>auths. Inr (x\<lparr>trx_SetCodeAuthorizations := auths\<rparr>)) else Inr x)"

lemma OnTxStart_eq:
  assumes "recovery_func cr u = recovery_func cr t" and "t_blockBaseFee u = t_blockBaseFee t"
  shows "OnTxStart cr event reader u = guard (ensureInBlockAndNotInTrxAndNotInCall u)
    (bindR (to_address cr event reader) (\<lambda>addr. bindR (authorized cr event t
        (new_trace event (computeEffectiveGasPrice event (t_blockBaseFee t)) (ord_value (t_blockOrdinal u) + 1) addr))
      (\<lambda>x. Inr (u\<lparr>t_transactionStateReader := reader, t_blockOrdinal := snd (ordinal_Next (t_blockOrdinal u)),
          t_transaction := Some x\<rparr>))))"
proof -
  have "recovery_func cr (u\<lparr>t_transactionStateReader := r, t_blockOrdinal := o1\<rparr>) = recovery_func cr u" for r o1
    by (simp add: recovery_func_def)
  then show ?thesis using assms by (simp add: OnTxStart_def authorized_def Let_def cong: if_cong)
qed

lemma OnTxStart_Inr:
  assumes "OnTxStart cr event reader t = Inr t'"
  obtains addr x where "ensureInBlockAndNotInTrxAndNotInCall t = None" and "to_address cr event reader = Inr addr"
    and "authorized cr event t (new_trace event (computeEffectiveGasPrice event (t_blockBaseFee t))
      (ord_value (t_blockOrdinal t) + 1) addr) = Inr x"
    and "t' = t\<lparr>t_transactionStateReader := reader, t_blockOrdinal := snd (ordinal_Next (t_blockOrdinal t)),
      t_transaction := Some x\<rparr>"
proof -
  have "\<exists>addr x. ensureInBlockAndNotInTrxAndNotInCall t = None \<and> to_address cr event reader = Inr addr
    \<and> authorized cr event t (new_trace event (computeEffectiveGasPrice event (t_blockBaseFee t))
        (ord_value (t_blockOrdinal t) + 1) addr) = Inr x
    \<and> t' = t\<lparr>t_transactionStateReader := reader, t_blockOrdinal := snd (ordinal_Next (t_blockOrdinal t)),
        t_transaction := Some x\<rparr>"
    using assms unfolding OnTxStart_eq [OF refl refl] guard_Inr_iff bindR_Inr_iff by auto
  then show ?thesis using that by blast
qed

lemma OnTxStart_lift:
  assumes "alike t s" and "t_chainConfig s \<noteq> None" and "OnTxStart cr event reader s = Inr s'"
  shows "OnTxStart cr event reader (lift t k z s) = Inr (lift t k z s')"
proof -
  have rec: "recovery_func cr (lift t k z s) = recovery_func cr s"
    using assms(1) by (simp add: recovery_func_def alike_def)
  have fee: "t_blockBaseFee (lift t k z s) = t_blockBaseFee s" using assms(1) by (simp add: alike_def)
  obtain addr x where ok: "ensureInBlockAndNotInTrxAndNotInCall s = None" and addr: "to_address cr event reader = Inr addr"
    and x: "authorized cr event s (new_trace event (computeEffectiveGasPrice event (t_blockBaseFee s))
      (ord_value (t_blockOrdinal s) + 1) addr) = Inr x"
    and s': "s' = s\<lparr>t_transactionStateReader := reader, t_blockOrdinal := snd (ordinal_Next (t_blockOrdinal s)),
      t_transaction := Some x\<rparr>"
    using assms(3) by (rule OnTxStart_Inr)
  have ok': "ensureInBlockAndNotInTrxAndNotInCall (lift t k z s) = None"
    using ok assms(1,2) by (auto simp: ensure_None_iff alike_def)
  have x': "authorized cr event s (new_trace event (computeEffectiveGasPrice event (t_blockBaseFee s))
      (ord_value (t_blockOrdinal s) + k + 1) addr) = Inr (shift_trx k x)"
    using x unfolding new_trace_shift by (auto simp: authorized_def bindR_Inr_iff shift_trx_def split: if_splits)
  have "OnTxStart cr event reader (lift t k z s)
      = Inr ((lift t k z s)\<lparr>t_transactionStateReader := reader,
          t_blockOrdinal := snd (ordinal_Next (t_blockOrdinal (lift t k z s))), t_transaction := Some (shift_trx k x)\<rparr>)"
    by (simp only: OnTxStart_eq [OF rec fee] ok' addr guard.simps bindR.simps lift_fields x')
  also have "\<dots> = Inr (lift t k z s')"
    by (simp add: s' lift_def ordinal_defs ac_simps)
  finally show ?thesis .
qed

text \<open>The hooks between the start and the end of a transaction.\<close>

fun is_trx_hook :: "hook \<Rightarrow> bool" where
  "is_trx_hook (HCallEnter _ _ _ _ _ _ _) = True"
| "is_trx_hook (HCallExit _ _ _ _ _) = True"
| "is_trx_hook h = is_event h"

definition common :: "tracer \<Rightarrow> Config \<times> ChainConfig option \<times> Block option \<times> int option \<times> Rules \<times> bool \<times> bool
    \<times> bool \<times> bool \<times> bool \<times> bool" where
  "common s = (t_config s, t_chainConfig s, t_block s, t_blockBaseFee s, t_blockRules s, t_blockIsGenesis s,
     t_inSystemCall s, t_transactionIsolated s, t_transactionDropped s,
     t_transactionTransient s = None, t_transaction s = None)"

lemma common_simps [simp]:
  "common (update_active f s) = common s" "common (update_deferred g s) = common s"
  "common (update_transaction h s) = common s" "common (s\<lparr>t_blockOrdinal := o1\<rparr>) = common s"
  "common (s\<lparr>t_transactionLogIndex := l\<rparr>) = common s" "common (s\<lparr>t_transactionKeccakPreimages := p\<rparr>) = common s"
  "common (s\<lparr>t_callStack := cs\<rparr>) = common s" "common (s\<lparr>t_deferredCallState := d\<rparr>) = common s"
  "common (s\<lparr>t_latestCallEnterSuicided := b\<rparr>) = common s"
  "common (s\<lparr>t_latestCallEnterSuicidedDepth := m\<rparr>) = common s"
  by (simp_all add: common_def update_active_def update_deferred_def update_transaction_def)

lemma common_hook:
  assumes "is_trx_hook h" and "apply_hook cr h s = Inr s'" and "t_transaction s \<noteq> None"
  shows "common s' = common s"
proof (cases h)
  case (HCallEnter depth ty caller target input gas v)
  with assms(2) have "OnCallEnter depth ty caller target input gas v s = Inr s'" by simp
  then show ?thesis by (cases rule: OnCallEnter_elim) simp_all
next
  case (HCallExit depth outp gasUsed err rev1)
  with assms(2) have "OnCallExit depth outp gasUsed err rev1 s = Inr s'" by simp
  then show ?thesis by (cases rule: OnCallExit_elim) simp_all
qed (use assms in \<open>auto simp: change_hook_defs OnOpcode_def OnOpcodeFault_def OnKeccakPreimage_def guard_Inr_iff
    Let_def split: if_splits option.splits\<close>)

lemma alike_common: "alike t s \<Longrightarrow> common s' = common s \<Longrightarrow> alike t s'"
  by (simp add: alike_def common_def)

lemma trx_hook_lift:
  assumes "alike t s" and "t_chainConfig s \<noteq> None" and "t_transaction s \<noteq> None" and "is_trx_hook h"
    and "apply_hook cr h s = Inr s'"
  shows "\<exists>z'. apply_hook cr h (lift t k z s) = Inr (lift t k z' s')"
  using assms(4,5) OnCallEnter_lift [OF assms(1)] OnCallExit_lift [OF assms(1,2)]
    change_hooks_lift [OF assms(1-3)] opcode_hooks_lift [OF assms(1,2)]
  by (cases h) (simp_all, blast+)

lemma trx_hooks_lift:
  assumes "alike t s" and "t_chainConfig s \<noteq> None" and "t_transaction s \<noteq> None" and "list_all is_trx_hook hs"
    and "run_hooks cr hs s = Inr s'"
  shows "(\<exists>z'. run_hooks cr hs (lift t k z s) = Inr (lift t k z' s')) \<and> common s' = common s"
  using assms
proof (induction hs arbitrary: s z)
  case Nil
  then show ?case by auto
next
  case (Cons h hs)
  obtain s1 where s1: "apply_hook cr h s = Inr s1" "run_hooks cr hs s1 = Inr s'"
    using Cons.prems(5) by (auto simp: bindR_Inr_iff)
  have h: "is_trx_hook h" and hs: "list_all is_trx_hook hs" using Cons.prems(4) by auto
  have c1: "common s1 = common s" by (rule common_hook [OF h s1(1) Cons.prems(3)])
  obtain z1 where z1: "apply_hook cr h (lift t k z s) = Inr (lift t k z1 s1)"
    using trx_hook_lift [OF Cons.prems(1-3) h s1(1)] by blast
  have "alike t s1" "t_chainConfig s1 \<noteq> None" "t_transaction s1 \<noteq> None"
    using alike_common [OF Cons.prems(1) c1] c1 Cons.prems(2,3) by (simp_all add: common_def)
  from Cons.IH [OF this hs s1(2), of z1] show ?case using z1 c1 by auto
qed

subsection \<open>The completion of a trace commutes with the shift\<close>

abbreviation shift_log :: "u64 \<Rightarrow> Log \<Rightarrow> Log" where
  "shift_log k l \<equiv> l\<lparr>log_Ordinal := log_Ordinal l + k\<rparr>"

lemma reorder_fields [simp]:
  "call_Index (reorderCallOrdinals k c) = call_Index c"
  "call_ParentIndex (reorderCallOrdinals k c) = call_ParentIndex c"
  "call_StatusFailed (reorderCallOrdinals k c) = call_StatusFailed c"
  "call_StatusReverted (reorderCallOrdinals k c) = call_StatusReverted c"
  "call_StateReverted (reorderCallOrdinals k c) = call_StateReverted c"
  "call_ReturnData (reorderCallOrdinals k c) = call_ReturnData c"
  "call_KeccakPreimages (reorderCallOrdinals k c) = call_KeccakPreimages c"
  "call_Logs (reorderCallOrdinals k c) = map (shift_log k) (call_Logs c)"
  "map sc_Key (call_StorageChanges (reorderCallOrdinals k c)) = map sc_Key (call_StorageChanges c)"
  by (simp_all add: reorderCallOrdinals_def)

lemma SortFunc_map:
  assumes "\<forall>a \<in> set xs. \<forall>b \<in> set xs. cmp (f a) (f b) \<le> 0 \<longleftrightarrow> cmp a b \<le> 0"
  shows "SortFunc cmp (map f xs) = map f (SortFunc cmp xs)"
proof -
  have ins: "insert_cmp cmp (f x) (map f ys) = map f (insert_cmp cmp x ys)"
    if "\<forall>y \<in> set ys. cmp (f x) (f y) \<le> 0 \<longleftrightarrow> cmp x y \<le> 0" for x ys
    using that by (induction ys) auto
  have sets: "set (insert_cmp cmp x ys) = insert x (set ys)" for x ys
    by (induction ys) auto
  then have "set (SortFunc cmp ys) = set ys" for ys by (induction ys) simp_all
  with assms ins show ?thesis by (induction xs) auto
qed

lemma sort_calls_shift:
  "SortFunc call_compare (map (reorderCallOrdinals k) calls) = map (reorderCallOrdinals k) (SortFunc call_compare calls)"
  by (rule SortFunc_map) (simp add: call_compare_def)

lemma discard_loop_shift:
  "discard_loop (map (\<lambda>c. c\<lparr>nc_Ordinal := nc_Ordinal c + k\<rparr>) changes) used auths = discard_loop changes used auths"
proof -
  have "findNonceChange_from i (map (\<lambda>c. c\<lparr>nc_Ordinal := nc_Ordinal c + k\<rparr>) cs) a n u = findNonceChange_from i cs a n u"
    for i cs a n u
    by (induction cs arbitrary: i) (simp_all add: nonce_change_matches_def)
  then have "findNonceChange (map (\<lambda>c. c\<lparr>nc_Ordinal := nc_Ordinal c + k\<rparr>) changes) = findNonceChange changes"
    by (simp add: findNonceChange_def fun_eq_iff)
  then show ?thesis by (induction changes used auths rule: discard_loop.induct) (simp_all split: option.split)
qed

lemma discard_shift:
  "discardUncommittedSetCodeAuthorizations (reorderCallOrdinals k root) (shift_trx k x)
    = shift_trx k (discardUncommittedSetCodeAuthorizations root x)"
proof -
  have "call_NonceChanges (reorderCallOrdinals k root)
      = map (\<lambda>c. c\<lparr>nc_Ordinal := nc_Ordinal c + k\<rparr>) (call_NonceChanges root)"
    by (simp add: reorderCallOrdinals_def)
  then show ?thesis
    by (simp add: discardUncommittedSetCodeAuthorizations_def shift_trx_def discard_loop_shift)
qed

lemma update_map:
  assumes "\<And>c. g (f c) = f (g c)"
  shows "(map f xs)[i := g (map f xs ! i)] = map f (xs[i := g (xs ! i)])"
  using assms by (cases "i < length xs") (simp_all add: map_update list_update_beyond)

lemma storageSlotHashes_shift:
  "storageSlotHashes (map (reorderCallOrdinals k) calls) recorded = storageSlotHashes calls recorded"
proof -
  have inner: "fold (\<lambda>change st. if length (sc_Key change) \<noteq> 32 then st else keep_base hashes (sc_Key change) st)
      (call_StorageChanges (reorderCallOrdinals k c))
    = fold (\<lambda>change st. if length (sc_Key change) \<noteq> 32 then st else keep_base hashes (sc_Key change) st)
      (call_StorageChanges c)" for hashes c
    by (simp add: reorderCallOrdinals_def fold_map comp_def cong: if_cong)
  have "keep_storage_keys hashes (map (reorderCallOrdinals k) calls) = keep_storage_keys hashes calls" for hashes
    unfolding keep_storage_keys_def fold_map comp_def inner ..
  then show ?thesis by (simp add: storageSlotHashes_def)
qed

lemma attach_shift:
  "attachStorageSlotPreimages (map (reorderCallOrdinals k) calls) recorded
    = map (reorderCallOrdinals k) (attachStorageSlotPreimages calls recorded)"
proof -
  have add1: "add_preimage key v (reorderCallOrdinals k c) = reorderCallOrdinals k (add_preimage key v c)" for key v c
    by (simp add: add_preimage_def) (simp add: reorderCallOrdinals_def)
  have upd: "(map (reorderCallOrdinals k) cs)[i := add_preimage key v (map (reorderCallOrdinals k) cs ! i)]
      = map (reorderCallOrdinals k) (cs[i := add_preimage key v (cs ! i)])" for cs i key v
    by (rule update_map) (rule add1)
  have step: "attach_step index kept r (map (reorderCallOrdinals k) cs) = map (reorderCallOrdinals k) (attach_step index kept r cs)"
    for index kept r cs
    by (simp add: attach_step_def upd split: option.split)
  have "fold (attach_step index kept) rs (map (reorderCallOrdinals k) cs)
      = map (reorderCallOrdinals k) (fold (attach_step index kept) rs cs)" for index kept rs cs
    by (induction rs arbitrary: cs) (simp_all add: step)
  moreover have "byIndex (map (reorderCallOrdinals k) calls) = byIndex calls"
    by (simp add: byIndex_def comp_def)
  ultimately show ?thesis
    by (simp add: attachStorageSlotPreimages_def storageSlotHashes_shift Let_def)
qed

lemma mark_shift:
  assumes "mark_reverted i calls = Inr calls'" and "i < length calls"
  shows "mark_reverted i (map (reorderCallOrdinals k) calls) = Inr (map (reorderCallOrdinals k) calls')"
    and "length calls' = length calls"
proof -
  have set1: "(reorderCallOrdinals k c)\<lparr>call_StateReverted := b\<rparr> = reorderCallOrdinals k (c\<lparr>call_StateReverted := b\<rparr>)" for c b
    by (simp add: reorderCallOrdinals_def)
  show "mark_reverted i (map (reorderCallOrdinals k) calls) = Inr (map (reorderCallOrdinals k) calls')"
    using assms by (auto simp: mark_reverted_def Let_def nth_opt_def set1 map_update split: if_splits option.splits)
  show "length calls' = length calls"
    using assms by (auto simp: mark_reverted_def Let_def split: if_splits option.splits)
qed

lemma populate_shift:
  assumes "populateStateReverted calls = Inr calls'"
  shows "populateStateReverted (map (reorderCallOrdinals k) calls) = Inr (map (reorderCallOrdinals k) calls')"
proof -
  have "foldR mark_reverted is (map (reorderCallOrdinals k) cs) = Inr (map (reorderCallOrdinals k) cs')"
    if "foldR mark_reverted is cs = Inr cs'" "\<forall>i \<in> set is. i < length cs" for "is" cs cs'
    using that
  proof (induction "is" arbitrary: cs)
    case Nil
    then show ?case by simp
  next
    case (Cons i "is")
    obtain c1 where c1: "mark_reverted i cs = Inr c1" "foldR mark_reverted is c1 = Inr cs'"
      using Cons.prems(1) by (auto simp: bindR_Inr_iff)
    with mark_shift [OF c1(1)] Cons.prems(2) Cons.IH [OF c1(2)] show ?case by simp
  qed
  from this [of "[0..<length calls]" calls calls'] assms show ?thesis by (simp add: populateStateReverted_def)
qed

text \<open>A chain's \<open>IsNeverRevertedLog\<close> that does not look at ordinals.\<close>

definition ignores_ordinals :: "Config \<Rightarrow> bool" where
  "ignores_ordinals cfg \<longleftrightarrow> (case cfg_IsNeverRevertedLog cfg of
     None \<Rightarrow> True | Some f \<Rightarrow> (\<forall>l o1. f (l\<lparr>log_Ordinal := o1\<rparr>) = f l))"

lemma never_reverted_shift:
  "ignores_ordinals cfg \<Longrightarrow> isNeverRevertedLog cfg (shift_log k l) = isNeverRevertedLog cfg l"
  by (auto simp: ignores_ordinals_def isNeverRevertedLog_def split: option.split)

lemma remove_index_shift:
  assumes "ignores_ordinals cfg"
  shows "removeLogBlockIndexOnStateRevertedCalls cfg (map (reorderCallOrdinals k) calls)
    = map (reorderCallOrdinals k) (removeLogBlockIndexOnStateRevertedCalls cfg calls)"
proof -
  have "(reorderCallOrdinals k c)\<lparr>call_Logs := map (\<lambda>log. if isNeverRevertedLog cfg log then log
        else log\<lparr>log_BlockIndex := 0\<rparr>) (call_Logs (reorderCallOrdinals k c))\<rparr>
    = reorderCallOrdinals k (c\<lparr>call_Logs := map (\<lambda>log. if isNeverRevertedLog cfg log then log
        else log\<lparr>log_BlockIndex := 0\<rparr>) (call_Logs c)\<rparr>)" for c
    using never_reverted_shift [OF assms] by (simp add: reorderCallOrdinals_def comp_def if_distrib cong: if_cong)
  then show ?thesis by (simp add: removeLogBlockIndexOnStateRevertedCalls_def)
qed

lemma surviving_shift:
  assumes "ignores_ordinals cfg"
  shows "surviving_logs cfg (map (reorderCallOrdinals k) calls) = map (shift_log k) (surviving_logs cfg calls)"
proof -
  have "filter f (map (shift_log k) ls) = map (shift_log k) (filter f ls)"
    if "cfg_IsNeverRevertedLog cfg = Some f" for f ls
    using assms that by (simp add: ignores_ordinals_def filter_map comp_def)
  then show ?thesis
    by (auto simp: surviving_logs_def map_concat comp_def intro!: arg_cong [where f = concat] split: option.split)
qed

definition shift_done :: "u64 \<Rightarrow> TransactionTrace \<Rightarrow> TransactionTrace" where
  "shift_done k x = (reorderTransactionOrdinals k x)\<lparr>trx_EndOrdinal := trx_EndOrdinal x\<rparr>"

definition logs_room :: "u64 \<Rightarrow> Call list \<Rightarrow> bool" where
  "logs_room k calls \<longleftrightarrow> (\<forall>c \<in> set calls. \<forall>l \<in> set (call_Logs c). unat (log_Ordinal l) + unat k < 2 ^ 64)"

lemma sort_logs_shift:
  assumes "\<forall>l \<in> set logs. unat (log_Ordinal l) + unat k < 2 ^ 64"
  shows "SortFunc log_compare (map (shift_log k) logs) = map (shift_log k) (SortFunc log_compare logs)"
proof (rule SortFunc_map, intro ballI)
  fix a b assume "a \<in> set logs" and "b \<in> set logs"
  then have "unat (log_Ordinal a + k) = unat (log_Ordinal a) + unat k"
    and "unat (log_Ordinal b + k) = unat (log_Ordinal b) + unat k"
    using assms by (simp_all add: unat_add_no_wrap)
  then show "log_compare (shift_log k a) (shift_log k b) \<le> 0 \<longleftrightarrow> log_compare a b \<le> 0"
    by (simp add: log_compare_def cmp_Compare_le_iff word_le_nat_alt)
qed

lemma assign_loop_shift:
  "assign_loop t i cl rl = Inr ls \<Longrightarrow> length cl = length rl \<Longrightarrow>
     assign_loop u i (map (shift_log k) cl) rl = Inr (map (shift_log k) ls)"
  by (induction t i cl rl arbitrary: ls rule: assign_loop.induct)
     (auto simp: guard_Inr_iff bindR_Inr_iff check_None_iff)

lemma assign_shift:
  assumes "assignOrdinalAndIndexToReceiptLogs t y = Inr y'" and "t_config u = t_config t"
    and "ignores_ordinals (t_config t)" and "logs_room k (trx_Calls y)"
  shows "assignOrdinalAndIndexToReceiptLogs u (shift_trx k y) = Inr (shift_done k y')"
proof -
  let ?cl = "SortFunc log_compare (surviving_logs (t_config t) (trx_Calls y))"
    and ?rl = "case trx_Receipt y of None \<Rightarrow> [] | Some r \<Rightarrow> rcp_Logs r"
  obtain ls where len: "length ?cl = length ?rl" and ls: "assign_loop t 0 ?cl ?rl = Inr ls"
    and y': "y' = y\<lparr>trx_Receipt := map_option (\<lambda>r. r\<lparr>rcp_Logs := ls\<rparr>) (trx_Receipt y)\<rparr>"
    using assms(1) by (auto simp: assignOrdinalAndIndexToReceiptLogs_def Let_def bindR_Inr_iff split: if_splits)
  have "\<forall>l \<in> set (surviving_logs (t_config t) (trx_Calls y)). unat (log_Ordinal l) + unat k < 2 ^ 64"
    using assms(4) by (auto simp: surviving_logs_def logs_room_def split: if_splits option.splits)
  then have "SortFunc log_compare (surviving_logs (t_config u) (trx_Calls (shift_trx k y))) = map (shift_log k) ?cl"
    using assms(2) by (simp add: shift_trx_def surviving_shift [OF assms(3)] sort_logs_shift)
  then show ?thesis
    using assign_loop_shift [OF ls len, of u k] len
    by (simp add: assignOrdinalAndIndexToReceiptLogs_def Let_def shift_done_def shift_trx_def y'
        reorderTransactionOrdinals_def option.map_comp comp_def reorder_receipt_def)
qed

text \<open>The head of \<open>finish_trace\<close>: what does not depend on the marks.\<close>

definition with_receipt :: "ReceiptData option \<Rightarrow> TransactionTrace \<Rightarrow> TransactionTrace" where
  "with_receipt receipt trx =
     (let trx = (case receipt of None \<Rightarrow> trx | Some r \<Rightarrow> apply_receipt r trx);
          trx = (if call_StatusReverted (trx_Calls trx ! 0) then trx\<lparr>trx_Status := REVERTED\<rparr> else trx)
      in trx\<lparr>trx_ReturnData := call_ReturnData (trx_Calls trx ! 0)\<rparr>)"

lemma with_receipt_calls [simp]: "trx_Calls (with_receipt receipt x) = trx_Calls x"
  by (simp add: with_receipt_def Let_def apply_receipt_def split: option.split)

lemma finish_trace_eq: "finish_trace t receipt x = bindR (populateStateReverted (trx_Calls x)) (\<lambda>calls.
    assignOrdinalAndIndexToReceiptLogs t ((with_receipt receipt x)
      \<lparr>trx_Calls := removeLogBlockIndexOnStateRevertedCalls (t_config t) calls\<rparr>))"
proof -
  have "finish_trace t receipt x = bindR (populateStateReverted (trx_Calls (with_receipt receipt x))) (\<lambda>calls.
    assignOrdinalAndIndexToReceiptLogs t ((with_receipt receipt x)
      \<lparr>trx_Calls := removeLogBlockIndexOnStateRevertedCalls (t_config t) calls\<rparr>))"
    by (simp only: finish_trace_def with_receipt_def Let_def update_calls_def)
       (simp add: apply_receipt_def split: option.split)
  then show ?thesis by simp
qed

lemma with_receipt_shift:
  assumes "trx_Calls x \<noteq> []"
  shows "with_receipt receipt (shift_trx k x) = shift_trx k (with_receipt receipt x)"
  using assms
  by (cases "trx_Calls x"; cases receipt)
     (simp_all add: with_receipt_def Let_def shift_trx_def apply_receipt_def newReceiptFromData_def)

lemma finish_shift:
  assumes "finish_trace t receipt x = Inr x'" and "trx_Calls x \<noteq> []" and "t_config u = t_config t"
    and "ignores_ordinals (t_config t)" and "logs_room k (trx_Calls x')"
  shows "finish_trace u receipt (shift_trx k x) = Inr (shift_done k x')"
proof -
  obtain calls where calls: "populateStateReverted (trx_Calls x) = Inr calls"
    and a: "assignOrdinalAndIndexToReceiptLogs t ((with_receipt receipt x)
      \<lparr>trx_Calls := removeLogBlockIndexOnStateRevertedCalls (t_config t) calls\<rparr>) = Inr x'"
    using assms(1) by (auto simp: finish_trace_eq bindR_Inr_iff)
  let ?y = "(with_receipt receipt x)\<lparr>trx_Calls := removeLogBlockIndexOnStateRevertedCalls (t_config t) calls\<rparr>"
  have "trx_Calls x' = trx_Calls ?y"
    using a by (auto simp: assignOrdinalAndIndexToReceiptLogs_def Let_def bindR_Inr_iff split: if_splits)
  then have "assignOrdinalAndIndexToReceiptLogs u (shift_trx k ?y) = Inr (shift_done k x')"
    using assign_shift [OF a assms(3,4)] assms(5) by simp
  moreover have "shift_trx k ?y = (with_receipt receipt (shift_trx k x))
      \<lparr>trx_Calls := removeLogBlockIndexOnStateRevertedCalls (t_config u) (map (reorderCallOrdinals k) calls)\<rparr>"
    unfolding with_receipt_shift [OF assms(2)] remove_index_shift [OF assms(4), folded assms(3)]
    by (simp add: shift_trx_def assms(3))
  moreover have "populateStateReverted (trx_Calls (shift_trx k x)) = Inr (map (reorderCallOrdinals k) calls)"
    using populate_shift [OF calls] by (simp add: shift_trx_def)
  ultimately show ?thesis by (simp add: finish_trace_eq)
qed

end
