(* ===== verification/ParallelCompletion.thy ===== *)
theory ParallelCompletion
  imports ParallelEquiv
begin

section \<open>The completion of a trace, committed or in place\<close>

text \<open>
  What the theory before shows of the hooks of a transaction, for its end: completing the shifted trace
  on the coordinator gives what completing the trace on the isolated tracer and shifting it gives. With
  that, tracing a transaction on an isolated tracer and committing it is equivalent to tracing it on
  the coordinator.
\<close>

subsection \<open>Completing the shifted trace\<close>

text \<open>The trace whose receipt \<open>completeTransaction\<close> adds, when there are calls.\<close>

definition settled_trace :: "tracer \<Rightarrow> TransactionTrace \<Rightarrow> TransactionTrace" where
  "settled_trace t x = update_calls (\<lambda>calls. attachStorageSlotPreimages calls (t_transactionKeccakPreimages t))
     (update_calls (\<lambda>calls. calls[0 := append_deferred (t_deferredCallState t) (calls ! 0)])
        (discardUncommittedSetCodeAuthorizations (SortFunc call_compare (trx_Calls x) ! 0)
          (update_calls (SortFunc call_compare) x)))"

lemma completeTransaction_calls:
  assumes "t_transaction t = Some x" and "trx_Calls x \<noteq> []"
  shows "completeTransaction receipt err t =
    (let t0 = t\<lparr>t_deferredCallState := NewDeferredCallState, t_transactionKeccakPreimages := []\<rparr>
     in bindR (finish_trace t0 receipt (settled_trace t x)) (\<lambda>x'. Inr (update_transaction
          (\<lambda>_. x'\<lparr>trx_EndOrdinal := ord_value (t_blockOrdinal t) + 1\<rparr>)
          (t0\<lparr>t_blockOrdinal := snd (ordinal_Next (t_blockOrdinal t))\<rparr>))))"
  using assms by (simp add: completeTransaction_def populate_root_step settled_trace_def Let_def)

lemma sort_calls_empty: "SortFunc call_compare calls = [] \<longleftrightarrow> calls = []"
  using call_sort.mset_srt [of calls] by (metis mset_zero_iff)

lemma settled_trace_shift:
  assumes "trx_Calls x \<noteq> []"
  shows "settled_trace (lift t k z s) (shift_trx k x) = shift_trx k (settled_trace s x)"
proof -
  let ?sc = "SortFunc call_compare (trx_Calls x)" and ?y = "update_calls (SortFunc call_compare) x"
  have ne: "?sc \<noteq> []" using assms by (simp add: sort_calls_empty)
  have y: "update_calls (SortFunc call_compare) (shift_trx k x) = shift_trx k ?y"
    and sc: "SortFunc call_compare (trx_Calls (shift_trx k x)) ! 0 = reorderCallOrdinals k (?sc ! 0)"
    using ne by (simp_all add: update_calls_def shift_trx_def sort_calls_shift nth_map)
  have app: "update_calls (\<lambda>calls. calls[0 := append_deferred (shift_deferred k d) (calls ! 0)]) (shift_trx k w)
      = shift_trx k (update_calls (\<lambda>calls. calls[0 := append_deferred d (calls ! 0)]) w)"
    if "trx_Calls w \<noteq> []" for w d
    using that by (cases "trx_Calls w") (simp_all add: update_calls_def shift_trx_def shift_append)
  have att: "update_calls (\<lambda>calls. attachStorageSlotPreimages calls ps) (shift_trx k w)
      = shift_trx k (update_calls (\<lambda>calls. attachStorageSlotPreimages calls ps) w)" for ps w
    by (simp add: update_calls_def shift_trx_def attach_shift)
  have "trx_Calls (discardUncommittedSetCodeAuthorizations (?sc ! 0) ?y) \<noteq> []"
    using ne by simp
  from app [OF this] show ?thesis
    by (simp only: settled_trace_def y sc discard_shift lift_fields att)
qed

lemma settled_trace_calls:
  assumes "trx_Calls x \<noteq> []"
  shows "trx_Calls (settled_trace s x) \<noteq> []"
proof -
  have "attachStorageSlotPreimages calls rs = [] \<longleftrightarrow> calls = []" for calls rs
    using arg_cong [OF attach_keeps [of "\<lambda>_. ()" calls rs], of length] by auto
  then show ?thesis using assms by (simp add: settled_trace_def sort_calls_empty)
qed

lemma completeTransaction_lift:
  assumes "alike t s" and "ignores_ordinals (t_config t)"
    and x: "t_transaction s = Some x" and "trx_Receipt x = None"
    and c: "completeTransaction receipt err s = Inr s'" and x': "t_transaction s' = Some x'"
    and "logs_room k (trx_Calls x')"
  shows "\<exists>d ps. completeTransaction receipt err (lift t k z s)
    = Inr ((lift t k z s)\<lparr>t_blockOrdinal := \<lparr>ord_value = trx_EndOrdinal x' + k\<rparr>,
        t_transaction := Some (reorderTransactionOrdinals k x'),
        t_deferredCallState := d, t_transactionKeccakPreimages := ps\<rparr>)"
proof -
  let ?o = "ord_value (t_blockOrdinal s)" and ?u = "lift t k z s"
  have none: "t_transactionTransient s = None" "t_transactionTransient t = None"
    using assms(1) by (simp_all add: alike_def)
  have u: "t_transaction ?u = Some (shift_trx k x)" using x by simp
  have o1: "?o + k + 1 = ?o + 1 + k" by (simp add: ac_simps)
  show ?thesis
  proof (cases "trx_Calls x = []")
    case True
    have only: "df_HasCallOnlyChanges (shift_deferred k d) = df_HasCallOnlyChanges d" for d
      by (simp add: df_HasCallOnlyChanges_def shift_deferred_def)
    have "x' = x\<lparr>trx_EndOrdinal := ?o + 1\<rparr>" and ok: "\<not> df_HasCallOnlyChanges (t_deferredCallState s)"
      using c x x' none True
      by (auto simp: completeTransaction_def guard_Inr_iff check_None_iff next_ordinal_def ordinal_Next_def
          update_transaction_def)
    moreover have "x\<lparr>trx_Receipt := None\<rparr> = x" using assms(4) by (cases x) simp
    ultimately show ?thesis
      using True ok assms(4) none
      by (intro exI [of _ "t_deferredCallState ?u"] exI [of _ "t_transactionKeccakPreimages ?u"])
         (simp add: completeTransaction_def x only check_def next_ordinal_def ordinal_Next_def update_transaction_def
           o1 reorderTransactionOrdinals_def shift_trx_def Let_def)
  next
    case False
    have False': "trx_Calls (shift_trx k x) \<noteq> []" using False by (simp add: shift_trx_def)
    let ?ss = "s\<lparr>t_deferredCallState := NewDeferredCallState, t_transactionKeccakPreimages := []\<rparr>"
      and ?su = "?u\<lparr>t_deferredCallState := NewDeferredCallState, t_transactionKeccakPreimages := []\<rparr>"
    obtain y where y: "finish_trace ?ss receipt (settled_trace s x) = Inr y"
      and s': "s' = update_transaction (\<lambda>_. y\<lparr>trx_EndOrdinal := ?o + 1\<rparr>)
          (?ss\<lparr>t_blockOrdinal := snd (ordinal_Next (t_blockOrdinal s))\<rparr>)"
      using c unfolding completeTransaction_calls [OF x False] by (auto simp: Let_def bindR_Inr_iff)
    have y': "x' = y\<lparr>trx_EndOrdinal := ?o + 1\<rparr>"
      using x' none x by (simp add: s' update_transaction_def)
    have cfg: "t_config ?su = t_config ?ss" using assms(1) by (simp add: alike_def)
    have ign: "ignores_ordinals (t_config ?ss)" using assms(1,2) by (simp add: alike_def)
    have room: "logs_room k (trx_Calls y)" using assms(7) by (simp add: y')
    have fin: "finish_trace ?su receipt (settled_trace ?u (shift_trx k x)) = Inr (shift_done k y)"
      unfolding settled_trace_shift [OF False]
      by (rule finish_shift [OF y settled_trace_calls [OF False] cfg ign room])
    have "(shift_done k y)\<lparr>trx_EndOrdinal := ?o + 1 + k\<rparr> = reorderTransactionOrdinals k x'"
      by (simp add: shift_done_def y' reorderTransactionOrdinals_def)
    then show ?thesis
      unfolding completeTransaction_calls [OF u False'] Let_def fin bindR.simps
      using none x
      by (intro exI [of _ NewDeferredCallState] exI [of _ "[]"])
         (simp add: update_transaction_def o1 y' ordinal_Next_def Let_def)
  qed
qed

subsection \<open>Parallel execution is sequential execution\<close>

lemma advances_clock:
  assumes "advances s s'" and "unat (ord_value (t_blockOrdinal s)) + n < 2 ^ 64" and "0 < n"
  shows "unat (ord_value (t_blockOrdinal s')) + (n - 1) < 2 ^ 64"
  using assms unat_add_one [of "ord_value (t_blockOrdinal s)"] by (auto simp: advances_def)

lemma trx_hook_fits:
  assumes "is_trx_hook h" and "unat (ord_value (t_blockOrdinal s)) + 1 < 2 ^ 64"
  shows "isolated_fits h s"
  using assms by (cases h) (simp_all add: isolated_fits_def ordinal_fits_def within_block_def)

lemma trx_hook_advances:
  assumes "is_trx_hook h" and "apply_hook cr h s = Inr s'"
  shows "advances s s'"
  using assms by (cases h) (auto intro: advance_hooks)

lemma trx_hooks_isolated:
  assumes "isolated_tracer cr s" and "run_hooks cr hs s = Inr s'" and "list_all is_trx_hook hs"
    and "unat (ord_value (t_blockOrdinal s)) + (length hs + n) < 2 ^ 64"
  shows "isolated_tracer cr s' \<and> unat (ord_value (t_blockOrdinal s')) + n < 2 ^ 64"
  using assms
proof (induction hs arbitrary: s)
  case Nil
  then show ?case by simp
next
  case (Cons h hs)
  obtain s1 where s1: "apply_hook cr h s = Inr s1" "run_hooks cr hs s1 = Inr s'"
    using Cons.prems(2) by (auto simp: bindR_Inr_iff)
  have h: "is_trx_hook h" and hs: "list_all is_trx_hook hs" using Cons.prems(3) by auto
  have "isolated_tracer cr s1"
    using isolated_tracer.hook [OF Cons.prems(1) trx_hook_fits [OF h] s1(1)] Cons.prems(4) by simp
  moreover have "unat (ord_value (t_blockOrdinal s1)) + (length hs + n) < 2 ^ 64"
    using advances_clock [OF trx_hook_advances [OF h s1(1)] Cons.prems(4)] by simp
  ultimately show ?case using Cons.IH [OF _ s1(2) hs] by blast
qed

text \<open>Until it ends, a transaction has no receipt.\<close>

definition unreceipted :: "tracer \<Rightarrow> bool" where
  "unreceipted s \<longleftrightarrow> (\<exists>x. t_transaction s = Some x \<and> trx_Receipt x = None)"

lemma unreceipted_simps [simp]:
  "unreceipted (update_active f s) = unreceipted s" "unreceipted (update_deferred g s) = unreceipted s"
  "unreceipted (s\<lparr>t_blockOrdinal := o1\<rparr>) = unreceipted s"
  "unreceipted (s\<lparr>t_transactionLogIndex := l\<rparr>) = unreceipted s"
  "unreceipted (s\<lparr>t_transactionKeccakPreimages := p\<rparr>) = unreceipted s"
  "unreceipted (s\<lparr>t_callStack := cs\<rparr>) = unreceipted s"
  "unreceipted (s\<lparr>t_deferredCallState := d\<rparr>) = unreceipted s"
  "unreceipted (s\<lparr>t_latestCallEnterSuicided := b\<rparr>) = unreceipted s"
  "unreceipted (s\<lparr>t_latestCallEnterSuicidedDepth := m\<rparr>) = unreceipted s"
  by (simp_all add: unreceipted_def update_active_def update_deferred_def)

lemma trx_hook_unreceipted:
  assumes "is_trx_hook h" and "apply_hook cr h s = Inr s'" and "unreceipted s"
  shows "unreceipted s'"
proof (cases h)
  case (HCallEnter depth ty caller target input gas v)
  with assms(2) have "OnCallEnter depth ty caller target input gas v s = Inr s'" by simp
  then show ?thesis using assms(3) by (cases rule: OnCallEnter_elim) simp_all
next
  case (HCallExit depth outp gasUsed err rev1)
  with assms(2) have "OnCallExit depth outp gasUsed err rev1 s = Inr s'" by simp
  then show ?thesis using assms(3)
    by (cases rule: OnCallExit_elim) (auto simp: unreceipted_def update_transaction_def)
next
  case HTxEnd
  with assms(1) show ?thesis by simp
qed (use assms in \<open>auto simp: change_hook_defs OnOpcode_def OnOpcodeFault_def OnKeccakPreimage_def guard_Inr_iff
    Let_def unreceipted_def update_active_def update_deferred_def split: if_splits option.splits\<close>)

lemma trx_hooks_unreceipted:
  "run_hooks cr hs s = Inr s' \<Longrightarrow> list_all is_trx_hook hs \<Longrightarrow> unreceipted s \<Longrightarrow> unreceipted s'"
  by (induction hs arbitrary: s) (auto simp: bindR_Inr_iff dest: trx_hook_unreceipted)

lemma lift_start:
  assumes "blank t" and "\<not> t_transactionIsolated t" and "\<not> t_latestCallEnterSuicided t"
    and "t_transactionTransient t = None" and "t_transactionLogIndex t = 0" and "t_transactionKeccakPreimages t = []"
  shows "lift t (ord_value (t_blockOrdinal t)) (t_latestCallEnterSuicidedDepth t) (newIsolatedTransactionTracer t)
    = t\<lparr>t_transactionStateReader := None\<rparr>"
proof -
  have "shift_stack k NewCallStack = NewCallStack" for k
    by (simp add: shift_stack_def NewCallStack_def)
  then show ?thesis
    using assms by (cases t) (simp add: lift_def newIsolatedTransactionTracer_def blank_def new_Ordinal_def)
qed

lemma OnTxStart_reader:
  "OnTxStart cr event reader (t\<lparr>t_transactionStateReader := r\<rparr>) = Inr t' \<Longrightarrow> OnTxStart cr event reader t = Inr t'"
  by (simp add: OnTxStart_def Let_def recovery_func_def guard_Inr_iff ensure_None_iff)

text \<open>The end of the transaction on the coordinator, from its end on the isolated tracer.\<close>

lemma OnTxEnd_lift:
  assumes alike: "alike t s" and iso: "\<not> t_transactionIsolated t" "t_transactionIsolated s" "\<not> t_transactionDropped s"
    and "t_block t = Some b" and "ignores_ordinals (t_config t)" and "unreceipted s"
    and kept: "receipt \<noteq> None \<or> \<not> cfg_DropTransactionsWithoutReceipt (t_config t)"
    and "isolated_tracer cr s" and sys: "\<not> t_inSystemCall s" and e: "OnTxEnd receipt err s = Inr s1"
    and room: "unat (ord_value (t_blockOrdinal s)) + (unat k + 1) < 2 ^ 64"
  shows "\<exists>x d ps. t_transactionIsolated s1 \<and> \<not> t_transactionDropped s1 \<and> t_transactionTransient s1 = Some x
    \<and> OnTxEnd receipt err (lift t k z s) = Inr (resetTransaction (update_block
        (\<lambda>b. b\<lparr>blk_TransactionTraces := blk_TransactionTraces b @ [reorderTransactionOrdinals k x]\<rparr>)
        ((lift t k z s)\<lparr>t_blockOrdinal := \<lparr>ord_value = trx_EndOrdinal x + k\<rparr>,
          t_transaction := Some (reorderTransactionOrdinals k x),
          t_deferredCallState := d, t_transactionKeccakPreimages := ps\<rparr>)))"
proof -
  have cfg: "t_config s = t_config t" using alike by (simp add: alike_def)
  have ok: "ensureInBlockAndInTrx s = None" using e by (simp add: OnTxEnd_def guard_Inr_iff)
  have ok': "ensureInBlockAndInTrx (lift t k z s) = None"
    using ok alike by (auto simp: ensure_None_iff alike_def)
  obtain x0 where x0: "t_transaction s = Some x0" "trx_Receipt x0 = None"
    using assms(7) by (auto simp: unreceipted_def)
  have drop: "\<not> (receipt = None \<and> cfg_DropTransactionsWithoutReceipt (t_config s))" using kept cfg by auto
  have "\<exists>s2. completeTransaction receipt err s = Inr s2 \<and>
      (case t_transaction s2 of None \<Rightarrow> Inl NilDereference
       | Some x \<Rightarrow> if t_transactionIsolated s2 then Inr (s2\<lparr>t_transactionTransient := Some x\<rparr>)
          else Inr (resetTransaction (update_block
            (\<lambda>b. b\<lparr>blk_TransactionTraces := blk_TransactionTraces b @ [x]\<rparr>) s2))) = Inr s1"
    using e unfolding OnTxEnd_def ok guard.simps if_not_P [OF drop] bindR_Inr_iff .
  then obtain s2 where c: "completeTransaction receipt err s = Inr s2"
    and end1: "(case t_transaction s2 of None \<Rightarrow> Inl NilDereference
       | Some x \<Rightarrow> if t_transactionIsolated s2 then Inr (s2\<lparr>t_transactionTransient := Some x\<rparr>)
          else Inr (resetTransaction (update_block
            (\<lambda>b. b\<lparr>blk_TransactionTraces := blk_TransactionTraces b @ [x]\<rparr>) s2))) = Inr s1" by blast
  then obtain x where x: "t_transaction s2 = Some x" by (cases "t_transaction s2") simp_all
  have s2: "t_transactionIsolated s2" "t_transactionDropped s2 = t_transactionDropped s"
  proof -
    obtain x1 x2 where "s2 = s\<lparr>t_blockOrdinal := snd (ordinal_Next (t_blockOrdinal s)), t_transaction := Some x2,
        t_transactionTransient := t_transactionTransient s2, t_deferredCallState := t_deferredCallState s2,
        t_transactionKeccakPreimages := t_transactionKeccakPreimages s2\<rparr>"
      using completeTransaction_elim [OF c] by metis
    then show "t_transactionDropped s2 = t_transactionDropped s" by (rule ssubst) simp
  qed (use completeTransaction_mset [OF c] iso(2) in simp)
  have s1: "s1 = s2\<lparr>t_transactionTransient := Some x\<rparr>" using end1 s2 x by simp
  have fits: "isolated_fits (HTxEnd receipt err) s"
    using room sys by (simp add: isolated_fits_def ordinal_fits_def within_block_def)
  have "committable x \<and> trx_EndOrdinal x = ord_value (t_blockOrdinal s) + 1"
    using ended_committable [OF assms(9) fits e] s1 s2 iso(3) x by fastforce
  then have good: "committable x" and last: "trx_EndOrdinal x = ord_value (t_blockOrdinal s) + 1" by auto
  have "log_Ordinal l \<le> trx_EndOrdinal x" if "call \<in> set (trx_Calls x)" "l \<in> set (call_Logs call)" for call l
  proof -
    have "log_Ordinal l \<in># trx_mset x"
      using that by (auto simp: trx_mset_def in_calls_mset call_mset_def change_ordinals_def)
    then show ?thesis using good by (cases "log_Ordinal l = 0") (auto simp: committable_def unique_upto_taken)
  qed
  moreover have "unat (trx_EndOrdinal x) + unat k < 2 ^ 64"
    using room unat_add_one [of "ord_value (t_blockOrdinal s)"] by (simp add: last)
  ultimately have "logs_room k (trx_Calls x)"
    unfolding logs_room_def word_le_nat_alt by fastforce
  from completeTransaction_lift [OF alike assms(6) x0 c x this, of z]
  obtain d ps where "completeTransaction receipt err (lift t k z s)
    = Inr ((lift t k z s)\<lparr>t_blockOrdinal := \<lparr>ord_value = trx_EndOrdinal x + k\<rparr>,
        t_transaction := Some (reorderTransactionOrdinals k x),
        t_deferredCallState := d, t_transactionKeccakPreimages := ps\<rparr>)" by blast
  then show ?thesis
    using ok' kept iso s1 s2 by (intro exI [of _ x] exI [of _ d] exI [of _ ps]) (auto simp: OnTxEnd_def)
qed

text \<open>A coordinator that can trace a transaction, with nothing left of another one.\<close>

definition ready_to_trace :: "tracer \<Rightarrow> bool" where
  "ready_to_trace t \<longleftrightarrow> between_transactions t \<and> \<not> t_blockIsGenesis t \<and> \<not> t_inSystemCall t
     \<and> t_transactionLogIndex t = 0 \<and> t_transactionKeccakPreimages t = []"

lemma isolated_run_lift:
  assumes "ready_to_trace t" and hs: "list_all is_trx_hook hs"
    and room: "unat (ord_value (t_blockOrdinal t)) + length hs + 2 < 2 ^ 64"
    and s: "OnTxSpawn i t = Inr s"
    and run: "run_hooks cr (HTxStart event reader # hs) s = Inr s2"
  shows "\<exists>z. run_hooks cr (HTxStart event reader # hs) t = Inr (lift t (ord_value (t_blockOrdinal t)) z s2)"
    and "alike t s2" and "isolated_tracer cr s2" and "unreceipted s2"
    and "t_transactionIsolated s2 \<and> \<not> t_transactionDropped s2 \<and> \<not> t_inSystemCall s2"
    and "unat (ord_value (t_blockOrdinal s2)) + (unat (ord_value (t_blockOrdinal t)) + 1) < 2 ^ 64"
proof -
  let ?k = "ord_value (t_blockOrdinal t)"
  have s_new: "s = newIsolatedTransactionTracer t" by (rule OnTxSpawn_elim [OF s])
  have ready: "blank t" "\<not> t_transactionIsolated t" "\<not> t_latestCallEnterSuicided t"
    "t_transactionTransient t = None" "t_transactionLogIndex t = 0" "t_transactionKeccakPreimages t = []"
    "t_chainConfig t \<noteq> None" "t_block t \<noteq> None" "\<not> t_blockIsGenesis t" "\<not> t_inSystemCall t"
    using assms(1) by (simp_all add: ready_to_trace_def between_transactions_def)
  obtain s1 where h1: "OnTxStart cr event reader s = Inr s1" and h2: "run_hooks cr hs s1 = Inr s2"
    using run by (auto simp: bindR_Inr_iff)
  have al: "alike t s" and cc: "t_chainConfig s \<noteq> None"
    using ready by (simp_all add: alike_def s_new newIsolatedTransactionTracer_def)
  have s_new': "t_transactionIsolated s" "\<not> t_transactionDropped s" "ord_value (t_blockOrdinal s) = 0"
    by (simp_all add: s_new newIsolatedTransactionTracer_def new_Ordinal_def)
  obtain x1 where s1: "s1 = s\<lparr>t_transactionStateReader := reader,
        t_blockOrdinal := snd (ordinal_Next (t_blockOrdinal s)), t_transaction := Some x1\<rparr>"
    and x1: "trx_Receipt x1 = None"
    using OnTxStart_elim [OF h1] by metis
  have al1: "alike t s1" and cc1: "t_chainConfig s1 \<noteq> None" and tr1: "t_transaction s1 \<noteq> None" and un1: "unreceipted s1"
    and o1: "unat (ord_value (t_blockOrdinal s1)) = 1"
    using al cc x1 s_new' by (simp_all add: s1 alike_def unreceipted_def)
  obtain z where lift1: "OnTxStart cr event reader t = Inr (lift t ?k z s1)"
    using OnTxStart_lift [OF al cc h1] lift_start [OF ready(1-6)] OnTxStart_reader by (metis s_new)
  obtain z2 where "run_hooks cr hs (lift t ?k z s1) = Inr (lift t ?k z2 s2)" and common: "common s2 = common s1"
    using trx_hooks_lift [OF al1 cc1 tr1 hs h2] by blast
  with lift1 show "\<exists>z. run_hooks cr (HTxStart event reader # hs) t = Inr (lift t ?k z s2)" by auto
  show "alike t s2" by (rule alike_common [OF al1 common])
  show "unreceipted s2" by (rule trx_hooks_unreceipted [OF h2 hs un1])
  show "t_transactionIsolated s2 \<and> \<not> t_transactionDropped s2 \<and> \<not> t_inSystemCall s2"
    using common s_new' ready by (simp add: common_def s1 s_new newIsolatedTransactionTracer_def)
  have "isolated_fits (HTxStart event reader) s"
    using s_new' by (simp add: isolated_fits_def ordinal_fits_def within_block_def)
  then have "isolated_tracer cr s1"
    using isolated_tracer.spawn [OF s] isolated_tracer.hook h1 by fastforce
  from trx_hooks_isolated [OF this h2 hs, of "unat ?k + 1"] room o1
  show "isolated_tracer cr s2" and "unat (ord_value (t_blockOrdinal s2)) + (unat ?k + 1) < 2 ^ 64"
    by simp_all
qed

text \<open>
  C1. Parallel execution is equivalent to sequential execution: a transaction traced on an isolated
  tracer and then committed leaves the coordinator in the state in which tracing it on the coordinator
  itself would have left it, its block and counter included. The two states differ at most in the
  state reader, which is cleared after a transaction traced in place, and in
  \<open>latestCallEnterSuicidedDepth\<close>, which no hook acts on. The hooks between are any calls, opcodes and
  changes; the transaction is not one the tracer drops, and the chain's \<open>IsNeverRevertedLog\<close> does not
  look at ordinals.
\<close>

theorem parallel_equals_sequential:
  assumes "ready_to_trace t" and "ignores_ordinals (t_config t)"
    and kept: "receipt \<noteq> None \<or> \<not> cfg_DropTransactionsWithoutReceipt (t_config t)"
    and hs: "list_all is_trx_hook hs"
    and room: "unat (ord_value (t_blockOrdinal t)) + length hs + 2 < 2 ^ 64"
    and s: "OnTxSpawn i t = Inr s"
    and run: "run_hooks cr (HTxStart event reader # hs @ [HTxEnd receipt err]) s = Inr s'"
  shows "\<exists>t' s'' z. OnTxCommit t s' = Inr (None, t', s'')
    \<and> run_hooks cr (HTxStart event reader # hs @ [HTxEnd receipt err]) t
      = Inr (t'\<lparr>t_transactionStateReader := None, t_latestCallEnterSuicidedDepth := z\<rparr>)"
proof -
  let ?k = "ord_value (t_blockOrdinal t)" and ?hs = "HTxStart event reader # hs"
  have ready: "blank t" "\<not> t_transactionIsolated t" "\<not> t_latestCallEnterSuicided t" "\<not> t_inSystemCall t"
    "t_transactionTransient t = None" "t_transactionLogIndex t = 0" "t_transactionKeccakPreimages t = []"
    using assms(1) by (simp_all add: ready_to_trace_def between_transactions_def)
  obtain b where b: "t_block t = Some b" using assms(1) by (auto simp: ready_to_trace_def between_transactions_def)
  have split: "run_hooks cr (?hs @ [HTxEnd receipt err]) u = bindR (run_hooks cr ?hs u) (OnTxEnd receipt err)" for u
    by (simp only: run_hooks_append run_hooks_simps(1) run_hooks_simps(2) [of _ "HTxEnd receipt err"]
        apply_hook.simps bindR_Inr_id)
  obtain s2 where h: "run_hooks cr ?hs s = Inr s2" and h3: "OnTxEnd receipt err s2 = Inr s'"
    using trans [OF split [of s, symmetric, unfolded append_Cons] run] unfolding bindR_Inr_iff by blast
  note run2 = isolated_run_lift [OF assms(1) hs room s h]
  obtain z where lifted: "run_hooks cr ?hs t = Inr (lift t ?k z s2)" using run2(1) by blast
  have iso2: "t_transactionIsolated s2" "\<not> t_transactionDropped s2" "\<not> t_inSystemCall s2" using run2(5) by auto
  obtain x d ps where s': "t_transactionIsolated s'" "\<not> t_transactionDropped s'" "t_transactionTransient s' = Some x"
    and end1: "OnTxEnd receipt err (lift t ?k z s2) = Inr (resetTransaction (update_block
        (\<lambda>b. b\<lparr>blk_TransactionTraces := blk_TransactionTraces b @ [reorderTransactionOrdinals ?k x]\<rparr>)
        ((lift t ?k z s2)\<lparr>t_blockOrdinal := \<lparr>ord_value = trx_EndOrdinal x + ?k\<rparr>,
          t_transaction := Some (reorderTransactionOrdinals ?k x),
          t_deferredCallState := d, t_transactionKeccakPreimages := ps\<rparr>)))"
    using OnTxEnd_lift [OF run2(2) ready(2) iso2(1,2) b assms(2) run2(4) kept run2(3) iso2(3) h3 run2(6), of z] by blast
  let ?t = "(update_block (\<lambda>b. b\<lparr>blk_TransactionTraces := blk_TransactionTraces b @
          [reorderTransactionOrdinals ?k x]\<rparr>) t)\<lparr>t_blockOrdinal := ordinal_Set (trx_EndOrdinal x + ?k) (t_blockOrdinal t)\<rparr>"
  have "OnTxEnd receipt err (lift t ?k z s2)
      = Inr (?t\<lparr>t_transactionStateReader := None, t_latestCallEnterSuicidedDepth := z\<rparr>)"
    using ready b unfolding end1
    by (cases t) (simp add: resetTransaction_def lift_def update_block_def blank_def ordinal_Set_def cs_Reset_def
        NewCallStack_def)
  then show ?thesis
    using OnTxCommit_some [OF ready(2) s'] b lifted split [of t] by auto
qed

end
