(* ===== verification/SharedBlock.thy ===== *)
theory SharedBlock
  imports ParallelCompletion
begin

section \<open>Isolated tracers do not interfere\<close>

text \<open>
  An isolated tracer reads and writes the coordinator's block through the pointer it shares, while the
  coordinator and other isolated tracers write that block. The hooks of a transaction depend on nothing
  of it but that there is one, and write nothing to it.
\<close>

subsection \<open>One hook\<close>

lemma change_hook_view:
  assumes "apply_hook cr h s = Inr s'" and "is_event h" and "t_transaction s \<noteq> None"
    and "t_block s \<noteq> None" and "b \<noteq> None"
  shows "apply_hook cr h (s\<lparr>t_block := b\<rparr>) = Inr (s'\<lparr>t_block := b\<rparr>)"
  using assms
  by (cases h)
     (auto simp: change_hook_defs OnOpcode_def OnOpcodeFault_def OnKeccakPreimage_def guard_Inr_iff
        ensure_None_iff Let_def update_active_def update_deferred_def active_call_def cs_Peek_def split: if_splits option.splits)

lemma OnCallEnter_view:
  assumes "OnCallEnter depth ty caller target input gas v s = Inr s'"
  shows "OnCallEnter depth ty caller target input gas v (s\<lparr>t_block := b\<rparr>) = Inr (s'\<lparr>t_block := b\<rparr>)"
proof (cases "ty = CallTypeSelfDestruct")
  case True
  then show ?thesis using assms by (auto simp: OnCallEnter_def)
next
  case False
  with assms have ok: "callTypeToProto ty \<noteq> UNSPECIFIED"
    by (auto simp: OnCallEnter_def Let_def guard_Inr_iff check_None_iff)
  have "delegates_to ct addr (s\<lparr>t_block := b\<rparr>) = delegates_to ct addr s" for ct addr
    by (simp add: delegates_to_def)
  then show ?thesis
    using assms unfolding OnCallEnter_new [OF False ok] by (auto simp: Let_def)
qed

lemma OnCallExit_view:
  assumes "OnCallExit depth outp gasUsed err rev1 s = Inr s'" and "t_block s \<noteq> None" and "b \<noteq> None"
  shows "OnCallExit depth outp gasUsed err rev1 (s\<lparr>t_block := b\<rparr>) = Inr (s'\<lparr>t_block := b\<rparr>)"
proof (cases "t_latestCallEnterSuicided s")
  case True
  then show ?thesis using assms(1) by (auto simp: OnCallExit_def)
next
  case False
  let ?s = "s\<lparr>t_block := b\<rparr>"
  obtain c where ok: "ensureInBlockAndInTrxAndInCall s = None" and c: "fst (cs_Pop (t_callStack s)) = Some c"
    using assms(1) False by (auto simp: OnCallExit_def guard_Inr_iff split: prod.splits option.splits)
  have ok': "ensureInBlockAndInTrxAndInCall ?s = None" using ok assms(3) by (simp add: ensure_None_iff)
  have "\<not> t_latestCallEnterSuicided ?s" "fst (cs_Pop (t_callStack ?s)) = Some c" using False c by simp_all
  note pop = OnCallExit_pop [OF this(1) ok' this(2)]
  show ?thesis
    using assms(1) unfolding pop OnCallExit_pop [OF False ok c] by (auto simp: update_transaction_def)
qed

lemma OnTxStart_view:
  assumes "OnTxStart cr event reader s = Inr s'" and "b \<noteq> None"
  shows "OnTxStart cr event reader (s\<lparr>t_block := b\<rparr>) = Inr (s'\<lparr>t_block := b\<rparr>)"
proof -
  obtain addr x where ok: "ensureInBlockAndNotInTrxAndNotInCall s = None" and addr: "to_address cr event reader = Inr addr"
    and x: "authorized cr event s (new_trace event (computeEffectiveGasPrice event (t_blockBaseFee s))
      (ord_value (t_blockOrdinal s) + 1) addr) = Inr x"
    and s': "s' = s\<lparr>t_transactionStateReader := reader, t_blockOrdinal := snd (ordinal_Next (t_blockOrdinal s)),
      t_transaction := Some x\<rparr>"
    using assms(1) by (rule OnTxStart_Inr)
  have rec: "recovery_func cr (s\<lparr>t_block := b\<rparr>) = recovery_func cr s" by (simp add: recovery_func_def)
  have ok': "ensureInBlockAndNotInTrxAndNotInCall (s\<lparr>t_block := b\<rparr>) = None"
    using ok assms(2) by (simp add: ensure_None_iff)
  show ?thesis
    by (subst OnTxStart_eq [OF rec]) (simp_all add: ok' addr x s')
qed

text \<open>The tracer an ending transaction is completed on shows only in its configuration.\<close>

lemma assign_loop_any: "assign_loop t i xs ys = Inr zs \<Longrightarrow> assign_loop u i xs ys = Inr zs"
proof (induction t i xs ys arbitrary: zs rule: assign_loop.induct)
  case (1 t i x xs y ys)
  then show ?case by (auto simp: guard_Inr_iff check_None_iff bindR_Inr_iff)
qed auto

lemma finish_trace_any:
  assumes "finish_trace t receipt x = Inr y" and "t_config u = t_config t"
  shows "finish_trace u receipt x = Inr y"
  using assms
  by (auto simp: finish_trace_def assignOrdinalAndIndexToReceiptLogs_def Let_def bindR_Inr_iff
      dest: assign_loop_any split: if_splits)

lemma completeTransaction_view:
  assumes "completeTransaction receipt err s = Inr s'"
  shows "completeTransaction receipt err (s\<lparr>t_block := b\<rparr>) = Inr (s'\<lparr>t_block := b\<rparr>)"
proof -
  let ?s = "s\<lparr>t_block := b\<rparr>"
  obtain x where x: "t_transaction s = Some x"
    using assms by (auto simp: completeTransaction_def split: option.splits)
  show ?thesis
  proof (cases "trx_Calls x = []")
    case True
    then show ?thesis using assms x
      by (auto simp: completeTransaction_def guard_Inr_iff check_None_iff check_def update_transaction_def)
  next
    case False
    have x': "t_transaction ?s = Some x" using x by simp
    have tr: "settled_trace ?s x = settled_trace s x" by (simp add: settled_trace_def)
    let ?t0 = "s\<lparr>t_deferredCallState := NewDeferredCallState, t_transactionKeccakPreimages := []\<rparr>"
    obtain y where y: "finish_trace ?t0 receipt (settled_trace s x) = Inr y"
      and s': "s' = update_transaction (\<lambda>_. y\<lparr>trx_EndOrdinal := ord_value (t_blockOrdinal s) + 1\<rparr>)
        (?t0\<lparr>t_blockOrdinal := snd (ordinal_Next (t_blockOrdinal s))\<rparr>)"
      using assms unfolding completeTransaction_calls [OF x False] by (auto simp: Let_def bindR_Inr_iff)
    have "finish_trace (?s\<lparr>t_deferredCallState := NewDeferredCallState, t_transactionKeccakPreimages := []\<rparr>)
        receipt (settled_trace s x) = Inr y"
      by (rule finish_trace_any [OF y]) simp
    then show ?thesis
      unfolding completeTransaction_calls [OF x' False] tr Let_def
      by (simp add: s' update_transaction_def)
  qed
qed

lemma OnTxEnd_view:
  assumes "OnTxEnd receipt err s = Inr s'" and "t_transactionIsolated s" and "b \<noteq> None"
  shows "OnTxEnd receipt err (s\<lparr>t_block := b\<rparr>) = Inr (s'\<lparr>t_block := b\<rparr>)"
proof -
  have ok: "ensureInBlockAndInTrx s = None" using assms(1) by (simp add: OnTxEnd_def guard_Inr_iff)
  then have ok': "ensureInBlockAndInTrx (s\<lparr>t_block := b\<rparr>) = None" using assms(3) by (simp add: ensure_None_iff)
  show ?thesis
  proof (cases "receipt = None \<and> cfg_DropTransactionsWithoutReceipt (t_config s)")
    case True
    then show ?thesis using assms(1,2) ok ok' by (auto simp: OnTxEnd_def)
  next
    case False
    obtain t1 where t1: "completeTransaction receipt err s = Inr t1"
      using assms(1) ok False by (auto simp: OnTxEnd_def bindR_Inr_iff)
    have iso: "t_transactionIsolated t1" using completeTransaction_mset [OF t1] assms(2) by simp
    show ?thesis
      using assms(1) ok ok' False t1 completeTransaction_view [OF t1, of b] iso
      by (auto simp: OnTxEnd_def split: option.splits)
  qed
qed

subsection \<open>A transaction\<close>

text \<open>
  Hooks called on an isolated tracer one after the other: before each of them the coordinator, which
  may have run hooks of its own and committed other tracers in between, is in the state it is paired with. The
  result lists the coordinators as the hooks left them, and has the isolated tracer at the end.
\<close>

primrec shared_run :: "Crypto \<Rightarrow> (tracer \<times> hook) list \<Rightarrow> tracer \<Rightarrow> go_panic + (tracer list \<times> tracer)" where
  "shared_run cr [] s = Inr ([], s)"
| "shared_run cr (step # steps) s =
     bindR (on_shared (apply_hook cr (snd step)) (fst step) s) (\<lambda>(t, s).
     bindR (shared_run cr steps s) (\<lambda>(ts, s). Inr (t # ts, s)))"

text \<open>A hook that reads nothing of the block but that there is one, and writes nothing to it.\<close>

definition aloof :: "Crypto \<Rightarrow> hook \<Rightarrow> tracer \<Rightarrow> bool" where
  "aloof cr h s \<longleftrightarrow> (\<forall>s'. apply_hook cr h s = Inr s' \<longrightarrow> t_block s' = t_block s
     \<and> (\<forall>b. b \<noteq> None \<longrightarrow> apply_hook cr h (s\<lparr>t_block := b\<rparr>) = Inr (s'\<lparr>t_block := b\<rparr>)))"

lemma trx_hook_aloof:
  assumes "is_trx_hook h" and "t_transaction s \<noteq> None" and "t_block s \<noteq> None"
  shows "aloof cr h s"
proof -
  have "apply_hook cr h (s\<lparr>t_block := b\<rparr>) = Inr (s'\<lparr>t_block := b\<rparr>)"
    if "apply_hook cr h s = Inr s'" and "b \<noteq> None" for s' b
  proof (cases "is_event h")
    case True
    show ?thesis by (rule change_hook_view [OF that(1) True assms(2,3) that(2)])
  next
    case False
    then show ?thesis using assms(1,3) that OnCallEnter_view OnCallExit_view by (cases h) simp_all
  qed
  moreover have "t_block s' = t_block s" if "apply_hook cr h s = Inr s'" for s'
    using common_hook [OF assms(1) that assms(2)] by (simp add: common_def)
  ultimately show ?thesis by (auto simp: aloof_def)
qed

lemma shared_run_aloof:
  assumes "aloof cr h s" and "apply_hook cr h s = Inr s1" and "t_block t \<noteq> None"
  shows "shared_run cr ((t, h) # steps) s =
    bindR (shared_run cr steps (s1\<lparr>t_block := t_block t\<rparr>)) (\<lambda>(ts, s). Inr (t # ts, s))"
  using assms by (simp add: aloof_def on_shared_def)

text \<open>The isolated tracer's view of the block is renewed before each hook.\<close>

lemma on_shared_view [simp]: "on_shared f t (s\<lparr>t_block := b\<rparr>) = on_shared f t s"
  by (simp add: on_shared_def)

lemma shared_run_view:
  "steps \<noteq> [] \<Longrightarrow> shared_run cr steps (s\<lparr>t_block := b\<rparr>) = shared_run cr steps s"
  by (cases steps) simp_all

lemma trx_hooks_aloof:
  assumes "list_all is_trx_hook hs" and "t_transaction s \<noteq> None" and "t_block s \<noteq> None"
    and "run_hooks cr hs s = Inr s'" and "length ts = length hs" and "list_all (\<lambda>t. t_block t \<noteq> None) ts"
    and "shared_run cr steps s' = Inr (us, s'')" and "steps \<noteq> []"
  shows "shared_run cr (zip ts hs @ steps) s = Inr (ts @ us, s'')"
  using assms(1-6)
proof (induction hs arbitrary: s ts)
  case Nil
  then show ?case using assms(7) by simp
next
  case (Cons h hs)
  obtain t ts' where ts: "ts = t # ts'" using Cons.prems(5) by (cases ts) auto
  obtain s1 where s1: "apply_hook cr h s = Inr s1" "run_hooks cr hs s1 = Inr s'"
    using Cons.prems(4) by (auto simp: bindR_Inr_iff)
  have h: "is_trx_hook h" using Cons.prems(1) by simp
  have c: "t_transaction s1 \<noteq> None" "t_block s1 \<noteq> None"
    using common_hook [OF h s1(1) Cons.prems(2)] Cons.prems(2,3) by (auto simp: common_def)
  have "shared_run cr (zip ts' hs @ steps) s1 = Inr (ts' @ us, s'')"
    using Cons.IH [OF _ c s1(2)] Cons.prems(1,5,6) by (simp add: ts)
  then show ?case
    using shared_run_aloof [OF trx_hook_aloof [OF h Cons.prems(2,3)] s1(1), of t] Cons.prems(6) assms(8)
    by (simp add: ts shared_run_view)
qed

lemma trx_hooks_common:
  assumes "t_transaction s \<noteq> None" and "list_all is_trx_hook hs" and "run_hooks cr hs s = Inr s'"
  shows "common s' = common s"
  using assms
proof (induction hs arbitrary: s)
  case (Cons h hs)
  obtain s1 where s1: "apply_hook cr h s = Inr s1" "run_hooks cr hs s1 = Inr s'"
    using Cons.prems(3) by (auto simp: bindR_Inr_iff)
  have c: "common s1 = common s" using common_hook [OF _ s1(1) Cons.prems(1)] Cons.prems(2) by simp
  then have "t_transaction s1 \<noteq> None" using Cons.prems(1) by (simp add: common_def)
  from Cons.IH [OF this _ s1(2)] c Cons.prems(2) show ?case by simp
qed simp

text \<open>
  C30. Isolated tracers do not interfere with the coordinator or with each other: a transaction that can be
  traced on an isolated tracer alone can be traced with the coordinator in any states between the
  hooks, as long as it is in a block; every hook leaves the coordinator, the shared block included, as it
  found it, and the isolated tracer ends in the state it reaches alone.
\<close>

theorem isolated_transaction_confined:
  assumes "t_transactionIsolated s" and "t_block s \<noteq> None" and "list_all is_trx_hook hs"
    and "run_hooks cr (HTxStart event reader # hs @ [HTxEnd receipt err]) s = Inr s'"
    and "length ts = length hs" and "list_all (\<lambda>t. t_block t \<noteq> None) (t0 # ts @ [t1])"
  shows "shared_run cr (zip (t0 # ts @ [t1]) (HTxStart event reader # hs @ [HTxEnd receipt err])) s
    = Inr (t0 # ts @ [t1], s'\<lparr>t_block := t_block t1\<rparr>)"
proof -
  obtain s1 s2 where s1: "OnTxStart cr event reader s = Inr s1" and s2: "run_hooks cr hs s1 = Inr s2"
    and s': "OnTxEnd receipt err s2 = Inr s'"
    using assms(4) by (auto simp: run_hooks_append bindR_Inr_iff)
  have frame: "t_block s1 = t_block s \<and> t_transactionIsolated s1 = t_transactionIsolated s \<and> t_transaction s1 \<noteq> None"
    using s1 by (elim OnTxStart_elim) simp
  have start: "aloof cr (HTxStart event reader) s"
    using OnTxStart_view [OF s1] frame s1 by (simp add: aloof_def)
  have b1: "t_transaction s1 \<noteq> None" "t_block s1 \<noteq> None" "t_transactionIsolated s1"
    using frame assms(1,2) by simp_all
  have b2: "t_transactionIsolated s2"
    using trx_hooks_common [OF b1(1) assms(3) s2] b1(3) by (simp add: common_def)
  have "aloof cr (HTxEnd receipt err) s2"
    using OnTxEnd_view [OF _ b2] OnTxEnd_off_block [OF _ b2] by (simp add: aloof_def)
  from shared_run_aloof [OF this, of s' t1 "[]"] s' assms(6)
  have last: "shared_run cr [(t1, HTxEnd receipt err)] s2 = Inr ([t1], s'\<lparr>t_block := t_block t1\<rparr>)" by simp
  have "shared_run cr (zip ts hs @ [(t1, HTxEnd receipt err)]) s1 = Inr (ts @ [t1], s'\<lparr>t_block := t_block t1\<rparr>)"
    using trx_hooks_aloof [OF assms(3) b1(1,2) s2 assms(5) _ last] assms(6) by simp
  then show ?thesis
    using shared_run_aloof [OF start, of s1 t0] s1 assms(5,6) by (simp add: shared_run_view)
qed

end
