(* ===== verification/BlockSpec.thy ===== *)
theory BlockSpec
  imports TransactionSpec
begin

section \<open>A whole block\<close>

text \<open>
  A block as the node runs it: the start, then in any order changes outside any transaction (rewards,
  withdrawals), system calls and transactions, and the end. The theorem puts the specifications of the
  parts together and says what the block that is flushed holds.
\<close>

subsection \<open>The items of a block\<close>

datatype block_item =
    BlockChange hook
  | BlockSystemCall call_args "node list" call_result
  | BlockTransaction TxEvent "StateReader option" "hook list" call_args "node list" call_result "hook list"
      ReceiptData "go_error option"

fun item_hooks :: "block_item \<Rightarrow> hook list" where
  "item_hooks (BlockChange h) = [h]"
| "item_hooks (BlockSystemCall a ns x) = HSystemCallStart # hooks_of 0 (Invoke a ns x) @ [HSystemCallEnd]"
| "item_hooks (BlockTransaction event reader pre a ns x post receipt err) =
     transaction_hooks event reader pre a ns x post receipt err"

fun item_ok :: "block_item \<Rightarrow> bool" where
  "item_ok (BlockChange h) \<longleftrightarrow> is_change h"
| "item_ok (BlockSystemCall a ns x) \<longleftrightarrow> well_typed (Invoke a ns x)"
| "item_ok (BlockTransaction event reader pre a ns x post receipt err) \<longleftrightarrow>
     well_typed (Invoke a ns x) \<and> list_all is_change pre \<and> list_all is_change post"

definition items_hooks :: "block_item list \<Rightarrow> hook list" where
  "items_hooks items = concat (map item_hooks items)"

text \<open>
  An item's effect: the block it leaves has one event more for every ordinal taken, and the tracer is
  between transactions again.
\<close>

definition records :: "nat \<Rightarrow> tracer \<Rightarrow> tracer \<Rightarrow> bool" where
  "records n t t' \<longleftrightarrow> between_transactions t' \<and> carried t' = carried t
     \<and> clock t \<le> clock t' \<and> clock t' \<le> clock t + n
     \<and> block_mset (the (t_block t')) = block_mset (the (t_block t)) + span (clock t) (clock t')"

lemma records_same: "between_transactions t \<Longrightarrow> records n t t"
  by (simp add: records_def)

lemma records_trans:
  assumes "records m t t'" and "records n t' t''"
  shows "records (m + n) t t''"
proof -
  have le: "clock t \<le> clock t'" "clock t' \<le> clock t''" using assms by (simp_all add: records_def)
  have "block_mset (the (t_block t'')) = block_mset (the (t_block t)) + (span (clock t) (clock t') + span (clock t') (clock t''))"
    using assms by (simp add: records_def ac_simps)
  with assms show ?thesis unfolding span_join [OF le] by (simp add: records_def)
qed

lemma clock_next:
  assumes "ord_value (t_blockOrdinal t') = ord_value (t_blockOrdinal t) + 1" and "clock t + 1 < 2 ^ 64"
  shows "clock t' = Suc (clock t)" and "span (clock t) (clock t') = {#ord_value (t_blockOrdinal t) + 1#}"
proof -
  show c: "clock t' = Suc (clock t)"
    using assms unat_add_one [of "ord_value (t_blockOrdinal t)"] by (simp add: clock_def)
  show "span (clock t) (clock t') = {#ord_value (t_blockOrdinal t) + 1#}"
    using c span_next [of "ord_value (t_blockOrdinal t)"] by (simp add: clock_def)
qed

subsection \<open>A change outside any transaction\<close>

lemma outside_change:
  assumes "apply_hook cr h t = Inr t'" and "is_change h" and "between_transactions t"
  shows "t' = t \<or> (\<exists>g. t' = update_block g (t\<lparr>t_blockOrdinal := snd (ordinal_Next (t_blockOrdinal t))\<rparr>)
    \<and> (\<forall>b. block_mset (g b) = add_mset (ord_value (t_blockOrdinal t) + 1) (block_mset b)))"
  using assms
  by (cases h)
     (auto simp: change_hook_defs guard_Inr_iff ensure_None_iff Let_def between_transactions_def blank_def
        split: if_splits option.splits)

lemma change_recorded:
  assumes "apply_hook cr h t = Inr t'" and "is_change h" and "between_transactions t" and "clock t + 1 < 2 ^ 64"
  shows "records 1 t t'"
  using outside_change [OF assms(1-3)]
proof
  assume "t' = t"
  then show ?thesis using records_same [OF assms(3)] by simp
next
  assume "\<exists>g. t' = update_block g (t\<lparr>t_blockOrdinal := snd (ordinal_Next (t_blockOrdinal t))\<rparr>)
    \<and> (\<forall>b. block_mset (g b) = add_mset (ord_value (t_blockOrdinal t) + 1) (block_mset b))"
  then obtain g where t': "t' = update_block g (t\<lparr>t_blockOrdinal := snd (ordinal_Next (t_blockOrdinal t))\<rparr>)"
    and g: "\<And>b. block_mset (g b) = add_mset (ord_value (t_blockOrdinal t) + 1) (block_mset b)" by blast
  have "ord_value (t_blockOrdinal t') = ord_value (t_blockOrdinal t) + 1"
    by (simp add: t' update_block_def)
  note c = clock_next [OF this assms(4)]
  have "between_transactions t'"
    using assms(3) by (auto simp: t' between_transactions_def blank_def update_block_def)
  moreover obtain b where "t_block t = Some b" using assms(3) by (auto simp: between_transactions_def)
  then have "block_mset (the (t_block t')) = block_mset (the (t_block t)) + span (clock t) (clock t')"
    unfolding c(2) by (simp add: t' g update_block_def)
  moreover have "carried t' = carried t" by (simp add: t')
  ultimately show ?thesis using c(1) by (simp add: records_def)
qed

subsection \<open>A system call\<close>

lemma outer_system_call_end:
  assumes "OnSystemCallEnd t = Inr t'" and "t_transaction t = Some x" and "t_interruptedTransaction t = None"
  shows "t' = resetTransaction (update_block (\<lambda>b. b\<lparr>blk_SystemCalls := blk_SystemCalls b @
    attachStorageSlotPreimages (trx_Calls x) (t_transactionKeccakPreimages t)\<rparr>) t)"
  using assms by (auto elim!: OnSystemCallEnd_elim)

lemma system_call_recorded:
  assumes ready: "between_transactions t" and ty: "well_typed (Invoke a ns x)"
    and run: "run_hooks cr (item_hooks (BlockSystemCall a ns x)) t = Inr t'"
    and room: "clock t + length (item_hooks (BlockSystemCall a ns x)) < 2 ^ 64"
  shows "records (length (item_hooks (BlockSystemCall a ns x))) t t'"
proof -
  let ?l = "length (hooks_of 0 (Invoke a ns x))"
  obtain t1 t2 where h1: "OnSystemCallStart t = Inr t1" and h2: "run_hooks cr (hooks_of 0 (Invoke a ns x)) t1 = Inr t2"
    and h3: "OnSystemCallEnd t2 = Inr t'"
    using run by (auto simp: run_hooks_append bindR_Inr_iff simp del: hooks_of.simps)
  have idle: "t_transaction t = None" "t_callStack t = NewCallStack" "t_deferredCallState t = NewDeferredCallState"
    "t_interruptedTransaction t = None" "\<not> t_transactionIsolated t"
    using ready by (simp_all add: between_transactions_def blank_def)
  obtain b where b: "t_block t = Some b" using ready by (auto simp: between_transactions_def)
  have t1: "t1 = t\<lparr>t_inSystemCall := True, t_transaction := Some empty_Trace\<rparr>"
    using OnSystemCallStart_elim [OF h1] idle(1) by metis
  have in1: "in_transaction t1" "cs_stack (t_callStack t1) = []" "cs_depth (t_callStack t1) = 0"
    using ready idle by (auto simp: t1 in_transaction_def between_transactions_def)
  define s2 where "s2 = eval_root (delegation t1) NewDeferredCallState a ns x (abst t1)"
  have t2: "t2 = conc (t1\<lparr>t_deferredCallState := NewDeferredCallState\<rparr>) [] s2"
    using root_call_step [OF in1 ty, of cr] h2 idle by (simp add: t1 s2_def)
  have s: "now (abst t1) = clock t" "es_calls (abst t1) = []"
    by (simp_all add: abst_def now_def clock_def t1 empty_Trace_def)
  have "now (abst t1) + ?l < 2 ^ 64" using s(1) room by simp
  note facts = eval_root_facts [where deleg = "delegation t1" and d = NewDeferredCallState, OF ty s(2) this,
    folded s2_def, unfolded s(1)]
  have k: "clock t2 = now s2" by (simp add: clock_def now_def t2)
  have trx2: "t_transaction t2 = Some (empty_Trace\<lparr>trx_Calls := es_calls s2\<rparr>)" and b2: "t_block t2 = Some b"
    and int2: "t_interruptedTransaction t2 = None"
    using b idle by (simp_all add: t2 t1 conc_def)
  let ?calls = "attachStorageSlotPreimages (es_calls s2) (t_transactionKeccakPreimages t2)"
  let ?s = "update_block (\<lambda>b. b\<lparr>blk_SystemCalls := blk_SystemCalls b @ ?calls\<rparr>) t2"
  have t': "t' = resetTransaction ?s"
    using outer_system_call_end [OF h3 trx2 int2] by simp
  have "carried ?s = carried t" by (simp add: t2 t1)
  then have frame: "between_transactions t' \<and> carried t' = carried t"
    using b2 by (intro carried_reset [OF t' _ ready]) (simp_all add: update_block_def)
  have k': "clock t' = now s2" unfolding k [symmetric] by (simp add: t' update_block_def clock_def)
  have "calls_mset ?calls = calls_mset (es_calls s2)"
    by (intro calls_mset_map attach_keeps) (simp add: call_mset_def change_ordinals_def)
  also have "\<dots> = span (clock t) (clock t')" using facts(3) k' by (simp add: deferred_ordinals_def)
  finally have "block_mset (the (t_block t')) = block_mset (the (t_block t)) + span (clock t) (clock t')"
    using b b2 by (simp add: t' update_block_def ac_simps)
  then show ?thesis using frame facts(1) k' by (simp add: records_def del: hooks_of.simps)
qed

subsection \<open>Any item, and all of them\<close>

lemma item_recorded:
  assumes "between_transactions t" and "item_ok item" and "run_hooks cr (item_hooks item) t = Inr t'"
    and "clock t + length (item_hooks item) < 2 ^ 64"
  shows "records (length (item_hooks item)) t t'"
proof (cases item)
  case (BlockChange h)
  then show ?thesis using assms change_recorded [of cr h t t'] by (auto simp: bindR_Inr_iff)
next
  case (BlockSystemCall a ns x)
  then show ?thesis using assms system_call_recorded [of t a ns x cr t'] by (simp del: item_hooks.simps hooks_of.simps)
next
  case (BlockTransaction event reader pre a ns x post receipt err)
  obtain b where b: "t_block t = Some b" using assms(1) by (auto simp: between_transactions_def)
  obtain trx mid1 mid2 calls late where
      trx: "t_block t' = Some (b\<lparr>blk_TransactionTraces := blk_TransactionTraces b @ [trx]\<rparr>)"
    and frame: "between_transactions t'" "carried t' = carried t" "clock t' \<le> clock t + length (item_hooks item)"
    and tr: "traced_between (clock t) mid1 mid2 (clock t') calls late trx"
    using transaction_runs [OF assms(1) b, of a ns x pre post cr event reader receipt err t'] assms(2-4)
    by (auto simp: BlockTransaction simp del: hooks_of.simps)
  have "clock t \<le> clock t'" using tr by (simp add: traced_between_def)
  moreover have "block_mset (the (t_block t')) = block_mset (the (t_block t)) + span (clock t) (clock t')"
    using traced_mset [OF tr] by (simp add: trx b ac_simps)
  ultimately show ?thesis using frame by (simp add: records_def)
qed

lemma items_recorded:
  assumes "between_transactions t" and "list_all item_ok items" and "run_hooks cr (items_hooks items) t = Inr t'"
    and "clock t + length (items_hooks items) < 2 ^ 64"
  shows "records (length (items_hooks items)) t t'"
  using assms
proof (induction items arbitrary: t)
  case Nil
  then show ?case by (simp add: items_hooks_def records_same)
next
  case (Cons item items)
  obtain t1 where t1: "run_hooks cr (item_hooks item) t = Inr t1" "run_hooks cr (items_hooks items) t1 = Inr t'"
    using Cons.prems(3) by (auto simp: items_hooks_def run_hooks_append bindR_Inr_iff)
  have r1: "records (length (item_hooks item)) t t1"
    using Cons.prems by (intro item_recorded [OF _ _ t1(1)]) (simp_all add: items_hooks_def)
  then have "records (length (items_hooks items)) t1 t'"
    using Cons.prems by (intro Cons.IH [OF _ _ t1(2)]) (simp_all add: records_def items_hooks_def)
  from records_trans [OF r1 this] show ?case by (simp add: items_hooks_def)
qed

subsection \<open>From the start to the end of a block\<close>

text \<open>A tracer between two blocks that are not flash blocks.\<close>

definition between_blocks :: "tracer \<Rightarrow> bool" where
  "between_blocks t \<longleftrightarrow> idle t \<and> t_chainConfig t \<noteq> None \<and> t_transactionTransient t = None
     \<and> \<not> t_latestCallEnterSuicided t \<and> t_flashBlockIndex t = None"

lemma fill_block_carried: "carried (fill_block event t) = carried t"
  "t_latestCallEnterSuicided (fill_block event t) = t_latestCallEnterSuicided t"
  by (auto simp: fill_block_def Let_def carried_def update_block_def split: option.split)

lemma block_started:
  assumes "between_blocks t" and "ev_FlashBlock event = None" and "OnBlockStart event t = Inr t'"
  shows "between_transactions t' \<and> carried t' = carried t \<and> clock t' = clock t \<and> block_mset (the (t_block t')) = {#}"
proof -
  from assms(3) obtain r where t': "t' = fill_block event
      ((freeze_snapshot (t\<lparr>t_blockRules := r\<rparr>))\<lparr>t_block := Some (new_Block (ev_Block event))\<rparr>)"
  proof (cases rule: OnBlockStart_elim)
    case (1 t0 t1 t2 r)
    then show ?thesis using assms(1,2) that [of r]
      by (simp add: between_blocks_def IsFlashBlock_def freeze_snapshot_def)
  qed
  let ?t = "(freeze_snapshot (t\<lparr>t_blockRules := r\<rparr>))\<lparr>t_block := Some (new_Block (ev_Block event))\<rparr>"
  obtain us ws where b: "t_block t' = Some ((new_Block (ev_Block event))\<lparr>blk_Uncles := us, blk_Withdrawals := ws\<rparr>)"
    using fill_block_block [of ?t "new_Block (ev_Block event)" event] unfolding t' by auto
  have c: "carried t' = carried t"
    unfolding t' fill_block_carried by (simp add: carried_def freeze_snapshot_def)
  have tr: "trx_state t' = trx_state t" by (rule OnBlockStart_trx_state [OF assms(3)])
  have su: "t_latestCallEnterSuicided t' = t_latestCallEnterSuicided t"
    unfolding t' fill_block_carried by (simp add: freeze_snapshot_def)
  have "clock t' = clock t" by (simp add: clock_def t' freeze_snapshot_def)
  moreover have "block_mset (the (t_block t')) = {#}" by (simp add: b block_mset_def new_Block_def)
  moreover have "between_transactions t'"
    using b c tr su assms(1)
    by (simp add: between_blocks_def between_transactions_def idle_def blank_def trx_state_def carried_def)
  ultimately show ?thesis using c by simp
qed

lemma block_ended:
  assumes "between_transactions t" and "t_flashBlockIndex t = None" and "flush_keeps t" and "OnBlockEnd None t = Inr t'"
  shows "between_blocks t' \<and> (\<exists>out. t_output t' = t_output t @ [BlockLine out]
    \<and> block_mset (bo_block out) = block_mset (the (t_block t)))"
proof -
  obtain b' where b': "t_block (before_flush t) = Some b'" and out: "t_output t' = t_output t @ [BlockLine \<lparr>bo_block = b',
      bo_libNum = computeLibNum (blk_Number b') (t_blockFinality t),
      bo_printedFlashBlockIndex = computePrintedFlashBlockIndex (t_flashBlockIndex t) (t_flashBlockIsFinal t)\<rparr>]"
    using OnBlockEnd_output [OF assms(4)] by metis
  have same: "block_mset b' = block_mset (the (t_block t))"
    using b' assms(3) block_mset_flush
    by (auto simp: before_flush_def flush_keeps_def update_block_def split: option.splits)
  obtain y where t': "t' = resetTransaction (resetBlock (freeze_snapshot (emit y (before_flush t))))"
    using assms(4) by (elim OnBlockEnd_elim) auto
  have "t_chainConfig t' = t_chainConfig t" "t_transactionIsolated t' = t_transactionIsolated t"
    by (simp_all add: t' resetBlock_def freeze_snapshot_def emit_def before_flush_def update_block_def split: option.split)
  moreover have "t_block t' = None" "t_interruptedTransaction t' = None" "t_flashBlockIndex t' = None"
    by (simp_all add: t' resetBlock_def)
  moreover have "\<not> t_latestCallEnterSuicided t'" by (simp add: t' resetTransaction_def)
  ultimately have "between_blocks t'"
    using assms(1) by (simp add: between_blocks_def idle_def blank_def between_transactions_def t')
  then show ?thesis using out same by auto
qed

definition block_hooks :: "BlockEvent \<Rightarrow> block_item list \<Rightarrow> hook list" where
  "block_hooks event items = HBlockStart event # items_hooks items"

subsection \<open>The property\<close>

text \<open>
  C2. A block is complete: whatever transactions, system calls and changes outside them a block is made of,
  in whatever order, the block handed to the output when it ends records every ordinal taken since its
  start exactly once, so that no event of the block is lost, recorded twice or carried into the next
  block; and the tracer is then ready for the next block.
\<close>

theorem block_complete:
  assumes "between_blocks t" and "ev_FlashBlock event = None" and "flush_keeps t"
    and "list_all item_ok items"
    and "run_hooks cr (block_hooks event items) t = Inr t1" and "OnBlockEnd None t1 = Inr t'"
    and "clock t + length (items_hooks items) < 2 ^ 64"
  shows "between_blocks t' \<and> (\<exists>out. t_output t' = t_output t @ [BlockLine out]
    \<and> block_mset (bo_block out) = mset (map of_nat [Suc (clock t)..<Suc (clock t1)]))"
proof -
  obtain t0 where t0: "OnBlockStart event t = Inr t0" "run_hooks cr (items_hooks items) t0 = Inr t1"
    using assms(5) by (auto simp: block_hooks_def bindR_Inr_iff)
  note start = block_started [OF assms(1,2) t0(1)]
  then have r: "records (length (items_hooks items)) t0 t1"
    using assms(4,7) by (intro items_recorded [OF _ _ t0(2)]) simp_all
  then have c: "between_transactions t1" "carried t1 = carried t" using start by (simp_all add: records_def)
  then have "t_flashBlockIndex t1 = None" "flush_keeps t1" and same: "t_output t1 = t_output t"
    using assms(1,3) by (simp_all add: carried_def between_blocks_def flush_keeps_def)
  from block_ended [OF c(1) this(1,2) assms(6)] show ?thesis
    using r start unfolding same by (simp add: records_def span_def)
qed

end
