(* ===== verification/TransactionWitnesses.thy ===== *)
theory TransactionWitnesses
  imports DemoRuns SharedBlock BlockSpec
begin

section \<open>The properties of executed transactions at a concrete one\<close>

text \<open>
  A root call that changes a balance, calls a contract which writes a storage slot and logs, and
  self-destructs; gas is bought before it and refunded after it.
\<close>

definition demo_args :: call_args where
  "demo_args = \<lparr>ca_typ = CallTypeCall, ca_caller = replicate 20 1, ca_target = replicate 20 2,
     ca_input = [], ca_gas = 9, ca_value = Some 3\<rparr>"

definition demo_result :: call_result where
  "demo_result = \<lparr>cx_output = [], cx_gasUsed = 5, cx_err = None, cx_reverted = False\<rparr>"

definition demo_nodes :: "node list" where
  "demo_nodes = [Event (HBalanceChange (replicate 20 1) (Some 4) (Some 3) REASON_GENESIS_BALANCE),
     Invoke demo_args [Event (HStorageChange (replicate 20 2) (replicate 32 1) (replicate 32 0) (replicate 32 5)),
       Event (HLog (replicate 20 9) [] [1] 0)] demo_result,
     SelfDestructed demo_args demo_result]"

definition demo_before :: "hook list" where
  "demo_before = [HBalanceChange (replicate 20 3) (Some 9) (Some 2) REASON_GENESIS_BALANCE,
     HNonceChange (replicate 20 3) 0 1]"

definition demo_after :: "hook list" where
  "demo_after = [HBalanceChange (replicate 20 3) (Some 2) (Some 4) REASON_GENESIS_BALANCE]"

lemmas demo_tree_defs = demo_args_def demo_result_def demo_nodes_def demo_before_def demo_after_def

lemma demo_tree_ok:
  "well_typed (Invoke demo_args demo_nodes demo_result)" "list_all is_change demo_before"
  "list_all is_change demo_after"
  by code_simp+

definition demo_block :: tracer where
  "demo_block = run_demo [HBlockStart demo_event]"

definition demo_start_trx :: tracer where
  "demo_start_trx = run_demo [HBlockStart demo_event, HTxStart genesis_event None]"

abbreviation demo_transaction_hooks :: "hook list" where
  "demo_transaction_hooks \<equiv> transaction_hooks genesis_event None demo_before demo_args demo_nodes demo_result
     demo_after demo_receipt None"

lemma demo_start_trx_ok:
  "in_transaction demo_start_trx" "cs_stack (t_callStack demo_start_trx) = []"
  "cs_depth (t_callStack demo_start_trx) = 0"
proof -
  have "\<not> Option.is_none (t_chainConfig demo_start_trx) \<and> \<not> Option.is_none (t_block demo_start_trx)
      \<and> \<not> Option.is_none (t_transaction demo_start_trx) \<and> Option.is_none (t_transactionTransient demo_start_trx)
      \<and> \<not> t_latestCallEnterSuicided demo_start_trx"
    by code_simp
  then show "in_transaction demo_start_trx" by (auto simp: in_transaction_def Option.is_none_def)
  have "length (cs_stack (t_callStack demo_start_trx)) = 0" by code_simp
  then show "cs_stack (t_callStack demo_start_trx) = []" by simp
  show "cs_depth (t_callStack demo_start_trx) = 0" by code_simp
qed

theorem execution_refines_witness:
  "\<exists>t'. run_hooks demo_crypto (hooks_of 0 (Invoke demo_args demo_nodes demo_result)) demo_start_trx = Inr t'
     \<and> abst t' = eval_root (delegation demo_start_trx) (t_deferredCallState demo_start_trx) demo_args demo_nodes
         demo_result (abst demo_start_trx)"
  using execution_refines [OF demo_start_trx_ok demo_tree_ok(1), of demo_crypto] by blast

text \<open>\<open>between_transactions\<close> as it is evaluated.\<close>

definition idle_in_block :: "tracer \<Rightarrow> bool" where
  "idle_in_block t \<longleftrightarrow> \<not> Option.is_none (t_chainConfig t) \<and> \<not> Option.is_none (t_block t)
     \<and> Option.is_none (t_transaction t) \<and> Option.is_none (t_transactionTransient t)
     \<and> length (cs_stack (t_callStack t)) = 0 \<and> cs_index (t_callStack t) = 0
     \<and> cs_depth (t_callStack t) = 0 \<and> df_IsEmpty (t_deferredCallState t)
     \<and> Option.is_none (t_interruptedTransaction t)
     \<and> \<not> t_latestCallEnterSuicided t \<and> \<not> t_transactionIsolated t"

lemma idle_in_block_between:
  assumes "idle_in_block t"
  shows "between_transactions t" and "\<exists>b. t_block t = Some b"
proof -
  have "t_callStack t = NewCallStack"
    using assms by (cases "t_callStack t") (simp add: idle_in_block_def NewCallStack_def)
  then show "between_transactions t" and "\<exists>b. t_block t = Some b"
    using assms by (auto simp: idle_in_block_def between_transactions_def blank_def Option.is_none_def)
qed

lemma demo_block_ok:
  "between_transactions demo_block" "\<exists>b. t_block demo_block = Some b"
  "\<exists>t'. run_hooks demo_crypto demo_transaction_hooks demo_block = Inr t'"
  "clock demo_block + length demo_transaction_hooks < 2 ^ 64"
proof -
  have "idle_in_block demo_block" by code_simp
  then show "between_transactions demo_block" "\<exists>b. t_block demo_block = Some b"
    by (rule idle_in_block_between)+
  have "\<not> isl (run_hooks demo_crypto demo_transaction_hooks demo_block)" by code_simp
  then show "\<exists>t'. run_hooks demo_crypto demo_transaction_hooks demo_block = Inr t'"
    by (cases "run_hooks demo_crypto demo_transaction_hooks demo_block") auto
  have "ord_value (t_blockOrdinal demo_block) < 100 \<and> length demo_transaction_hooks < 100" by code_simp
  then show "clock demo_block + length demo_transaction_hooks < 2 ^ 64"
    by (simp add: clock_def word_less_nat_alt)
qed

theorem transaction_complete_witness:
  "\<exists>t' b trx. run_hooks demo_crypto demo_transaction_hooks demo_block = Inr t'
     \<and> map_option blk_TransactionTraces (t_block t') = Some (b @ [trx])
     \<and> trx_mset trx = mset (map of_nat [Suc (clock demo_block)..<Suc (clock t')])"
  using demo_block_ok(2,3)
    transaction_complete [OF demo_block_ok(1) _ demo_tree_ok _ demo_block_ok(4)] by blast

theorem transaction_calls_nest_witness:
  "\<exists>t' b trx. run_hooks demo_crypto demo_transaction_hooks demo_block = Inr t'
     \<and> map_option blk_TransactionTraces (t_block t') = Some (b @ [trx])
     \<and> nested 0 (unat (trx_BeginOrdinal trx)) (unat (trx_EndOrdinal trx) - 1) (trx_Calls trx)"
  using demo_block_ok(2,3)
    transaction_calls_nest [OF demo_block_ok(1) _ demo_tree_ok _ demo_block_ok(4)] by blast

theorem transaction_changes_ordered_witness:
  "\<exists>t' b trx. run_hooks demo_crypto demo_transaction_hooks demo_block = Inr t'
     \<and> map_option blk_TransactionTraces (t_block t') = Some (b @ [trx])
     \<and> (\<forall>c \<in> set (trx_Calls trx). in_order (change_ordinals c))"
  using demo_block_ok(2,3)
    transaction_changes_ordered [OF demo_block_ok(1) _ demo_tree_ok _ demo_block_ok(4)] by blast

text \<open>The same transaction, committed after a balance change outside any transaction.\<close>

definition demo_counted :: tracer where
  "demo_counted = run_demo [HBlockStart demo_event,
     HBalanceChange (replicate 20 3) (Some 0) (Some 2) REASON_GENESIS_BALANCE]"

definition demo_middle :: "hook list" where
  "demo_middle = demo_before @ hooks_of 0 (Invoke demo_args demo_nodes demo_result) @ demo_after"

abbreviation demo_parallel_hooks :: "hook list" where
  "demo_parallel_hooks \<equiv> HTxStart genesis_event None # demo_middle @ [HTxEnd (Some demo_receipt) None]"

abbreviation demo_spawned :: tracer where
  "demo_spawned \<equiv> newIsolatedTransactionTracer demo_counted"

lemma demo_counted_ok:
  "ready_to_trace demo_counted" "ignores_ordinals (t_config demo_counted)" "list_all is_trx_hook demo_middle"
  "unat (ord_value (t_blockOrdinal demo_counted)) + length demo_middle + 2 < 2 ^ 64"
  "OnTxSpawn 0 demo_counted = Inr demo_spawned"
  "\<exists>s'. run_hooks demo_crypto demo_parallel_hooks demo_spawned = Inr s'"
proof -
  have i: "idle_in_block demo_counted" by code_simp
  have "\<not> t_blockIsGenesis demo_counted \<and> \<not> t_inSystemCall demo_counted \<and> t_transactionLogIndex demo_counted = 0
      \<and> length (t_transactionKeccakPreimages demo_counted) = 0 \<and> ord_value (t_blockOrdinal demo_counted) = 1
      \<and> length demo_middle < 100 \<and> Option.is_none (cfg_IsNeverRevertedLog (t_config demo_counted))"
    by code_simp
  then show "ready_to_trace demo_counted" "ignores_ordinals (t_config demo_counted)"
    "unat (ord_value (t_blockOrdinal demo_counted)) + length demo_middle + 2 < 2 ^ 64"
    using idle_in_block_between(1) [OF i] by (auto simp: ready_to_trace_def ignores_ordinals_def Option.is_none_def)
  show "list_all is_trx_hook demo_middle" by code_simp
  show "OnTxSpawn 0 demo_counted = Inr demo_spawned"
    using idle_in_block_between(1) [OF i]
    by (auto simp: OnTxSpawn_def guard_Inr_iff check_None_iff ensure_None_iff between_transactions_def)
  have "\<not> isl (run_hooks demo_crypto demo_parallel_hooks demo_spawned)" by code_simp
  then show "\<exists>s'. run_hooks demo_crypto demo_parallel_hooks demo_spawned = Inr s'"
    by (cases "run_hooks demo_crypto demo_parallel_hooks demo_spawned") auto
qed

theorem parallel_equals_sequential_witness:
  "\<exists>s' t' s'' z. run_hooks demo_crypto demo_parallel_hooks demo_spawned = Inr s'
     \<and> OnTxCommit demo_counted s' = Inr (None, t', s'')
     \<and> run_hooks demo_crypto demo_parallel_hooks demo_counted
       = Inr (t'\<lparr>t_transactionStateReader := None, t_latestCallEnterSuicidedDepth := z\<rparr>)"
  using demo_counted_ok(6)
    parallel_equals_sequential [OF demo_counted_ok(1,2) _ demo_counted_ok(3,4,5), of "Some demo_receipt"] by blast

text \<open>A block with a balance change, a system call and the transaction.\<close>

definition demo_items :: "block_item list" where
  "demo_items = [BlockChange (HBalanceChange (replicate 20 3) (Some 0) (Some 2) REASON_GENESIS_BALANCE),
     BlockSystemCall demo_args demo_nodes demo_result,
     BlockTransaction genesis_event None demo_before demo_args demo_nodes demo_result demo_after demo_receipt None,
     BlockSystemCall demo_args [] demo_result]"

text \<open>\<open>between_blocks\<close> as it is evaluated.\<close>

definition idle_tracer :: "tracer \<Rightarrow> bool" where
  "idle_tracer t \<longleftrightarrow> \<not> Option.is_none (t_chainConfig t) \<and> Option.is_none (t_block t)
     \<and> Option.is_none (t_transaction t) \<and> Option.is_none (t_transactionTransient t)
     \<and> length (cs_stack (t_callStack t)) = 0 \<and> cs_index (t_callStack t) = 0
     \<and> cs_depth (t_callStack t) = 0 \<and> df_IsEmpty (t_deferredCallState t)
     \<and> Option.is_none (t_interruptedTransaction t) \<and> Option.is_none (t_flashBlockIndex t)
     \<and> Option.is_none (cfg_BeforeBlockFlush (t_config t))
     \<and> \<not> t_latestCallEnterSuicided t \<and> \<not> t_transactionIsolated t"

lemma idle_tracer_between:
  assumes "idle_tracer t"
  shows "between_blocks t" and "flush_keeps t"
proof -
  have "t_callStack t = NewCallStack"
    using assms by (cases "t_callStack t") (simp add: idle_tracer_def NewCallStack_def)
  then show "between_blocks t" and "flush_keeps t"
    using assms by (auto simp: idle_tracer_def between_blocks_def idle_def blank_def flush_keeps_def Option.is_none_def)
qed

lemma demo_items_ok:
  "between_blocks (run_demo [])" "flush_keeps (run_demo [])" "list_all item_ok demo_items"
  "ev_FlashBlock demo_event = None"
  "\<exists>t1 t'. run_hooks demo_crypto (block_hooks demo_event demo_items) (run_demo []) = Inr t1 \<and> OnBlockEnd None t1 = Inr t'"
  "clock (run_demo []) + length (items_hooks demo_items) < 2 ^ 64"
proof -
  have "idle_tracer (run_demo [])" by code_simp
  then show "between_blocks (run_demo [])" "flush_keeps (run_demo [])" by (rule idle_tracer_between)+
  show "list_all item_ok demo_items" by code_simp
  show "ev_FlashBlock demo_event = None" by (simp add: demo_event_def)
  have "case run_hooks demo_crypto (block_hooks demo_event demo_items) (run_demo []) of
      Inl _ \<Rightarrow> False | Inr t1 \<Rightarrow> \<not> isl (OnBlockEnd None t1)" by code_simp
  then show "\<exists>t1 t'. run_hooks demo_crypto (block_hooks demo_event demo_items) (run_demo []) = Inr t1
      \<and> OnBlockEnd None t1 = Inr t'"
    by (auto simp: isl_def split: sum.splits) (metis sum.exhaust_sel)
  have "ord_value (t_blockOrdinal (run_demo [])) < 100 \<and> length (items_hooks demo_items) < 100" by code_simp
  then show "clock (run_demo []) + length (items_hooks demo_items) < 2 ^ 64"
    by (simp add: clock_def word_less_nat_alt)
qed

theorem block_complete_witness:
  "\<exists>t1 t' out. run_hooks demo_crypto (block_hooks demo_event demo_items) (run_demo []) = Inr t1
     \<and> OnBlockEnd None t1 = Inr t' \<and> between_blocks t'
     \<and> t_output t' = t_output (run_demo []) @ [BlockLine out]
     \<and> block_mset (bo_block out) = mset (map of_nat [Suc (clock (run_demo []))..<Suc (clock t1)])"
  using demo_items_ok(5)
    block_complete [OF demo_items_ok(1,4,2,3) _ _ demo_items_ok(6), of demo_crypto] by blast

text \<open>The isolated transaction again, the coordinator's block changing under it between the hooks.\<close>

abbreviation demo_coordinators :: "tracer list" where
  "demo_coordinators \<equiv> replicate (length demo_middle) demo_block"

theorem isolated_transaction_confined_witness:
  "\<exists>s'. run_hooks demo_crypto demo_parallel_hooks demo_spawned = Inr s'
     \<and> shared_run demo_crypto (zip (demo_counted # demo_coordinators @ [demo_counted]) demo_parallel_hooks) demo_spawned
       = Inr (demo_counted # demo_coordinators @ [demo_counted], s'\<lparr>t_block := t_block demo_counted\<rparr>)"
proof -
  obtain s' where s': "run_hooks demo_crypto demo_parallel_hooks demo_spawned = Inr s'"
    using demo_counted_ok(6) by blast
  have mid: "list_all is_trx_hook demo_middle" by (rule demo_counted_ok(3))
  have some: "t_block demo_counted \<noteq> None" "t_block demo_block \<noteq> None"
    using demo_counted_ok(1) demo_block_ok(1) by (simp_all add: ready_to_trace_def between_transactions_def)
  then have all: "list_all (\<lambda>t. t_block t \<noteq> None) (demo_counted # demo_coordinators @ [demo_counted])"
    by (simp add: list_all_iff)
  have iso: "t_transactionIsolated demo_spawned" "t_block demo_spawned \<noteq> None"
    using some(1) by (simp_all add: newIsolatedTransactionTracer_def)
  show ?thesis
    using isolated_transaction_confined [OF iso mid s' _ all] s' by simp
qed

end
