(* ===== verification/Pipeline.thy ===== *)
theory Pipeline
  imports FlushQueue OrdinalInv
begin

section \<open>From the hooks to the output stream\<close>

text \<open>
  The composition of the tracer, the flush queue and the printer. A block that ends is pushed on the
  queue, whose worker writes it while the tracer goes on, or it is written at once when there is no
  queue (\<open>OnBlockEnd\<close>); \<open>OnClose\<close> closes the queue. \<open>pl_step\<close> is the step relation of the whole: the
  next hook, a turn of the worker, the shutdown, or a panic, after which nothing happens. The
  interleavings of the tracer with the worker are its runs.
\<close>

subsection \<open>The hooks and the output\<close>

definition output_state :: "tracer \<Rightarrow> output_item list \<times> bool" where
  "output_state t = (t_output t, t_concurrentFlush t)"

lemma output_state_simps [simp]:
  "output_state (update_active f t) = output_state t" "output_state (update_deferred g t) = output_state t"
  "output_state (update_block h t) = output_state t" "output_state (update_transaction k t) = output_state t"
  "output_state (t\<lparr>t_blockOrdinal := o1\<rparr>) = output_state t" "output_state (t\<lparr>t_block := b\<rparr>) = output_state t"
  "output_state (t\<lparr>t_transactionLogIndex := l\<rparr>) = output_state t"
  "output_state (t\<lparr>t_transactionKeccakPreimages := p\<rparr>) = output_state t"
  "output_state (t\<lparr>t_callStack := cs\<rparr>) = output_state t" "output_state (t\<lparr>t_deferredCallState := d\<rparr>) = output_state t"
  "output_state (t\<lparr>t_latestCallEnterSuicided := b1\<rparr>) = output_state t"
  "output_state (t\<lparr>t_latestCallEnterSuicidedDepth := m\<rparr>) = output_state t"
  "output_state (t\<lparr>t_transaction := x\<rparr>) = output_state t"
  "output_state (t\<lparr>t_transactionTransient := y\<rparr>) = output_state t"
  "output_state (t\<lparr>t_transactionDropped := b1\<rparr>) = output_state t"
  "output_state (t\<lparr>t_transactionStateReader := r\<rparr>) = output_state t"
  "output_state (t\<lparr>t_blockRules := ru\<rparr>) = output_state t" "output_state (t\<lparr>t_blockBaseFee := fee\<rparr>) = output_state t"
  "output_state (t\<lparr>t_blockFinality := fin\<rparr>) = output_state t"
  "output_state (t\<lparr>t_flashBlockIndex := fi\<rparr>) = output_state t"
  "output_state (t\<lparr>t_flashBlockIsFinal := b1\<rparr>) = output_state t"
  "output_state (t\<lparr>t_snapshotForNextFlashBlock := sn\<rparr>) = output_state t"
  "output_state (t\<lparr>t_inSystemCall := b1\<rparr>) = output_state t"
  by (simp_all add: output_state_def update_active_def update_deferred_def update_block_def update_transaction_def)

lemma output_state_steps [simp]:
  "output_state (resetTransaction t) = output_state t" "output_state (resetBlock t) = output_state t"
  "output_state (freeze_snapshot t) = output_state t"
  "output_state (interruptTransaction t) = output_state t" "output_state (resumeTransaction it t) = output_state t"
  by (simp_all add: output_state_def resetTransaction_def resetBlock_def freeze_snapshot_def
      interruptTransaction_def resumeTransaction_def)

lemma fill_block_output [simp]: "output_state (fill_block event t) = output_state t"
  by (simp add: fill_block_def Let_def split: option.split)

lemma before_flush_output [simp]: "output_state (before_flush t) = output_state t"
  by (simp add: before_flush_def split: option.split)

lemma change_hooks_output:
  "OnBalanceChange addr old new reason t = Inr t' \<Longrightarrow> output_state t' = output_state t"
  "OnNonceChange addr n n' t = Inr t' \<Longrightarrow> output_state t' = output_state t"
  "OnCodeChange addr ph nh oc nc t = Inr t' \<Longrightarrow> output_state t' = output_state t"
  "OnStorageChange addr slot ov nv t = Inr t' \<Longrightarrow> output_state t' = output_state t"
  "OnLog addr topics data bi t = Inr t' \<Longrightarrow> output_state t' = output_state t"
  "OnOpcode pc op1 gas cost rd depth err t = Inr t' \<Longrightarrow> output_state t' = output_state t"
  "OnOpcodeFault pc op1 gas cost depth err t = Inr t' \<Longrightarrow> output_state t' = output_state t"
  "OnKeccakPreimage h p t = Inr t' \<Longrightarrow> output_state t' = output_state t"
  by (auto simp: change_hook_defs OnOpcode_def OnOpcodeFault_def OnKeccakPreimage_def guard_Inr_iff
      Let_def split: if_splits option.splits)

lemma completeTransaction_output:
  assumes "completeTransaction receipt err t = Inr t'"
  shows "output_state t' = output_state t"
proof -
  obtain trx trx' where t': "t' = t\<lparr>t_blockOrdinal := snd (ordinal_Next (t_blockOrdinal t)),
        t_transaction := Some trx', t_transactionTransient := t_transactionTransient t',
        t_deferredCallState := t_deferredCallState t',
        t_transactionKeccakPreimages := t_transactionKeccakPreimages t'\<rparr>"
    using completeTransaction_elim [OF assms] by metis
  show ?thesis by (subst t') simp
qed

lemma transaction_hooks_output:
  "OnCallEnter depth typ caller target input gas value t = Inr t' \<Longrightarrow> output_state t' = output_state t"
  "OnCallExit depth output gasUsed err rev1 t = Inr t' \<Longrightarrow> output_state t' = output_state t"
  "OnTxStart cr event reader t = Inr t' \<Longrightarrow> output_state t' = output_state t"
  "OnTxEnd receipt err t = Inr t' \<Longrightarrow> output_state t' = output_state t"
  "OnSystemCallStart t = Inr t' \<Longrightarrow> output_state t' = output_state t"
  "OnSystemCallEnd t = Inr t' \<Longrightarrow> output_state t' = output_state t"
  "OnTxReset t = Inr t' \<Longrightarrow> output_state t' = output_state t"
  by (auto elim!: OnCallEnter_elim OnCallExit_elim OnTxStart_elim OnTxEnd_elim OnSystemCallStart_elim
      OnSystemCallEnd_elim simp: completeTransaction_output OnTxReset_def guard_Inr_iff split: option.splits)

lemma OnBlockStart_output: "OnBlockStart event t = Inr t' \<Longrightarrow> output_state t' = output_state t"
proof (elim OnBlockStart_elim)
  fix t0 t1 t2 r
  assume flash: "case ev_FlashBlock event of None \<Rightarrow> t0 = t
       | Some fb \<Rightarrow> handleFlashBlockStart fb (bd_Number (ev_Block event)) t = Inr t0"
    and t1: "t1 = (freeze_snapshot (t0\<lparr>t_blockRules := r\<rparr>))\<lparr>t_block := Some (new_Block (ev_Block event))\<rparr>"
    and restore: "if IsFlashBlock t1 then restoreFlashBlockSnapshot t1 = Inr t2 else t2 = t1"
    and t': "t' = fill_block event t2"
  have "output_state t0 = output_state t"
    using flash by (auto simp: handleFlashBlockStart_def bindR_Inr_iff guard_Inr_iff
        split: option.splits if_splits)
  moreover have "output_state t2 = output_state t1"
    using restore by (auto split: if_splits elim!: restoreFlashBlockSnapshot_elim)
  ultimately show ?thesis by (simp add: t' t1)
qed

lemma OnBlockEnd_flag:
  assumes "OnBlockEnd err t = Inr t'"
  shows "t_concurrentFlush t' = t_concurrentFlush t" and "err \<noteq> None \<Longrightarrow> t_output t' = t_output t"
proof -
  obtain t1 where t': "t' = resetTransaction (resetBlock (freeze_snapshot t1))"
    and some: "err = None \<Longrightarrow> \<exists>x. t1 = emit x (before_flush t)"
    and none: "err \<noteq> None \<Longrightarrow> t1 = t \<or> t1 = t\<lparr>t_snapshotForNextFlashBlock := None\<rparr>"
    using assms by (elim OnBlockEnd_elim) blast
  have o1: "output_state t' = output_state t1" by (simp add: t')
  have flag: "snd (output_state (emit x u)) = snd (output_state u)" for x u
    by (simp add: output_state_def emit_def)
  have "err \<noteq> None \<Longrightarrow> output_state t1 = output_state t" using none by auto
  moreover have "snd (output_state t1) = snd (output_state t)"
    using some none flag by (cases "err = None") auto
  ultimately show "t_concurrentFlush t' = t_concurrentFlush t" and "err \<noteq> None \<Longrightarrow> t_output t' = t_output t"
    using o1 by (simp_all add: output_state_def)
qed

text \<open>Only the end of a block has output, one line.\<close>

lemma hook_output:
  assumes "apply_hook cr h t = Inr t'"
  shows "t_concurrentFlush t' = t_concurrentFlush t
    \<and> (t_output t' = t_output t \<or> (\<exists>out. t_output t' = t_output t @ [BlockLine out]))"
proof (cases "\<exists>err. h = HBlockEnd err")
  case True
  then obtain err where e: "OnBlockEnd err t = Inr t'" using assms by auto
  show ?thesis
  proof (cases err)
    case None
    with e have "OnBlockEnd None t = Inr t'" by simp
    then obtain out where "t_output t' = t_output t @ [BlockLine out]" by (rule OnBlockEnd_output)
    then show ?thesis using OnBlockEnd_flag(1) [OF e] by blast
  next
    case (Some x)
    then show ?thesis using OnBlockEnd_flag [OF e] by simp
  qed
next
  case False
  then have "output_state t' = output_state t"
    using assms
    by (cases h) (auto dest: change_hooks_output transaction_hooks_output OnBlockStart_output
        simp: SnapshotFlashBlockForNextIteration_def split: option.splits)
  then show ?thesis by (simp add: output_state_def)
qed

subsection \<open>The whole as a step relation\<close>

fun block_lines :: "output_item list \<Rightarrow> blockOutput list" where
  "block_lines [] = []"
| "block_lines (InitLine s # xs) = block_lines xs"
| "block_lines (BlockLine out # xs) = out # block_lines xs"

text \<open>The blocks output since the state \<open>t\<close>.\<close>

definition emitted :: "tracer \<Rightarrow> tracer \<Rightarrow> blockOutput list" where
  "emitted t t' = block_lines (drop (length (t_output t)) (t_output t'))"

definition OnClose :: "tracer \<Rightarrow> ConcurrentFlushQueue \<Rightarrow> ConcurrentFlushQueue" where
  "OnClose t q = (if t_concurrentFlush t then fq_Close q else q)"

text \<open>\<open>pl_flushed\<close> is the history of the blocks handed to the output.\<close>

record 'w pipeline =
  pl_tracer :: tracer
  pl_queue :: ConcurrentFlushQueue
  pl_writer :: 'w
  pl_flushed :: "blockOutput list"
  pl_panicked :: bool

definition start_pipeline :: "tracer \<Rightarrow> nat \<Rightarrow> 'w \<Rightarrow> 'w pipeline" where
  "start_pipeline t n w = \<lparr>pl_tracer = t, pl_queue = NewConcurrentFlushQueue n, pl_writer = w,
     pl_flushed = [], pl_panicked = False\<rparr>"

text \<open>Writing one block: the writer after it, and whether it panicked.\<close>

fun write_result :: "'w \<Rightarrow> go_error + 'w flush_result \<Rightarrow> 'w \<times> bool" where
  "write_result w (Inr (Flushed w')) = (w', False)"
| "write_result w (Inr (FlushFailed missing err w')) = (w', True)"
| "write_result w r = (w, True)"

definition write_block :: "Encoders \<Rightarrow> 'w writer \<Rightarrow> blockOutput \<Rightarrow> 'w \<Rightarrow> 'w \<times> bool" where
  "write_block en wr out w = write_result w (writeBlock en wr out w)"

inductive pl_step :: "Crypto \<Rightarrow> Encoders \<Rightarrow> 'w writer \<Rightarrow> 'w pipeline \<Rightarrow> 'w pipeline \<Rightarrow> bool"
    for cr en wr where
  hook: "\<not> pl_panicked p \<Longrightarrow> apply_hook cr h (pl_tracer p) = Inr t' \<Longrightarrow> emitted (pl_tracer p) t' = [] \<Longrightarrow>
    pl_step cr en wr p (p\<lparr>pl_tracer := t'\<rparr>)"
| push: "\<not> pl_panicked p \<Longrightarrow> apply_hook cr h (pl_tracer p) = Inr t' \<Longrightarrow> emitted (pl_tracer p) t' = [out] \<Longrightarrow>
    t_concurrentFlush (pl_tracer p) \<Longrightarrow> fq_Push out (pl_queue p) = Inr q' \<Longrightarrow>
    pl_step cr en wr p (p\<lparr>pl_tracer := t', pl_queue := q', pl_flushed := pl_flushed p @ [out]\<rparr>)"
| direct: "\<not> pl_panicked p \<Longrightarrow> apply_hook cr h (pl_tracer p) = Inr t' \<Longrightarrow> emitted (pl_tracer p) t' = [out] \<Longrightarrow>
    \<not> t_concurrentFlush (pl_tracer p) \<Longrightarrow> write_block en wr out (pl_writer p) = (w', b) \<Longrightarrow>
    pl_step cr en wr p (p\<lparr>pl_tracer := t', pl_writer := w', pl_flushed := pl_flushed p @ [out], pl_panicked := b\<rparr>)"
| panic: "\<not> pl_panicked p \<Longrightarrow> apply_hook cr h (pl_tracer p) = Inl e \<Longrightarrow>
    pl_step cr en wr p (p\<lparr>pl_panicked := True\<rparr>)"
| push_closed: "\<not> pl_panicked p \<Longrightarrow> apply_hook cr h (pl_tracer p) = Inr t' \<Longrightarrow> emitted (pl_tracer p) t' = [out] \<Longrightarrow>
    t_concurrentFlush (pl_tracer p) \<Longrightarrow> fq_Push out (pl_queue p) = Inl True \<Longrightarrow>
    pl_step cr en wr p (p\<lparr>pl_panicked := True\<rparr>)"
| receive: "\<not> pl_panicked p \<Longrightarrow> fq_receive (pl_queue p) = Some q' \<Longrightarrow>
    pl_step cr en wr p (p\<lparr>pl_queue := q'\<rparr>)"
| printed: "\<not> pl_panicked p \<Longrightarrow> fq_current (pl_queue p) = Some out \<Longrightarrow>
    write_block en wr out (pl_writer p) = (w', b) \<Longrightarrow> fq_print (pl_queue p) = Some q' \<Longrightarrow>
    pl_step cr en wr p (p\<lparr>pl_queue := q', pl_writer := w', pl_panicked := b\<rparr>)"
| close: "\<not> pl_panicked p \<Longrightarrow>
    pl_step cr en wr p (p\<lparr>pl_queue := OnClose (pl_tracer p) (pl_queue p)\<rparr>)"
| exit: "\<not> pl_panicked p \<Longrightarrow> fq_exit (pl_queue p) = Some q' \<Longrightarrow>
    pl_step cr en wr p (p\<lparr>pl_queue := q'\<rparr>)"

inductive pl_run :: "Crypto \<Rightarrow> Encoders \<Rightarrow> 'w writer \<Rightarrow> 'w pipeline \<Rightarrow> 'w pipeline \<Rightarrow> bool" for cr en wr p where
  refl: "pl_run cr en wr p p"
| step: "pl_run cr en wr p p' \<Longrightarrow> pl_step cr en wr p' p'' \<Longrightarrow> pl_run cr en wr p p''"

lemma block_lines_append [simp]: "block_lines (xs @ ys) = block_lines xs @ block_lines ys"
  by (induction xs rule: block_lines.induct) simp_all

lemma hook_emits:
  assumes "apply_hook cr h t = Inr t'"
  shows "emitted t t' = [] \<or> (\<exists>out. emitted t t' = [out])"
  using hook_output [OF assms] by (auto simp: emitted_def)

text \<open>Writing blocks one after the other: the writer at the end, if nothing panics.\<close>

primrec write_blocks :: "Encoders \<Rightarrow> 'w writer \<Rightarrow> blockOutput list \<Rightarrow> 'w \<Rightarrow> 'w option" where
  "write_blocks en wr [] w = Some w"
| "write_blocks en wr (out # outs) w =
     (case write_block en wr out w of (w', True) \<Rightarrow> None | (w', False) \<Rightarrow> write_blocks en wr outs w')"

lemma write_blocks_snoc:
  "write_blocks en wr outs w = Some w1 \<Longrightarrow> write_block en wr out w1 = (w2, False) \<Longrightarrow>
     write_blocks en wr (outs @ [out]) w = Some w2"
  by (induction outs arbitrary: w) (auto split: prod.splits bool.splits)

subsection \<open>The invariant of the pipeline\<close>

text \<open>
  While nothing has panicked: the blocks handed to the output are those the hooks emitted, the first
  of them are written and the others are pending. After a panic: the first of them are written and
  at most one more was begun.
\<close>

definition flowing :: "Encoders \<Rightarrow> 'w writer \<Rightarrow> tracer \<Rightarrow> 'w \<Rightarrow> 'w pipeline \<Rightarrow> bool" where
  "flowing en wr t0 w0 p \<longleftrightarrow> (\<exists>items. t_output (pl_tracer p) = t_output t0 @ items \<and> pl_flushed p = block_lines items)
     \<and> (fq_pending (pl_queue p) \<noteq> [] \<longrightarrow> t_concurrentFlush (pl_tracer p))
     \<and> (fq_workerDone (pl_queue p) \<longrightarrow> fq_closed (pl_queue p) \<and> fq_pending (pl_queue p) = [])
     \<and> (\<exists>d. pl_flushed p = d @ fq_pending (pl_queue p) \<and> write_blocks en wr d w0 = Some (pl_writer p))"

definition stopped :: "Encoders \<Rightarrow> 'w writer \<Rightarrow> 'w \<Rightarrow> 'w pipeline \<Rightarrow> bool" where
  "stopped en wr w0 p \<longleftrightarrow> (\<exists>d rest w1. pl_flushed p = d @ rest \<and> write_blocks en wr d w0 = Some w1
     \<and> (pl_writer p = w1 \<or> (\<exists>out rest'. rest = out # rest' \<and> write_block en wr out w1 = (pl_writer p, True))))"

lemma flowing_stopped: "flowing en wr t0 w0 p \<Longrightarrow> stopped en wr w0 (p\<lparr>pl_panicked := True\<rparr>)"
  by (auto simp: flowing_def stopped_def)

lemma hook_emitted:
  assumes "apply_hook cr h t = Inr t'"
  shows "emitted t t' = [] \<Longrightarrow> t_output t' = t_output t"
    and "emitted t t' = [out] \<Longrightarrow> t_output t' = t_output t @ [BlockLine out]"
    and "t_concurrentFlush t' = t_concurrentFlush t"
  using hook_output [OF assms] by (auto simp: emitted_def)

lemma fq_pending_ops:
  "fq_Push out q = Inr q' \<Longrightarrow> fq_pending q' = fq_pending q @ [out] \<and> fq_workerDone q' = fq_workerDone q
     \<and> \<not> fq_closed q"
  "fq_receive q = Some q' \<Longrightarrow> fq_pending q' = fq_pending q \<and> \<not> fq_workerDone q'"
  "fq_print q = Some q' \<Longrightarrow> fq_current q = Some out \<Longrightarrow> fq_pending q = out # fq_pending q'
     \<and> fq_workerDone q' = fq_workerDone q \<and> fq_closed q' = fq_closed q"
  "fq_exit q = Some q' \<Longrightarrow> fq_pending q' = [] \<and> fq_pending q = [] \<and> fq_closed q'"
  "fq_pending (OnClose t q) = fq_pending q" "fq_workerDone (OnClose t q) = fq_workerDone q"
  "fq_closed q \<Longrightarrow> fq_closed (OnClose t q)"
  by (auto simp: fq_pending_def fq_ops OnClose_def split: if_splits option.splits list.splits)

lemma stoppedI:
  "pl_flushed p = d @ out # rest \<Longrightarrow> write_blocks en wr d w0 = Some w1 \<Longrightarrow>
     write_block en wr out w1 = (pl_writer p, True) \<Longrightarrow> stopped en wr w0 p"
  unfolding stopped_def by blast

lemma flowing_step:
  assumes "pl_step cr en wr p p'" and "flowing en wr t0 w0 p"
  shows "if pl_panicked p' then stopped en wr w0 p' else flowing en wr t0 w0 p'"
proof -
  let ?q = "pl_queue p"
  obtain items d where items: "t_output (pl_tracer p) = t_output t0 @ items" "pl_flushed p = block_lines items"
    and conc: "fq_pending ?q \<noteq> [] \<longrightarrow> t_concurrentFlush (pl_tracer p)"
    and don: "fq_workerDone ?q \<longrightarrow> fq_closed ?q \<and> fq_pending ?q = []"
    and d: "pl_flushed p = d @ fq_pending ?q" "write_blocks en wr d w0 = Some (pl_writer p)"
    using assms(2) unfolding flowing_def by blast
  from assms(1) show ?thesis
  proof cases
    case (hook h t')
    then show ?thesis using assms(2) hook_emitted [OF hook(3)] by (simp add: flowing_def)
  next
    case (push h t' out q')
    note q' = fq_pending_ops(1) [OF push(6)]
    have "\<exists>items. t_output t' = t_output t0 @ items \<and> pl_flushed p @ [out] = block_lines items"
      using hook_emitted(2) [OF push(3,4)] items by (intro exI [of _ "items @ [BlockLine out]"]) simp
    moreover have "\<exists>d. pl_flushed p @ [out] = d @ fq_pending q' \<and> write_blocks en wr d w0 = Some (pl_writer p)"
      using d q' by auto
    ultimately show ?thesis
      using push q' don hook_emitted(3) [OF push(3)] by (auto simp: flowing_def)
  next
    case (direct h t' out w' b)
    have none: "fq_pending ?q = []" using conc direct(5) by blast
    have "\<exists>items. t_output t' = t_output t0 @ items \<and> pl_flushed p @ [out] = block_lines items"
      using hook_emitted(2) [OF direct(3,4)] items by (intro exI [of _ "items @ [BlockLine out]"]) simp
    moreover have "pl_flushed p = d" using d none by simp
    moreover have "write_blocks en wr (d @ [out]) w0 = Some w'" if "\<not> b"
      using write_blocks_snoc [OF d(2)] direct(6) that by simp
    ultimately show ?thesis
      using direct none don d stoppedI [of p' d out "[]" en wr w0] by (cases b) (auto simp: flowing_def)
  next
    case (printed out w' b q')
    note q' = fq_pending_ops(3) [OF printed(5,3)]
    show ?thesis
    proof (cases b)
      case True
      then show ?thesis using printed d q' stoppedI [of p' d out _ en wr w0] by auto
    next
      case False
      have "write_blocks en wr (d @ [out]) w0 = Some w'"
        using write_blocks_snoc [OF d(2)] printed(4) False by simp
      moreover have "pl_flushed p = (d @ [out]) @ fq_pending q'" using d q' by simp
      ultimately show ?thesis using printed(1) False items conc don q' by (auto simp: flowing_def)
    qed
  next
    case (panic h e)
    then show ?thesis using flowing_stopped [OF assms(2)] by simp
  next
    case (push_closed h t' out)
    then show ?thesis using flowing_stopped [OF assms(2)] by simp
  next
    case (receive q')
    then show ?thesis using assms(2) fq_pending_ops(2) [OF receive(3)] by (auto simp: flowing_def)
  next
    case close
    then show ?thesis using assms(2) fq_pending_ops(5,6,7) by (auto simp: flowing_def)
  next
    case (exit q')
    then show ?thesis using assms(2) fq_pending_ops(4) [OF exit(3)] by (auto simp: flowing_def)
  qed
qed

lemma pl_step_alive: "pl_step cr en wr p p' \<Longrightarrow> \<not> pl_panicked p"
  by (cases rule: pl_step.cases) auto

lemma pl_run_inv:
  assumes "pl_run cr en wr (start_pipeline t0 n w0) p"
  shows "if pl_panicked p then stopped en wr w0 p else flowing en wr t0 w0 p"
  using assms
proof induction
  case refl
  have "\<exists>items. t_output t0 = t_output t0 @ items \<and> [] = block_lines items" by (intro exI [of _ "[]"]) simp
  then show ?case
    by (simp add: start_pipeline_def flowing_def fq_pending_def NewConcurrentFlushQueue_def)
next
  case (step p' p'')
  have "flowing en wr t0 w0 p'" using step(3) pl_step_alive [OF step(2)] by simp
  from flowing_step [OF step(2) this] show ?case .
qed

subsection \<open>What reaches the stream\<close>

text \<open>
  C22. Concurrent flushing is equivalent to synchronous flushing: whenever nothing has panicked and no
  block is pending, in particular once the worker has left after \<open>OnClose\<close>, and in every interleaving
  of the hooks with the worker, the output is what writing the emitted blocks one after the other
  in the order of their ends gives, as without a queue.
\<close>

theorem concurrent_flush_equals_sync:
  assumes "pl_run cr en wr (start_pipeline t0 n w0) p" and "\<not> pl_panicked p"
    and "fq_pending (pl_queue p) = [] \<or> fq_workerDone (pl_queue p) \<or> \<not> t_concurrentFlush (pl_tracer p)"
  shows "write_blocks en wr (emitted t0 (pl_tracer p)) w0 = Some (pl_writer p)"
proof -
  have f: "flowing en wr t0 w0 p" using pl_run_inv [OF assms(1)] assms(2) by simp
  then have "fq_pending (pl_queue p) = []" using assms(3) by (auto simp: flowing_def)
  then show ?thesis using f by (auto simp: flowing_def emitted_def)
qed

text \<open>The text of a block; a block that cannot be marshalled has none.\<close>

definition block_line :: "Encoders \<Rightarrow> blockOutput \<Rightarrow> string" where
  "block_line en out = (case render en out of Inl _ \<Rightarrow> [] | Inr line \<Rightarrow> line)"

lemma render_ne: "render en out = Inr line \<Longrightarrow> line \<noteq> []"
  by (auto simp: render_spaced header_fields_def Let_def bindR_Inr_iff)

context io_writer
begin

lemma write_block_sink:
  assumes "write_block en wr out w = (w', b)"
  shows "\<exists>part rest. sink w' = sink w @ part \<and> block_line en out = part @ rest \<and> (\<not> b \<longrightarrow> rest = [])"
proof (cases "render en out")
  case (Inl e)
  then show ?thesis using assms by (auto simp: write_block_def writeBlock_def block_line_def)
next
  case (Inr line)
  note ne = render_ne [OF Inr]
  have r: "write_result w (Inr (flush_loop wr maxWriteAttempts line None w)) = (w', b)"
    using assms Inr by (simp add: write_block_def writeBlock_def flushToFirehose_def)
  show ?thesis
  proof (cases "flush_loop wr maxWriteAttempts line None w")
    case (Flushed v)
    then show ?thesis using r flush_loop_Flushed [OF Flushed] by (simp add: block_line_def Inr)
  next
    case (FlushFailed m e v)
    then show ?thesis using r flush_loop_Failed [OF FlushFailed ne] Inr
      by (intro exI [of _ "take (length line - m) line"] exI [of _ "drop (length line - m) line"])
        (simp add: block_line_def)
  next
    case FlushSliceOutOfRange
    then show ?thesis using flush_loop_in_range by blast
  qed
qed

lemma write_blocks_sink:
  "write_blocks en wr outs w = Some w' \<Longrightarrow> sink w' = sink w @ concat (map (block_line en) outs)"
proof (induction outs arbitrary: w)
  case Nil
  then show ?case by simp
next
  case (Cons out outs)
  then obtain v where v: "write_block en wr out w = (v, False)" "write_blocks en wr outs v = Some w'"
    by (auto split: prod.splits bool.splits)
  show ?case using write_block_sink [OF v(1)] Cons.IH [OF v(2)] by auto
qed

lemma stopped_sink:
  assumes "stopped en wr w0 p"
  shows "\<exists>part rest. sink (pl_writer p) = sink w0 @ part \<and> concat (map (block_line en) (pl_flushed p)) = part @ rest"
proof -
  obtain d late w1 where d: "pl_flushed p = d @ late" "write_blocks en wr d w0 = Some w1"
    and w: "pl_writer p = w1 \<or> (\<exists>out rest'. late = out # rest' \<and> write_block en wr out w1 = (pl_writer p, True))"
    using assms unfolding stopped_def by blast
  from w show ?thesis
  proof
    assume "pl_writer p = w1"
    then show ?thesis using d write_blocks_sink [OF d(2)] by auto
  next
    assume "\<exists>out rest'. late = out # rest' \<and> write_block en wr out w1 = (pl_writer p, True)"
    then obtain out rest' where out: "late = out # rest'" "write_block en wr out w1 = (pl_writer p, True)" by blast
    then show ?thesis using d write_blocks_sink [OF d(2)] write_block_sink [OF out(2)] by auto
  qed
qed

end

text \<open>
  C21. The stream never shows anything but the blocks in order: at every moment of every interleaving,
  a panic of the tracer, of the worker or of the writer included, what was written is a prefix of
  the lines of the blocks handed to the output, in the order in which they ended; and all of them are
  there when nothing has panicked and no block is pending.
\<close>

theorem stream_prefix_of_blocks:
  assumes "pl_run cr en wr (start_pipeline t0 n w0) p" and "writes_prefix wr sink"
  shows "\<exists>part rest. sink (pl_writer p) = sink w0 @ part
    \<and> concat (map (block_line en) (pl_flushed p)) = part @ rest
    \<and> (\<not> pl_panicked p \<and> fq_pending (pl_queue p) = [] \<longrightarrow> rest = [])"
proof -
  note io = assms(2) [unfolded writes_prefix_io_writer]
  show ?thesis
  proof (cases "pl_panicked p")
    case True
    then show ?thesis using io_writer.stopped_sink [OF io] pl_run_inv [OF assms(1)] by auto
  next
    case False
    then obtain d where d: "pl_flushed p = d @ fq_pending (pl_queue p)" "write_blocks en wr d w0 = Some (pl_writer p)"
      using pl_run_inv [OF assms(1)] by (auto simp: flowing_def)
    then show ?thesis using io_writer.write_blocks_sink [OF io d(2)] by auto
  qed
qed

subsection \<open>Shutdown\<close>

lemma pl_run_prepend:
  assumes "pl_run cr en wr p1 p2" and "pl_step cr en wr p p1"
  shows "pl_run cr en wr p p2"
  using assms
proof induction
  case refl
  then show ?case using pl_run.step [OF pl_run.refl] by blast
next
  case (step p' p'')
  show ?case by (rule pl_run.step [OF step.IH [OF step.prems] step.hyps(2)])
qed

text \<open>A closed queue whose worker is there lets it take a turn, which leaves the tracer alone.\<close>

lemma worker_can_go:
  assumes "flowing en wr t0 w0 p" and "\<not> pl_panicked p" and "fq_closed (pl_queue p)"
    and "\<not> fq_workerDone (pl_queue p)"
  shows "\<exists>p'. pl_step cr en wr p p' \<and> pl_tracer p' = pl_tracer p \<and> fq_closed (pl_queue p')
    \<and> worker_work (pl_queue p') < worker_work (pl_queue p)"
proof -
  obtain e q' where turn: "worker_turn (pl_queue p) = Some (e, q')"
    using assms(3,4) by (cases "fq_current (pl_queue p)"; cases "fq_jobQueue (pl_queue p)")
      (auto simp: worker_turn_def fq_ops)
  note less = worker_turn_decreases [OF turn] and closed = worker_turn_inert [OF turn]
  consider (printed) "fq_print (pl_queue p) = Some q'" | (receive) "fq_receive (pl_queue p) = Some q'"
    | (exit) "fq_exit (pl_queue p) = Some q'"
    using turn by (auto simp: worker_turn_def split: option.splits)
  then show ?thesis
  proof cases
    case printed
    then obtain out where out: "fq_current (pl_queue p) = Some out" by (auto simp: fq_print_def split: option.splits)
    obtain w' b where w: "write_block en wr out (pl_writer p) = (w', b)" by (cases "write_block en wr out (pl_writer p)") auto
    show ?thesis
      using pl_step.printed [OF assms(2) out w printed, of cr] less closed assms(3)
      by (intro exI [of _ "p\<lparr>pl_queue := q', pl_writer := w', pl_panicked := b\<rparr>"]) simp
  next
    case receive
    then show ?thesis
      using pl_step.receive [OF assms(2) receive, of cr en wr] less closed assms(3)
      by (intro exI [of _ "p\<lparr>pl_queue := q'\<rparr>"]) simp
  next
    case exit
    then show ?thesis
      using pl_step.exit [OF assms(2) exit, of cr en wr] less closed assms(3)
      by (intro exI [of _ "p\<lparr>pl_queue := q'\<rparr>"]) simp
  qed
qed

lemma worker_finishes:
  assumes "flowing en wr t0 w0 p" and "\<not> pl_panicked p" and "fq_closed (pl_queue p)"
  shows "\<exists>p'. pl_run cr en wr p p' \<and> pl_tracer p' = pl_tracer p \<and> (pl_panicked p' \<or>
    flowing en wr t0 w0 p' \<and> fq_workerDone (pl_queue p'))"
  using assms
proof (induction "worker_work (pl_queue p)" arbitrary: p rule: less_induct)
  case less
  show ?case
  proof (cases "fq_workerDone (pl_queue p)")
    case True
    then show ?thesis using less.prems pl_run.refl by blast
  next
    case False
    obtain p1 where p1: "pl_step cr en wr p p1" "pl_tracer p1 = pl_tracer p" "fq_closed (pl_queue p1)"
      "worker_work (pl_queue p1) < worker_work (pl_queue p)"
      using worker_can_go [OF less.prems False] by blast
    show ?thesis
    proof (cases "pl_panicked p1")
      case True
      then show ?thesis using p1 pl_run.step [OF pl_run.refl p1(1)] by blast
    next
      case False
      then have "flowing en wr t0 w0 p1" using flowing_step [OF p1(1) less.prems(1)] by simp
      from less.hyps [OF p1(4) this False p1(3)] show ?thesis
        using pl_run_prepend [OF _ p1(1)] p1(2) by metis
    qed
  qed
qed

text \<open>
  C23. Shutdown completes: from every state the tracer and its worker can reach without a panic, after
  \<open>OnClose\<close> the worker's own turns end, either in a panic of the writer or with the worker gone and
  every block the hooks emitted written, in order.
\<close>

theorem shutdown_completes:
  assumes "pl_run cr en wr (start_pipeline t0 n w0) p" and "\<not> pl_panicked p"
    and "t_concurrentFlush (pl_tracer p)"
  shows "\<exists>p'. pl_run cr en wr (p\<lparr>pl_queue := OnClose (pl_tracer p) (pl_queue p)\<rparr>) p'
    \<and> (pl_panicked p' \<or> fq_workerDone (pl_queue p')
        \<and> write_blocks en wr (emitted t0 (pl_tracer p)) w0 = Some (pl_writer p'))"
proof -
  let ?p = "p\<lparr>pl_queue := OnClose (pl_tracer p) (pl_queue p)\<rparr>"
  have "flowing en wr t0 w0 p" using pl_run_inv [OF assms(1)] assms(2) by simp
  then have f: "flowing en wr t0 w0 ?p"
    using flowing_step [OF pl_step.close [OF assms(2), of cr en wr], of t0 w0] assms(2) by simp
  have "fq_closed (pl_queue ?p)" using assms(3) by (simp add: OnClose_def fq_Close_def)
  from worker_finishes [OF f _ this, of cr] assms(2)
  obtain p' where p': "pl_run cr en wr ?p p'" "pl_tracer p' = pl_tracer p"
    "pl_panicked p' \<or> flowing en wr t0 w0 p' \<and> fq_workerDone (pl_queue p')" by auto
  moreover have "write_blocks en wr (emitted t0 (pl_tracer p')) w0 = Some (pl_writer p')"
    if "flowing en wr t0 w0 p'" "fq_workerDone (pl_queue p')"
    using that by (auto simp: flowing_def emitted_def)
  ultimately show ?thesis by (metis (no_types))
qed

end
