(* ===== verification/PipelineWitnesses.thy ===== *)
theory PipelineWitnesses
  imports Pipeline ValueWitnesses
begin

section \<open>The properties of the output at a concrete run\<close>

text \<open>
  Two blocks are traced with a queue for one block; the worker writes the first while the tracer goes
  on, and the second after \<open>OnClose\<close>.
\<close>

datatype action = Hook hook | Receive | Printed | Closing | Leave

fun act :: "Crypto \<Rightarrow> Encoders \<Rightarrow> 'w writer \<Rightarrow> action \<Rightarrow> 'w pipeline \<Rightarrow> 'w pipeline option" where
  "act cr en wr (Hook h) p =
     (if pl_panicked p \<or> \<not> t_concurrentFlush (pl_tracer p) then None
      else case apply_hook cr h (pl_tracer p) of
             Inl _ \<Rightarrow> None
           | Inr t' \<Rightarrow> (case emitted (pl_tracer p) t' of
               [] \<Rightarrow> Some (p\<lparr>pl_tracer := t'\<rparr>)
             | out # outs \<Rightarrow> (case (fq_Push out (pl_queue p), outs) of
                 (Inr q', []) \<Rightarrow> Some (p\<lparr>pl_tracer := t', pl_queue := q', pl_flushed := pl_flushed p @ [out]\<rparr>)
               | _ \<Rightarrow> None)))"
| "act cr en wr Receive p = (if pl_panicked p then None
     else map_option (\<lambda>q'. p\<lparr>pl_queue := q'\<rparr>) (fq_receive (pl_queue p)))"
| "act cr en wr Printed p = (if pl_panicked p then None
     else case fq_current (pl_queue p) of None \<Rightarrow> None
          | Some out \<Rightarrow> (case write_block en wr out (pl_writer p) of (w', b) \<Rightarrow>
              map_option (\<lambda>q'. p\<lparr>pl_queue := q', pl_writer := w', pl_panicked := b\<rparr>) (fq_print (pl_queue p))))"
| "act cr en wr Closing p = (if pl_panicked p then None
     else Some (p\<lparr>pl_queue := OnClose (pl_tracer p) (pl_queue p)\<rparr>))"
| "act cr en wr Leave p = (if pl_panicked p then None
     else map_option (\<lambda>q'. p\<lparr>pl_queue := q'\<rparr>) (fq_exit (pl_queue p)))"

fun acts :: "Crypto \<Rightarrow> Encoders \<Rightarrow> 'w writer \<Rightarrow> action list \<Rightarrow> 'w pipeline \<Rightarrow> 'w pipeline option" where
  "acts cr en wr [] p = Some p"
| "acts cr en wr (a # as) p = (case act cr en wr a p of None \<Rightarrow> None | Some p' \<Rightarrow> acts cr en wr as p')"

lemma act_step: "act cr en wr a p = Some p' \<Longrightarrow> pl_step cr en wr p p'"
  by (cases a) (auto intro: pl_step.intros split: if_splits sum.splits list.splits option.splits prod.splits)

lemma acts_run: "acts cr en wr as p = Some p' \<Longrightarrow> pl_run cr en wr p p'"
  by (induction as arbitrary: p) (auto intro: pl_run.refl pl_run_prepend act_step split: option.splits)

definition queue_config :: Config where
  "queue_config = demo_config\<lparr>cfg_EnableConcurrentFlushing := True, cfg_ConcurrentBufferSize := 1\<rparr>"

abbreviation queue_start :: "string pipeline" where
  "queue_start \<equiv> start_pipeline (NewTracer queue_config) 1 ''''"

definition two_blocks :: "action list" where
  "two_blocks = [Hook (HBlockStart demo_event), Hook (HBlockEnd None), Receive,
     Hook (HBlockStart demo_event), Printed, Hook (HBlockEnd None)]"

definition shutdown :: "action list" where
  "shutdown = [Closing, Receive, Printed, Leave]"

definition run_actions :: "action list \<Rightarrow> string pipeline" where
  "run_actions as = (case acts demo_crypto demo_encoders buffer_write as queue_start of
     None \<Rightarrow> queue_start | Some p \<Rightarrow> p)"

lemma run_actions_run: "pl_run demo_crypto demo_encoders buffer_write queue_start (run_actions as)"
  using acts_run pl_run.refl by (fastforce simp: run_actions_def split: option.split)

lemma buffer_prefix: "writes_prefix buffer_write (\<lambda>w. w)"
  by (simp only: writes_prefix_io_writer) unfold_locales

lemma acts_append: "acts cr en wr (as @ bs) p =
    (case acts cr en wr as p of None \<Rightarrow> None | Some p' \<Rightarrow> acts cr en wr bs p')"
  by (induction as arbitrary: p) (auto split: option.split)

lemma two_blocks_evaluated:
  "case acts demo_crypto demo_encoders buffer_write two_blocks queue_start of
     None \<Rightarrow> False
   | Some p \<Rightarrow> \<not> pl_panicked p \<and> t_concurrentFlush (pl_tracer p) \<and> length (pl_flushed p) = 2
       \<and> length (pl_writer p) > 100
       \<and> (case acts demo_crypto demo_encoders buffer_write shutdown p of
            None \<Rightarrow> False | Some p' \<Rightarrow> \<not> pl_panicked p' \<and> fq_workerDone (pl_queue p'))"
  by code_simp

lemma two_blocks_end:
  "\<not> pl_panicked (run_actions two_blocks)" "t_concurrentFlush (pl_tracer (run_actions two_blocks))"
  "length (pl_flushed (run_actions two_blocks)) = 2" "length (pl_writer (run_actions two_blocks)) > 100"
  "\<not> pl_panicked (run_actions (two_blocks @ shutdown))" "fq_workerDone (pl_queue (run_actions (two_blocks @ shutdown)))"
  using two_blocks_evaluated by (simp_all add: run_actions_def acts_append split: option.splits)

theorem concurrent_flush_equals_sync_witness:
  "fq_workerDone (pl_queue (run_actions (two_blocks @ shutdown)))
   \<and> write_blocks demo_encoders buffer_write
       (emitted (NewTracer queue_config) (pl_tracer (run_actions (two_blocks @ shutdown)))) ''''
     = Some (pl_writer (run_actions (two_blocks @ shutdown)))"
  using concurrent_flush_equals_sync [OF run_actions_run] two_blocks_end by blast

theorem stream_prefix_of_blocks_witness:
  "\<exists>rest. length (pl_writer (run_actions two_blocks)) > 100
    \<and> concat (map (block_line demo_encoders) (pl_flushed (run_actions two_blocks)))
      = pl_writer (run_actions two_blocks) @ rest"
  using stream_prefix_of_blocks [OF run_actions_run buffer_prefix, of two_blocks] two_blocks_end(4) by auto

theorem shutdown_completes_witness:
  "\<exists>p'. pl_run demo_crypto demo_encoders buffer_write ((run_actions two_blocks)
      \<lparr>pl_queue := OnClose (pl_tracer (run_actions two_blocks)) (pl_queue (run_actions two_blocks))\<rparr>) p'
    \<and> (pl_panicked p' \<or> fq_workerDone (pl_queue p')
        \<and> write_blocks demo_encoders buffer_write
            (emitted (NewTracer queue_config) (pl_tracer (run_actions two_blocks))) [] = Some (pl_writer p'))"
  using shutdown_completes [OF run_actions_run two_blocks_end(1,2)] .

end
