(* ===== verification/Spec2Isabelle.thy ===== *)
theory Spec2Isabelle
  imports RunWitnesses ValueWitnesses TransactionWitnesses PipelineWitnesses
begin

text \<open>
  A model of \<open>evm-firehose-tracer-go\<close>, the tracer an EVM node calls back while it executes blocks and
  which assembles one protobuf block per EVM block and writes it as a \<open>FIRE BLOCK\<close> line.

  \<^bold>\<open>The program.\<close> The node drives one \<open>Tracer\<close> (\<open>tracer.go\<close>) through hooks: block start and end,
  transaction start and end, call enter and exit, system call start and end, opcodes, and the state
  changes (balance, nonce, code, storage, logs) in between. Every recorded event takes the next
  number of one counter, the ordinal (\<open>ordinal.go\<close>). Calls under way are on a stack
  (\<open>callstack.go\<close>); a change outside any call waits in the deferred state
  (\<open>deferred_call_state.go\<close>) for the root call, or belongs to the block. When a transaction ends,
  several passes complete its trace: the filter of keccak preimages (\<open>keccak_filter.go\<close>), the receipt,
  the calls whose effects were undone, the numbers of the receipt's logs, and the EIP-7702
  authorizations that were applied (\<open>setcode.go\<close>). Flash blocks restart a block from a snapshot;
  parallel execution traces transactions on isolated tracers from ordinal 0 and commits them to a
  coordinator, shifting their ordinals; they hold the coordinator's block through the same pointer
  (\<open>on_shared\<close> of \<open>TracerParallel\<close>). When a block ends it is printed by \<open>tracer_printer.go\<close>,
  directly or by the worker of a queue (\<open>concurrency.go\<close>).

  \<^bold>\<open>Theories and sources.\<close>
  \<^item> \<open>Prelude\<close>, \<open>Bytes\<close>: results of panicking code as a sum (\<open>bindR\<close>, \<open>guard\<close>), byte strings,
    \<open>bytes.Compare\<close>, \<open>slices.SortFunc\<close> (locale \<open>slices_sort\<close>) and \<open>sort.Search\<close> of Go's library.
  \<^item> \<open>HexDec\<close>: hex and decimal text, \<open>hashFromHex\<close> and \<open>addressFromHex\<close> of \<open>types_builder.go\<close>.
  \<^item> \<open>Types\<close>: the events of \<open>types.go\<close>. \<open>Proto\<close>: the protobuf messages the tracer fills, with the
    fields it touches, and what each recording operation appends to.
  \<^item> \<open>Ordinals\<close> (\<open>ordinal.go\<close>, locale \<open>ticket_counter\<close>), \<open>Finality\<close> (\<open>finality.go\<close>,
    \<open>computeLibNum\<close>), \<open>CallStacks\<close> (\<open>callstack.go\<close>, locale \<open>stamping_stack\<close>), \<open>Deferred\<close>
    (\<open>deferred_call_state.go\<close>), \<open>Config\<close> (\<open>config.go\<close>), \<open>KeccakFilter\<close> (\<open>keccak_filter.go\<close>),
    \<open>SetCode\<close> (\<open>setcode.go\<close>, \<open>CreateAddress\<close>).
  \<^item> \<open>Tracer\<close>: the struct \<open>Tracer\<close> as the record \<open>tracer\<close>, one field \<open>t_x\<close> for each field \<open>x\<close>; the
    resets and the \<open>ensure\<close> guards. \<open>TracerCalls\<close>, \<open>TracerChanges\<close>, \<open>TracerTx\<close>, \<open>TracerSystem\<close>,
    \<open>TracerBlock\<close>, \<open>TracerParallel\<close>, \<open>Genesis\<close>: the hooks of \<open>tracer.go\<close>, one definition each, from
    a tracer to a panic or the tracer after the hook.
  \<^item> \<open>Printer\<close> (\<open>tracer_printer.go\<close>, locale \<open>io_writer\<close>), \<open>FlushQueue\<close> (\<open>concurrency.go\<close>, locale
    \<open>fifo_pipe\<close>), \<open>Builders\<close> and \<open>Wei\<close> (\<open>types_builder.go\<close>), \<open>DebugViews\<close> (\<open>tracer_debug.go\<close>).
  \<^item> \<open>Pipeline\<close>: the tracer, the queue and the printer together, as a step relation \<open>pl_step\<close>; \<open>OnClose\<close>.
  \<^item> \<open>Lifecycle\<close>: the hooks as the datatype \<open>hook\<close>, \<open>apply_hook\<close> that runs one and \<open>run_hooks\<close> that runs a
    list; \<open>TreeInv\<close>: the states \<open>reachable\<close> by hooks that satisfy a side condition.
  \<^item> \<open>CallTree\<close>, \<open>TreeInv\<close>, \<open>OrdinalInv\<close>, \<open>ChangeOrder\<close>, \<open>SystemFlash\<close>, \<open>TxSpec\<close>, \<open>ParallelSpec\<close>,
    \<open>GenesisSpec\<close>, \<open>KeccakDepth\<close>: the properties below. \<open>Execution\<close>: trees of calls, the hooks an EVM
    makes for one, and a recursive evaluator of them; \<open>ExecutionSpec\<close>, \<open>TransactionSpec\<close>, \<open>BlockSpec\<close>:
    what the evaluator computes (locale \<open>eval_relation\<close>) and what that says of a whole transaction
    and of a whole block;
    \<open>ParallelEquiv\<close>, \<open>ParallelCompletion\<close>: the hooks and the completion of a transaction commute with a
    shift of the ordinals; \<open>SharedBlock\<close>: they neither read nor write the block a tracer shares, so
    that running them on the block as it was at the spawn is no restriction. \<open>DemoRuns\<close>,
    \<open>RunWitnesses\<close>, \<open>ValueWitnesses\<close>, \<open>TransactionWitnesses\<close>, \<open>PipelineWitnesses\<close>: a concrete chain, block, transaction and shutdown, and each property applied
    at them.

  \<^bold>\<open>What the lemmas show.\<close>
  \<^item> Ordinals: the multiset of the ordinals held anywhere in the state (\<open>state_mset\<close>) has no
    duplicates and stays below the counter in every reachable state (\<open>OrdinalInv\<close>), also in every
    interleaving with isolated tracers (\<open>session\<close> of \<open>ParallelSpec\<close>).
  \<^item> Parallel execution: an isolated tracer neither disturbs nor sees what the coordinator and other tracers
    do to the block between its hooks (\<open>SharedBlock\<close>).
  \<^item> Execution: the hooks of a tree of calls do not panic and refine the evaluator (\<open>Execution\<close>); a
    transaction's trace has every ordinal of its interval on one event, its calls nest and its
    changes are in order (\<open>TransactionSpec\<close>); a block of transactions, system calls and changes outside
    them has every ordinal on one event (\<open>BlockSpec\<close>); committing what an isolated tracer traced is equivalent
    to tracing in place (\<open>ParallelCompletion\<close>).
  \<^item> The call tree: finished and active calls together carry the indexes \<open>1 .. n\<close>, parents first
    (\<open>TreeInv\<close>), the stack is well formed (\<open>ChangeOrder\<close>), and the marks of reverted state are those
    of the reference predicate \<open>reverted\<close> (\<open>CallTree\<close>).
  \<^item> A finished transaction: receipt logs, discarded authorizations, effective gas price (\<open>TxSpec\<close>),
    storage preimages against the reference relation \<open>explains\<close> (\<open>KeccakFilter\<close>), whose depth is
    bounded by the hashes recorded (\<open>KeccakDepth\<close>).
  \<^item> Blocks: flash block restarts, failed blocks, system calls inside a transaction
    (\<open>SystemFlash\<close>), the genesis block (\<open>GenesisSpec\<close>).
  \<^item> Output: the rendered line parses back, a write is complete or panics (\<open>Printer\<close>), the queue is a
    FIFO pipe and drains (\<open>FlushQueue\<close>), the LIB number is within 200 blocks (\<open>Finality\<close>); together,
    the stream is at every moment a prefix of the lines of the blocks that ended, and concurrent
    flushing gives what synchronous flushing gives (\<open>Pipeline\<close>).

  \<^bold>\<open>Bounds and side conditions.\<close> Ordinals, block numbers and gas are 64-bit words, call indexes and
  depths 32-bit words, and they wrap as in Go. The properties about uniqueness and the call tree
  are about runs in which the counters do not wrap: \<open>ordinal_fits\<close> and \<open>call_room\<close> ask of each hook
  that the counter has room for what the hook takes (\<open>2 ^ 64\<close> ordinals, \<open>2 ^ 32\<close> calls of a
  transaction). In a \<open>session\<close> the isolated tracers run only hooks of transactions (\<open>off_block\<close>): a system
  call, or a change outside a transaction, on an isolated tracer writes its own ordinals into the
  coordinator's block, and \<open>isolated_system_call_clash\<close> shows a run where two events then share one. Each
  hook, commit and reset is one step; the goroutines interleave between them, not within. The two loops with a bound of the code have that bound:
  \<open>maxWriteAttempts\<close> is 10 writes and \<open>keccakFilterMaxDepth\<close> 16 levels, and both are part of the
  statements. The loops of Go's library that are not structural have a termination proof; nothing
  in the development runs on fuel.

  \<^bold>\<open>Parameters.\<close> Code that is not in the repository is an argument: the record \<open>Crypto\<close> (Keccak, RLP,
  the secp256k1 operations and the ECDSA signer), \<open>StateReader\<close> (the node's state),
  \<open>Encoders\<close> (protobuf and base64), the writer of the output stream, and the chain's own functions in
  \<open>Config\<close> and \<open>ChainConfig\<close>. What a property needs of them is among its hypotheses.

  \<^bold>\<open>Not modelled.\<close> The formatting of log lines by \<open>fmt.Fprintf\<close>, the conversion of an \<open>eth-go\<close> key
  and the curve \<open>secp256k1\<close> of the library, accessors without effect (\<open>GetConfig\<close>,
  \<open>GetTestingOutputBuffer\<close>), the scratch buffers of \<open>render\<close>, unused type names, and the tests and
  experiments. Protobuf messages are values: that \<open>BeforeBlockFlush\<close> may also modify traces shared
  with a queued block is outside the model.
\<close>

end
